(* ===== verification/Prelude.thy ===== *)
theory Prelude
  imports Main "HOL-Library.Word" "HOL-Library.List_Lexorder" "HOL-Library.Char_ord"
    "HOL-Library.Countable"
begin

text \<open>
  The vocabulary the components share.

  Machine integers are words: \<open>u8\<close>, \<open>u32\<close>, \<open>u64\<close>. A column of SQLite holds an \<open>i64\<close>; Rust's
  \<open>as i64\<close> keeps the 64 bits, so a column is a \<open>u64\<close> too and only SQL's comparisons
  read it as signed (\<open>sql_le\<close>, \<open>sql_less\<close>).

  A Rust \<open>String\<close> is a \<open>string\<close> whose characters are the bytes of its UTF-8 text, so
  \<open>length\<close> is Rust's \<open>len()\<close> and \<open>as_bytes\<close> is \<open>as_bytes()\<close>.

  A \<open>BTreeMap\<close> is an association list that \<open>bt_insert\<close> keeps in key order, and
  \<open>Result<T, E>\<close> is the sum \<open>E + T\<close> with \<open>Inl\<close> for \<open>Err\<close>.
\<close>

section \<open>Machine integers and bytes\<close>

type_synonym u8 = "8 word"
type_synonym u32 = "32 word"
type_synonym u64 = "64 word"

named_theorems byte_simps \<open>lengths and injectivity of byte encodings\<close>
named_theorems frame_simps \<open>what a database operation leaves alone\<close>
named_theorems eval_simps \<open>evaluation of the worked examples\<close>

lemma replicate_num [eval_simps]: "replicate (numeral k) x = x # replicate (pred_numeral k) x"
  by (simp add: numeral_eq_Suc)

definition sql_le :: "u64 \<Rightarrow> u64 \<Rightarrow> bool" where
  "sql_le a b \<longleftrightarrow> sint a \<le> sint b"

definition sql_less :: "u64 \<Rightarrow> u64 \<Rightarrow> bool" where
  "sql_less a b \<longleftrightarrow> sint a < sint b"

text \<open>\<open>u64::to_be_bytes\<close>: eight bytes, the most significant first.\<close>

definition to_be_bytes :: "u64 \<Rightarrow> u8 list" where
  "to_be_bytes w = map (\<lambda>i. ucast (drop_bit (8 * i) w)) [7, 6, 5, 4, 3, 2, 1, 0]"

lemma length_to_be_bytes [simp, byte_simps]: "length (to_be_bytes w) = 8"
  by (simp add: to_be_bytes_def)

lemma to_be_bytes_inject [simp, byte_simps]: "to_be_bytes a = to_be_bytes b \<longleftrightarrow> a = b"
proof
  assume eq: "to_be_bytes a = to_be_bytes b"
  have "bit a n = bit b n" if n: "n < 64" for n
  proof -
    have "n div 8 < 8" using n by simp
    then have "n div 8 \<in> {0, 1, 2, 3, 4, 5, 6, 7}" by auto
    with eq have "(ucast (drop_bit (8 * (n div 8)) a) :: u8) = ucast (drop_bit (8 * (n div 8)) b)"
      by (auto simp: to_be_bytes_def)
    then have "bit (ucast (drop_bit (8 * (n div 8)) a) :: u8) (n mod 8)
      = bit (ucast (drop_bit (8 * (n div 8)) b) :: u8) (n mod 8)"
      by simp
    then show ?thesis
      using n by (simp add: bit_ucast_iff bit_drop_bit_eq)
  qed
  then show "a = b" by (auto intro: bit_word_eqI)
qed simp

text \<open>The two words a sequence number and an index are compared through.\<close>

lemma of_nat_u64_inject [simp]:
  "m < 2 ^ 64 \<Longrightarrow> n < 2 ^ 64 \<Longrightarrow> (of_nat m :: u64) = of_nat n \<longleftrightarrow> m = n"
  by (simp add: word_of_nat_eq_iff take_bit_nat_eq_self)

lemma unat_of_nat_u64 [simp]: "n < 2 ^ 64 \<Longrightarrow> unat (of_nat n :: u64) = n"
  by (simp add: unat_of_nat take_bit_nat_eq_self)

lemma sint_of_nat_u64: "n < 2 ^ 63 \<Longrightarrow> sint (of_nat n :: u64) = int n"
  by (simp add: sint_uint uint_nat unat_of_nat signed_take_bit_int_eq_self)

lemma sint_eq_unat:
  fixes w :: u64
  assumes "0 \<le> sint w"
  shows "sint w = int (unat w)"
proof -
  have lt: "unat w < 2 ^ LENGTH(64)" by (rule unsigned_less)
  have "unat w < 2 ^ 63"
  proof (rule ccontr)
    assume "\<not> unat w < 2 ^ 63"
    with lt have "unat w div 2 ^ 63 = 1" by (intro div_nat_eqI) simp_all
    then have "bit (unat w) 63" by (simp add: bit_iff_odd)
    then have "bit w 63" by (simp add: bit_unsigned_iff)
    with assms bit_last_iff[of w] show False by simp
  qed
  then show ?thesis using sint_of_nat_u64[of "unat w"] by simp
qed

lemma sint_nonneg_iff:
  fixes w :: u64
  shows "0 \<le> sint w \<longleftrightarrow> w < 2 ^ 63"
proof -
  have "unat w < 2 ^ 63" if "0 \<le> sint w"
    using sint_eq_unat[OF that] sint_lt[of w] of_nat_less_iff[of "unat w" "2 ^ 63", where ?'a = int]
    by simp
  moreover have "0 \<le> sint w" if "unat w < 2 ^ 63"
    using sint_of_nat_u64[OF that] by simp
  ultimately show ?thesis by (auto simp: word_less_nat_alt)
qed

lemma sql_le_of_nat [simp]:
  "m < 2 ^ 63 \<Longrightarrow> n < 2 ^ 63 \<Longrightarrow> sql_le (of_nat m) (of_nat n) \<longleftrightarrow> m \<le> n"
  by (simp add: sql_le_def sint_of_nat_u64)

section \<open>Text\<close>

definition byte_of :: "char \<Rightarrow> u8" where
  "byte_of c = of_nat (of_char c)"

lemma byte_of_inject [simp]: "byte_of c = byte_of d \<longleftrightarrow> c = d"
proof
  assume "byte_of c = byte_of d"
  moreover have "(of_char c :: nat) < 256" "(of_char d :: nat) < 256"
    by (metis of_char_mod_256 mod_less_divisor zero_less_numeral)+
  ultimately have "(of_char c :: nat) = of_char d"
    by (simp add: byte_of_def word_of_nat_eq_iff take_bit_nat_eq_self)
  then show "c = d" by simp
qed simp

definition as_bytes :: "string \<Rightarrow> u8 list" where
  "as_bytes s = map byte_of s"

declare byte_of_def [eval_simps] as_bytes_def [eval_simps]

lemma as_bytes_inject [simp, byte_simps]: "as_bytes s = as_bytes t \<longleftrightarrow> s = t"
  by (simp add: as_bytes_def inj_map_eq_map inj_on_def)

lemma length_as_bytes [simp, byte_simps]: "length (as_bytes s) = length s"
  by (simp add: as_bytes_def)

section \<open>Results\<close>

text \<open>
  The \<open>?\<close> operator is written out as a \<open>case\<close> over the sum. These split rules and the
  two collections let \<open>auto\<close> and \<open>simp\<close> follow it.
\<close>

lemmas result_splits = sum.splits option.splits if_splits prod.splits

definition ok_or :: "'a option \<Rightarrow> 'e \<Rightarrow> 'e + 'a" where
  "ok_or v e = (case v of None \<Rightarrow> Inl e | Some a \<Rightarrow> Inr a)"

lemma ok_or_simps [simp]: "ok_or None e = Inl e" "ok_or (Some a) e = Inr a"
  by (simp_all add: ok_or_def)

lemma ok_or_Inr_iff [simp]: "ok_or v e = Inr a \<longleftrightarrow> v = Some a"
  by (cases v) simp_all

section \<open>Ordered maps\<close>

text \<open>\<open>BTreeMap\<close>: \<open>insert\<close> keeps the keys in order and replaces the value of an equal key.\<close>

fun bt_insert :: "'k::linorder \<Rightarrow> 'v \<Rightarrow> ('k \<times> 'v) list \<Rightarrow> ('k \<times> 'v) list" where
  "bt_insert k v [] = [(k, v)]"
| "bt_insert k v ((k', v') # m) =
     (if k < k' then (k, v) # (k', v') # m
      else if k = k' then (k, v) # m
      else (k', v') # bt_insert k v m)"

definition bt_of_list :: "('k::linorder \<times> 'v) list \<Rightarrow> ('k \<times> 'v) list" where
  "bt_of_list kvs = foldl (\<lambda>m (k, v). bt_insert k v m) [] kvs"

definition bt_ok :: "('k::linorder \<times> 'v) list \<Rightarrow> bool" where
  "bt_ok m \<longleftrightarrow> sorted_wrt (<) (map fst m)"

lemma map_of_bt_insert [simp]: "map_of (bt_insert k v m) = (map_of m)(k \<mapsto> v)"
  by (induction k v m rule: bt_insert.induct) auto

lemma fst_set_bt_insert [simp]: "fst ` set (bt_insert k v m) = insert k (fst ` set m)"
  by (induction k v m rule: bt_insert.induct) auto

lemma keys_bt_insert: "x \<in> set (bt_insert k v m) \<Longrightarrow> fst x = k \<or> fst x \<in> fst ` set m"
  using fst_set_bt_insert[of k v m] by blast

lemma bt_ok_insert [intro]: "bt_ok m \<Longrightarrow> bt_ok (bt_insert k v m)"
  unfolding bt_ok_def
  by (induction k v m rule: bt_insert.induct) (auto dest!: keys_bt_insert)

lemma bt_of_list_snoc [simp]: "bt_of_list (kvs @ [(k, v)]) = bt_insert k v (bt_of_list kvs)"
  by (simp add: bt_of_list_def)

lemma bt_of_list_Nil [simp]: "bt_of_list [] = []"
  by (simp add: bt_of_list_def)

lemma bt_ok_of_list [simp]: "bt_ok (bt_of_list kvs)"
  by (induction kvs rule: rev_induct) (auto simp: bt_ok_def[of "[]"] intro!: bt_ok_insert)

text \<open>The last of the entries with a key is the one the map holds.\<close>

lemma map_of_bt_of_list: "map_of (bt_of_list kvs) = map_of (rev kvs)"
  by (induction kvs rule: rev_induct) auto

lemma bt_insert_last: "\<forall>k' \<in> fst ` set m. k' < k \<Longrightarrow> bt_insert k v m = m @ [(k, v)]"
  by (induction k v m rule: bt_insert.induct) auto

text \<open>Rebuilding a map from its own entries gives it back.\<close>

lemma bt_of_list_ok [simp]: "bt_ok m \<Longrightarrow> bt_of_list m = m"
proof (induction m rule: rev_induct)
  case (snoc kv m)
  then show ?case
    by (cases kv) (auto simp: bt_ok_def sorted_wrt_append intro!: bt_insert_last)
qed simp

section \<open>JSON\<close>

text \<open>
  The JSON data model. Numbers are \<open>u64\<close> (the only ones the server writes) or \<open>JReal\<close>, any
  other number by its text. An object lists its members in the order they are written or
  were read; \<open>json_norm\<close> is the value a parser that keeps objects in ordered maps returns.
\<close>

datatype json =
  JNull
| JBool bool
| JNum u64
| JReal string
| JStr string
| JArr "json list"
| JObj "(string \<times> json) list"

fun json_norm :: "json \<Rightarrow> json" where
  "json_norm (JArr vs) = JArr (map json_norm vs)"
| "json_norm (JObj kvs) = JObj (bt_of_list (map (\<lambda>(k, v). (k, json_norm v)) kvs))"
| "json_norm v = v"

fun json_plain :: "json \<Rightarrow> bool" where
  "json_plain (JArr vs) \<longleftrightarrow> list_all json_plain vs"
| "json_plain (JObj kvs) \<longleftrightarrow> list_all (\<lambda>(k, v). json_plain v) kvs"
| "json_plain (JReal s) \<longleftrightarrow> False"
| "json_plain v \<longleftrightarrow> True"

text \<open>Indexing gives \<open>Null\<close> for a missing member or a value that is not an object.\<close>

fun json_at :: "json \<Rightarrow> string \<Rightarrow> json" where
  "json_at (JObj kvs) k = (case map_of kvs k of None \<Rightarrow> JNull | Some v \<Rightarrow> v)"
| "json_at v k = JNull"

fun json_get :: "json \<Rightarrow> string \<Rightarrow> json option" where
  "json_get (JObj kvs) k = map_of kvs k"
| "json_get v k = None"

fun as_str :: "json \<Rightarrow> string option" where
  "as_str (JStr s) = Some s"
| "as_str v = None"

fun as_u64 :: "json \<Rightarrow> u64 option" where
  "as_u64 (JNum n) = Some n"
| "as_u64 v = None"

fun as_bool :: "json \<Rightarrow> bool option" where
  "as_bool (JBool b) = Some b"
| "as_bool v = None"

definition json_of_opt :: "string option \<Rightarrow> json" where
  "json_of_opt v = (case v of None \<Rightarrow> JNull | Some s \<Rightarrow> JStr s)"

lemma as_str_json_of_opt [simp]: "as_str (json_of_opt v) = v"
  by (cases v) (simp_all add: json_of_opt_def)

lemma json_norm_of_opt [simp]: "json_norm (json_of_opt v) = json_of_opt v"
  by (cases v) (simp_all add: json_of_opt_def)

lemma json_plain_of_opt [simp]: "json_plain (json_of_opt v)"
  by (cases v) (simp_all add: json_of_opt_def)

lemma json_at_norm_obj:
  "json_at (json_norm (JObj kvs)) k =
     (case map_of (rev (map (\<lambda>(k, v). (k, json_norm v)) kvs)) k of None \<Rightarrow> JNull | Some v \<Rightarrow> v)"
  by (simp add: map_of_bt_of_list)

lemma set_bt_insert: "set (bt_insert k v m) \<subseteq> insert (k, v) (set m)"
  by (induction k v m rule: bt_insert.induct) auto

lemma set_bt_of_list: "set (bt_of_list kvs) \<subseteq> set kvs"
proof (induction kvs rule: rev_induct)
  case (snoc kv kvs)
  then show ?case
    using set_bt_insert[of "fst kv" "snd kv" "bt_of_list kvs"] by (cases kv) auto
qed simp

lemma json_norm_idem [simp]: "json_norm (json_norm v) = json_norm v"
proof (induction v)
  case (JObj kvs)
  let ?m = "bt_of_list (map (\<lambda>(k, v). (k, json_norm v)) kvs)"
  have "(\<lambda>(k, v). (k, json_norm v)) p = p" if "p \<in> set ?m" for p
  proof -
    have "p \<in> set (map (\<lambda>(k, v). (k, json_norm v)) kvs)" using that set_bt_of_list by blast
    then obtain k v where "(k, v) \<in> set kvs" "p = (k, json_norm v)" by auto
    with JObj[of "(k, v)" v] show ?thesis by simp
  qed
  then have "map (\<lambda>(k, v). (k, json_norm v)) ?m = ?m" by (rule map_idI)
  then show ?case by (simp only: json_norm.simps json.inject bt_of_list_ok[OF bt_ok_of_list])
qed simp_all

lemma json_plain_norm [simp]: "json_plain v \<Longrightarrow> json_plain (json_norm v)"
proof (induction v)
  case (JObj kvs)
  let ?m = "bt_of_list (map (\<lambda>(k, v). (k, json_norm v)) kvs)"
  have "json_plain (snd p)" if "p \<in> set ?m" for p
  proof -
    have "p \<in> set (map (\<lambda>(k, v). (k, json_norm v)) kvs)" using that set_bt_of_list by blast
    then obtain k v where "(k, v) \<in> set kvs" "p = (k, json_norm v)" by auto
    with JObj(1)[of "(k, v)" v] JObj(2) show ?thesis by (auto simp: list_all_iff)
  qed
  then show ?case by (auto simp: list_all_iff)
qed (simp_all add: list_all_iff)

text \<open>
  The serialiser is a library outside this repository, so its functions are a parameter:
  \<open>to_string\<close> of a value, \<open>from_str\<close> into a value, \<open>RawValue::from_string\<close>, which checks that a
  text is JSON and keeps it, and the message of the error when it is not. \<open>json_ok\<close> is what
  its documentation promises: what was printed parses back to the same value, members in
  map order, and is kept as it is.
\<close>

record json_lib =
  json_text :: "json \<Rightarrow> string"
  json_parse :: "string \<Rightarrow> json option"
  raw_value :: "string \<Rightarrow> string option"
  json_error :: "string \<Rightarrow> string"

definition json_ok :: "json_lib \<Rightarrow> bool" where
  "json_ok J \<longleftrightarrow>
     (\<forall>v. json_plain v \<longrightarrow> json_parse J (json_text J v) = Some (json_norm v)) \<and>
     (\<forall>v. json_plain v \<longrightarrow> raw_value J (json_text J v) = Some (json_text J v))"

lemma json_parse_text [simp]:
  "json_ok J \<Longrightarrow> json_plain v \<Longrightarrow> json_parse J (json_text J v) = Some (json_norm v)"
  by (simp add: json_ok_def)

lemma raw_value_text [simp]:
  "json_ok J \<Longrightarrow> json_plain v \<Longrightarrow> raw_value J (json_text J v) = Some (json_text J v)"
  by (simp add: json_ok_def)

instance json :: countable
  by countable_datatype

text \<open>A serialiser the laws hold of: a value is written as its number, in unary.\<close>

definition demo_json :: json_lib where
  "demo_json = \<lparr>json_text = (\<lambda>v. replicate (to_nat v) (CHR ''1'')),
     json_parse = (\<lambda>s. Some (json_norm (from_nat (length s)))), raw_value = Some,
     json_error = (\<lambda>s. ''expected value'')\<rparr>"

lemma demo_json_ok [simp]: "json_ok demo_json"
  by (simp add: json_ok_def demo_json_def)

text \<open>Looking an element up by its key.\<close>

lemma find_key: "distinct (map f xs) \<Longrightarrow> x \<in> set xs \<Longrightarrow> find (\<lambda>y. f y = f x) xs = Some x"
  by (induction xs) auto

lemma find_map_key: "(\<And>x. f (h x) = f x) \<Longrightarrow> find (\<lambda>y. f y = k) (map h xs) = map_option h (find (\<lambda>y. f y = k) xs)"
  by (induction xs) auto

end
