(* ===== verification/Tlr_Hash.thy ===== *)
theory Tlr_Hash
  imports Prelude
begin

text \<open>
  Digests, \<open>crates/tideline-proto/src/hash.rs\<close>: the 32-byte array type, the zero digest, and
  the hexadecimal form every wire field uses. \<open>Hash::of\<close> is SHA-256 of the \<open>sha2\<close> crate; it
  is the parameter \<open>sha\<close> of every definition that hashes. The lemmas give the two directions
  of the hexadecimal round trip.
\<close>

unbundle bit_operations_syntax

section \<open>The digest type\<close>

typedef hash = "{bs :: u8 list. length bs = 32}"
  morphisms hash_bytes Hash
  by (rule exI[of _ "replicate 32 0"]) simp

type_synonym sha = "u8 list \<Rightarrow> hash"

lemma length_hash_bytes [simp, byte_simps]: "length (hash_bytes h) = 32"
  using hash_bytes[of h] by simp

lemma hash_bytes_Hash [simp]: "length bs = 32 \<Longrightarrow> hash_bytes (Hash bs) = bs"
  by (simp add: Hash_inverse)

lemma hash_bytes_inject' [simp, byte_simps]: "hash_bytes a = hash_bytes b \<longleftrightarrow> a = b"
  by (rule hash_bytes_inject)

lemma Hash_hash_bytes [simp]: "Hash (hash_bytes h) = h"
  by (rule hash_bytes_inverse)

instantiation hash :: equal
begin

definition equal_hash :: "hash \<Rightarrow> hash \<Rightarrow> bool" where
  "equal_hash a b \<longleftrightarrow> hash_bytes a = hash_bytes b"

instance
  by standard (simp add: equal_hash_def)

end

definition ZERO :: hash where
  "ZERO = Hash (replicate 32 0)"

definition is_zero :: "hash \<Rightarrow> bool" where
  "is_zero h \<longleftrightarrow> hash_bytes h = replicate 32 0"

lemma hash_bytes_ZERO [simp]: "hash_bytes ZERO = replicate 32 0"
  by (simp add: ZERO_def)

lemma is_zero_iff: "is_zero h \<longleftrightarrow> h = ZERO"
  by (simp add: is_zero_def flip: hash_bytes_inject)

section \<open>Collisions\<close>

text \<open>
  No function into 32 bytes is injective, so what the chain relies on is stated about the
  messages that were really hashed: on the set \<open>X\<close> the digest has no collision, and no
  message of \<open>X\<close> has the zero digest that stands for an absent field.
\<close>

definition collision_free :: "sha \<Rightarrow> u8 list set \<Rightarrow> bool" where
  "collision_free sha X \<longleftrightarrow> inj_on sha X \<and> ZERO \<notin> sha ` X"

lemma collision_freeD:
  "collision_free sha X \<Longrightarrow> sha x = sha y \<Longrightarrow> x \<in> X \<Longrightarrow> y \<in> X \<Longrightarrow> x = y"
  "collision_free sha X \<Longrightarrow> x \<in> X \<Longrightarrow> sha x \<noteq> ZERO"
  by (auto simp: collision_free_def dest: inj_onD) (metis imageI)

lemma collision_free_mono: "collision_free sha X \<Longrightarrow> Y \<subseteq> X \<Longrightarrow> collision_free sha Y"
  by (auto simp: collision_free_def intro: inj_on_subset)

text \<open>A concrete digest, the first 32 bytes padded with zeros, for the worked examples.\<close>

definition prefix_sha :: sha where
  "prefix_sha bs = Hash (take 32 (bs @ replicate 32 0))"

lemma hash_bytes_prefix_sha [simp]: "hash_bytes (prefix_sha bs) = take 32 (bs @ replicate 32 0)"
  by (simp add: prefix_sha_def)

lemma prefix_sha_eq_iff [simp]:
  "prefix_sha a = prefix_sha b \<longleftrightarrow> take 32 (a @ replicate 32 0) = take 32 (b @ replicate 32 0)"
  by (simp flip: hash_bytes_inject)

lemma prefix_sha_ZERO_iff [simp]:
  "prefix_sha a = ZERO \<longleftrightarrow> take 32 (a @ replicate 32 0) = replicate 32 0"
  "ZERO = prefix_sha a \<longleftrightarrow> replicate 32 0 = take 32 (a @ replicate 32 0)"
  by (simp_all flip: hash_bytes_inject)

section \<open>Hexadecimal\<close>

definition HEX :: string where
  "HEX = ''0123456789abcdef''"

definition hex_byte :: "u8 \<Rightarrow> string" where
  "hex_byte b = [HEX ! unat (drop_bit 4 b), HEX ! unat (b AND 0x0f)]"

definition to_hex :: "hash \<Rightarrow> string" where
  "to_hex h = concat (map hex_byte (hash_bytes h))"

text \<open>\<open>char::to_digit(16)\<close> takes both cases.\<close>

definition to_digit16 :: "char \<Rightarrow> u32 option" where
  "to_digit16 c =
     (let n = of_char c :: nat
      in if 48 \<le> n \<and> n \<le> 57 then Some (of_nat (n - 48))
         else if 97 \<le> n \<and> n \<le> 102 then Some (of_nat (n - 87))
         else if 65 \<le> n \<and> n \<le> 70 then Some (of_nat (n - 55))
         else None)"

text \<open>The loop of \<open>from_hex\<close>: two digits fill one slot, a bad digit returns at once.\<close>

fun from_hex_loop :: "string \<Rightarrow> u8 list option" where
  "from_hex_loop (c # d # s) =
     (case to_digit16 c of
        None \<Rightarrow> None
      | Some hi \<Rightarrow>
          (case to_digit16 d of
             None \<Rightarrow> None
           | Some lo \<Rightarrow> map_option ((#) (ucast (push_bit 4 hi OR lo))) (from_hex_loop s)))"
| "from_hex_loop s = Some []"

definition from_hex :: "string \<Rightarrow> hash option" where
  "from_hex s = (if length s \<noteq> 64 then None else map_option Hash (from_hex_loop s))"

text \<open>As JSON a digest is the string of its hexadecimal form.\<close>

definition hash_serialize :: "hash \<Rightarrow> json" where
  "hash_serialize h = JStr (to_hex h)"

definition hash_deserialize :: "json \<Rightarrow> hash option" where
  "hash_deserialize v = (case v of JStr s \<Rightarrow> from_hex s | _ \<Rightarrow> None)"

subsection \<open>Round trips\<close>

lemma to_digit16_HEX: "n < 16 \<Longrightarrow> to_digit16 (HEX ! n) = Some (of_nat n)"
proof -
  assume "n < 16"
  moreover have "\<forall>n \<in> {..<16}. to_digit16 (HEX ! n) = Some (of_nat n)"
    by (simp add: HEX_def to_digit16_def lessThan_nat_numeral lessThan_Suc)
  ultimately show ?thesis by blast
qed

lemma and_0x0f: "(b :: u8) AND 0x0f = take_bit 4 b"
  by (simp add: take_bit_eq_mask mask_eq_exp_minus_1)

lemma hi_nibble_bound: "unat (drop_bit 4 (b :: u8)) < 16"
  using unsigned_less[of b, where ?'a = nat] by (simp add: drop_bit_eq_div unat_div)

lemma lo_nibble_bound: "unat ((b :: u8) AND 0x0f) < 16"
  unfolding and_0x0f by (simp add: take_bit_eq_mod unat_mod)

lemma nibbles_join:
  "(ucast (push_bit 4 (ucast (drop_bit 4 b) :: u32) OR ucast (b AND 0x0f)) :: u8) = b"
  unfolding and_0x0f by (auto intro!: bit_word_eqI simp: bit_simps)

lemma from_hex_loop_to_hex: "from_hex_loop (concat (map hex_byte bs)) = Some bs"
  by (induction bs)
    (simp_all add: hex_byte_def to_digit16_HEX hi_nibble_bound lo_nibble_bound nibbles_join)

lemma length_concat_hex_byte: "length (concat (map hex_byte bs)) = 2 * length bs"
  by (induction bs) (simp_all add: hex_byte_def)

lemma length_to_hex [simp]: "length (to_hex h) = 64"
  by (simp add: to_hex_def length_concat_hex_byte)

lemma from_hex_to_hex [simp]: "from_hex (to_hex h) = Some h"
  by (simp add: from_hex_def) (simp add: to_hex_def from_hex_loop_to_hex)

lemma hash_serde [simp]: "hash_deserialize (hash_serialize h) = Some h" "hash_deserialize (JStr (to_hex h)) = Some h"
  by (simp_all add: hash_deserialize_def hash_serialize_def)

lemma to_hex_inject: "to_hex a = to_hex b \<longleftrightarrow> a = b"
  by (metis from_hex_to_hex option.inject)

text \<open>
  What \<open>from_hex\<close> accepts: exactly the texts that are the hexadecimal form of a digest in
  either case.
\<close>

definition ascii_lower :: "char \<Rightarrow> char" where
  "ascii_lower c =
     (let n = of_char c :: nat in if 65 \<le> n \<and> n \<le> 90 then char_of (n + 32) else c)"

lemma HEX_nth: "k < 16 \<Longrightarrow> HEX ! k = char_of (if k < 10 then 48 + k else 87 + k)"
proof -
  assume "k < 16"
  moreover have "list_all (\<lambda>k. HEX ! k = char_of (if k < 10 then 48 + k else 87 + k)) [0..<16]"
    by code_simp
  ultimately show ?thesis by (simp add: list_all_iff)
qed

lemma of_char_bound: "(of_char c :: nat) < 256"
  by (metis of_char_mod_256 mod_less_divisor zero_less_numeral)

lemma to_digit16_lower [simp]: "to_digit16 (ascii_lower c) = to_digit16 c"
  using of_char_bound[of c] by (auto simp: to_digit16_def ascii_lower_def Let_def)

lemma to_digit16_SomeD:
  "to_digit16 c = Some d \<Longrightarrow> unat d < 16 \<and> HEX ! unat d = ascii_lower c"
  by (auto simp: to_digit16_def ascii_lower_def Let_def HEX_nth unat_of_nat
      simp del: of_nat_diff split: if_splits)

lemma from_hex_loop_lower: "from_hex_loop (map ascii_lower s) = from_hex_loop s"
  by (induction s rule: from_hex_loop.induct) (auto split: option.splits)

lemma bit_nibble: "unat (w :: u32) < 16 \<Longrightarrow> bit w n \<Longrightarrow> n < 4"
proof -
  assume "unat w < 16" and bit: "bit w n"
  then have "take_bit 4 w = w"
    by (simp add: take_bit_eq_mod word_unat_eq_iff unat_mod)
  with bit show "n < 4"
    by (metis bit_take_bit_iff)
qed

lemma join_nibbles:
  assumes "unat (hi :: u32) < 16" and "unat (lo :: u32) < 16"
  shows "hex_byte (ucast (push_bit 4 hi OR lo)) = [HEX ! unat hi, HEX ! unat lo]"
proof -
  note bits = bit_nibble[OF assms(1)] bit_nibble[OF assms(2)]
  have "drop_bit 4 (ucast (push_bit 4 hi OR lo) :: u8) = ucast hi"
    by (rule bit_word_eqI) (auto simp: bit_simps dest: bits)
  moreover have "(ucast (push_bit 4 hi OR lo) :: u8) AND 0x0f = ucast lo"
    unfolding and_0x0f by (rule bit_word_eqI) (auto simp: bit_simps dest: bits)
  moreover have "unat (ucast w :: u8) = unat w" if "unat w < 16" for w :: u32
    using that by (simp add: unsigned_ucast_eq take_bit_eq_mod)
  ultimately show ?thesis
    using assms by (simp add: hex_byte_def)
qed

lemma from_hex_loop_SomeD:
  "from_hex_loop s = Some bs \<Longrightarrow> even (length s) \<Longrightarrow>
     concat (map hex_byte bs) = map ascii_lower s \<and> 2 * length bs = length s"
  by (induction s arbitrary: bs rule: from_hex_loop.induct)
    (auto split: option.splits dest!: to_digit16_SomeD simp: join_nibbles)


text \<open>
  the hexadecimal form of a digest is exact. \<open>from_hex\<close> accepts a text and returns a
  digest if and only if the text, with its letters in lower case, is what \<open>to_hex\<close> writes
  for that digest: every digest reads back, no two texts that differ beyond letter case
  give the same digest, and everything else (a wrong length, a character that is no
  hexadecimal digit) is refused.
\<close>

theorem from_hex_exact: "from_hex s = Some h \<longleftrightarrow> map ascii_lower s = to_hex h"
proof
  assume s: "from_hex s = Some h"
  then obtain bs where "from_hex_loop s = Some bs" "length s = 64" "h = Hash bs"
    by (auto simp: from_hex_def split: if_splits)
  with from_hex_loop_SomeD[of s bs] show "map ascii_lower s = to_hex h"
    by (simp add: to_hex_def)
next
  assume s: "map ascii_lower s = to_hex h"
  then have "length s = 64" by (metis length_map length_to_hex)
  moreover have "from_hex_loop s = from_hex_loop (to_hex h)"
    using s by (metis from_hex_loop_lower)
  ultimately show "from_hex s = Some h"
    using from_hex_to_hex[of h] by (simp add: from_hex_def)
qed

end
