(* ===== verification/Kind.thy ===== *)
theory Kind
  imports Prelude
begin

text \<open>
  Event kinds and their wire strings, \<open>crates/tideline-proto/src/kind.rs\<close>. The strings are
  hashed into every event, so two kinds never share one, and \<open>parse\<close> knows no other text.
\<close>

datatype event_kind =
  RunStarted | Message | ModelCall | ToolCall | Decision | Redaction | RunFinished

definition ALL_KINDS :: "event_kind list" where
  "ALL_KINDS = [RunStarted, Message, ModelCall, ToolCall, Decision, Redaction, RunFinished]"

fun kind_str :: "event_kind \<Rightarrow> string" where
  "kind_str RunStarted = ''run_started''"
| "kind_str Message = ''message''"
| "kind_str ModelCall = ''model_call''"
| "kind_str ToolCall = ''tool_call''"
| "kind_str Decision = ''decision''"
| "kind_str Redaction = ''redaction''"
| "kind_str RunFinished = ''run_finished''"

definition kind_parse :: "string \<Rightarrow> event_kind option" where
  "kind_parse s = find (\<lambda>k. kind_str k = s) ALL_KINDS"

lemma kind_str_inject [simp]: "kind_str a = kind_str b \<longleftrightarrow> a = b"
  by (cases a; cases b) simp_all

lemma kind_in_ALL [simp]: "k \<in> set ALL_KINDS"
  by (cases k) (simp_all add: ALL_KINDS_def)

lemma kind_parse_str [simp]: "kind_parse (kind_str k) = Some k"
  by (cases k) (simp_all add: kind_parse_def ALL_KINDS_def)

text \<open>
  \<open>parse\<close> is the exact inverse of \<open>as_str\<close>. A wire string gives a kind if and only if it
  is the string of that kind, so the seven kinds are told apart by their strings and an
  unknown string is refused instead of becoming a default kind.
\<close>

theorem kind_parse_exact: "kind_parse s = Some k \<longleftrightarrow> s = kind_str k"
proof
  assume "kind_parse s = Some k"
  then show "s = kind_str k"
    by (auto simp: kind_parse_def find_Some_iff)
qed simp

end
