(* ===== verification/Canon.thy ===== *)
theory Canon
  imports Tlr_Hash Kind
begin

text \<open>
  The canonical form of an event, \<open>crates/tideline-proto/src/canon.rs\<close>: the borrowed view
  \<open>EventCore\<close>, the digest of one field, the 181 bytes and the event hash. The lemmas give the
  layout, that the bytes determine every field up to a collision of the digest, and that an
  erased field keeps its digest.
\<close>

definition CANON_LEN :: nat where
  "CANON_LEN = 181"

text \<open>The domain tag \<open>tlr1\<close> and a line feed.\<close>

definition DOMAIN :: "u8 list" where
  "DOMAIN = [0x74, 0x6c, 0x72, 0x31, 0x0a]"

definition REDACTABLE :: "string list" where
  "REDACTABLE = [''role'', ''name'', ''content'', ''metadata'']"

record event_core =
  ec_seq :: u64
  ec_ts :: u64
  ec_kind :: event_kind
  ec_role :: "string option"
  ec_name :: "string option"
  ec_content :: "string option"
  ec_metadata_raw :: "string option"
  ec_redacted :: "(string \<times> hash) list option"

definition digest :: "sha \<Rightarrow> event_core \<Rightarrow> string \<Rightarrow> string option \<Rightarrow> hash" where
  "digest sha c field v =
     (case v of
        Some s \<Rightarrow> sha (as_bytes s)
      | None \<Rightarrow>
          (case ec_redacted c of
             None \<Rightarrow> ZERO
           | Some m \<Rightarrow> (case map_of m field of None \<Rightarrow> ZERO | Some h \<Rightarrow> h)))"

text \<open>\<open>out[off..off + len].copy_from_slice(bs)\<close>\<close>

definition copy_at :: "nat \<Rightarrow> u8 list \<Rightarrow> u8 list \<Rightarrow> u8 list" where
  "copy_at off bs out = take off out @ bs @ drop (off + length bs) out"

definition canon :: "sha \<Rightarrow> event_core \<Rightarrow> u8 list" where
  "canon sha c =
     (let out = replicate CANON_LEN 0;
          out = copy_at 0 DOMAIN out;
          out = copy_at 5 (to_be_bytes (ec_seq c)) out;
          out = copy_at 13 (to_be_bytes (ec_ts c)) out;
          out = copy_at 21 (hash_bytes (sha (as_bytes (kind_str (ec_kind c))))) out;
          out = copy_at 53 (hash_bytes (digest sha c ''role'' (ec_role c))) out;
          out = copy_at 85 (hash_bytes (digest sha c ''name'' (ec_name c))) out;
          out = copy_at 117 (hash_bytes (digest sha c ''content'' (ec_content c))) out;
          out = copy_at 149 (hash_bytes (digest sha c ''metadata'' (ec_metadata_raw c))) out
      in out)"

text \<open>The hasher is fed the canonical bytes, then the predecessor's digest.\<close>

definition event_hash :: "sha \<Rightarrow> event_core \<Rightarrow> hash \<Rightarrow> hash" where
  "event_hash sha c prev = sha (canon sha c @ hash_bytes prev)"

section \<open>Layout\<close>

lemma length_DOMAIN [simp, byte_simps]: "length DOMAIN = 5"
  by (simp add: DOMAIN_def)

text \<open>Writing slice after slice over zeros leaves the slices, one after the other.\<close>

lemma copy_at_skip:
  "length x \<le> off \<Longrightarrow> copy_at off bs (x @ out) = x @ copy_at (off - length x) bs out"
  by (simp add: copy_at_def)

lemma copy_at_zeros:
  "length bs \<le> n \<Longrightarrow> copy_at 0 bs (replicate n 0) = bs @ replicate (n - length bs) 0"
  by (simp add: copy_at_def)

lemma canon_layout:
  "canon sha c = DOMAIN @ to_be_bytes (ec_seq c) @ to_be_bytes (ec_ts c)
     @ hash_bytes (sha (as_bytes (kind_str (ec_kind c))))
     @ hash_bytes (digest sha c ''role'' (ec_role c))
     @ hash_bytes (digest sha c ''name'' (ec_name c))
     @ hash_bytes (digest sha c ''content'' (ec_content c))
     @ hash_bytes (digest sha c ''metadata'' (ec_metadata_raw c))"
  by (simp add: canon_def CANON_LEN_def Let_def copy_at_skip copy_at_zeros)

lemma length_canon [simp, byte_simps]: "length (canon sha c) = 181"
  by (simp add: canon_layout)

lemma canon_eq_iff:
  "canon sha a = canon sha b \<longleftrightarrow>
     ec_seq a = ec_seq b \<and> ec_ts a = ec_ts b \<and>
     sha (as_bytes (kind_str (ec_kind a))) = sha (as_bytes (kind_str (ec_kind b))) \<and>
     digest sha a ''role'' (ec_role a) = digest sha b ''role'' (ec_role b) \<and>
     digest sha a ''name'' (ec_name a) = digest sha b ''name'' (ec_name b) \<and>
     digest sha a ''content'' (ec_content a) = digest sha b ''content'' (ec_content b) \<and>
     digest sha a ''metadata'' (ec_metadata_raw a) = digest sha b ''metadata'' (ec_metadata_raw b)"
  by (auto simp: canon_layout)

section \<open>What the bytes commit to\<close>

text \<open>The four fields that may be erased, by name, and the messages an event's fields hash.\<close>

definition core_fields :: "event_core \<Rightarrow> (string \<times> string option) list" where
  "core_fields c =
     [(''role'', ec_role c), (''name'', ec_name c), (''content'', ec_content c),
      (''metadata'', ec_metadata_raw c)]"

definition core_inputs :: "event_core \<Rightarrow> u8 list list" where
  "core_inputs c =
     as_bytes (kind_str (ec_kind c)) #
     concat (map (\<lambda>(f, v). case v of None \<Rightarrow> [] | Some s \<Rightarrow> [as_bytes s]) (core_fields c))"

definition retained :: "(string \<times> hash) list option \<Rightarrow> string \<Rightarrow> hash" where
  "retained r f = (case r of None \<Rightarrow> ZERO | Some m \<Rightarrow> (case map_of m f of None \<Rightarrow> ZERO | Some h \<Rightarrow> h))"

lemma digest_Some [simp]: "digest sha c f (Some s) = sha (as_bytes s)"
  by (simp add: digest_def)

lemma digest_None [simp]: "digest sha c f None = retained (ec_redacted c) f"
  by (simp add: digest_def retained_def)

lemma retained_None [simp]: "retained None f = ZERO"
  by (simp add: retained_def)

lemma core_inputs_mem:
  "as_bytes (kind_str (ec_kind c)) \<in> set (core_inputs c)"
  "ec_role c = Some s \<Longrightarrow> as_bytes s \<in> set (core_inputs c)"
  "ec_name c = Some s \<Longrightarrow> as_bytes s \<in> set (core_inputs c)"
  "ec_content c = Some s \<Longrightarrow> as_bytes s \<in> set (core_inputs c)"
  "ec_metadata_raw c = Some s \<Longrightarrow> as_bytes s \<in> set (core_inputs c)"
  by (simp_all add: core_inputs_def core_fields_def)

text \<open>One field of an event that was never redacted is determined by its digest.\<close>

lemma digest_binds:
  assumes "collision_free sha X"
    and "\<And>s. v = Some s \<Longrightarrow> as_bytes s \<in> X" and "\<And>s. w = Some s \<Longrightarrow> as_bytes s \<in> X"
    and "ec_redacted a = None" and "ec_redacted b = None"
    and "digest sha a f v = digest sha b f w"
  shows "v = w"
proof -
  note one = collision_freeD(1)[OF assms(1)] and zero = collision_freeD(2)[OF assms(1)]
  show ?thesis
    using assms(2-6) by (cases v; cases w) (auto dest: one zero zero[THEN not_sym])
qed

lemma canon_inject:
  assumes "collision_free sha (set (core_inputs a) \<union> set (core_inputs b))"
    and "ec_redacted a = None" and "ec_redacted b = None"
    and "canon sha a = canon sha b"
  shows "a = b"
proof -
  note bind = digest_binds[OF assms(1) _ _ assms(2,3)]
  from assms(4) have
      "sha (as_bytes (kind_str (ec_kind a))) = sha (as_bytes (kind_str (ec_kind b)))"
    by (simp add: canon_eq_iff)
  with assms(1) have "ec_kind a = ec_kind b"
    using collision_freeD(1) core_inputs_mem(1) by fastforce
  moreover have "ec_role a = ec_role b"
    by (rule bind) (use assms(4) core_inputs_mem in \<open>auto simp: canon_eq_iff\<close>)
  moreover have "ec_name a = ec_name b"
    by (rule bind) (use assms(4) core_inputs_mem in \<open>auto simp: canon_eq_iff\<close>)
  moreover have "ec_content a = ec_content b"
    by (rule bind) (use assms(4) core_inputs_mem in \<open>auto simp: canon_eq_iff\<close>)
  moreover have "ec_metadata_raw a = ec_metadata_raw b"
    by (rule bind) (use assms(4) core_inputs_mem in \<open>auto simp: canon_eq_iff\<close>)
  ultimately show ?thesis
    using assms(2-4) by (auto simp: canon_eq_iff intro: event_core.equality)
qed

text \<open>
  the 181 bytes commit to the whole event. Two events that were never redacted and have
  the same canonical bytes are the same event, field by field (sequence number, time, kind,
  role, name, content, metadata, and whether each of them is present at all), unless the
  digest collides on the values of these two events.
\<close>

theorem canon_binds:
  assumes "collision_free sha (set (core_inputs a) \<union> set (core_inputs b))"
    and "ec_redacted a = None" and "ec_redacted b = None"
    and "canon sha a = canon sha b"
  shows "a = b"
  using assms by (rule canon_inject)

definition demo_core :: event_core where
  "demo_core = \<lparr>ec_seq = 3, ec_ts = 1757635204120, ec_kind = ToolCall, ec_role = Some ''tool'',
     ec_name = Some ''pull'', ec_content = None, ec_metadata_raw = None, ec_redacted = None\<rparr>"

lemma demo_core_collision_free:
  "collision_free prefix_sha (set (core_inputs demo_core))"
  by (simp add: collision_free_def core_inputs_def core_fields_def demo_core_def inj_on_def
      eval_simps)

theorem canon_binds_witness: "canon prefix_sha demo_core = canon prefix_sha demo_core \<and> demo_core = demo_core"
  using canon_binds[of prefix_sha demo_core demo_core] demo_core_collision_free
  by (simp add: demo_core_def)

text \<open>
  the \<open>redacted\<close> map only fills gaps. Replacing the map of an event by any other leaves
  the canonical bytes alone exactly when the two maps give the same digest for every field
  whose value is absent: an entry for a field that is still present is ignored, so a forged
  map cannot restate an event that still carries its content, and every entry for an absent
  field is committed.
\<close>

theorem redacted_only_fills_gaps:
  "canon sha (c\<lparr>ec_redacted := r\<rparr>) = canon sha (c\<lparr>ec_redacted := r'\<rparr>) \<longleftrightarrow>
     list_all (\<lambda>(f, v). v \<noteq> None \<or> retained r f = retained r' f) (core_fields c)"
proof -
  have "digest sha (c\<lparr>ec_redacted := r\<rparr>) f v = digest sha (c\<lparr>ec_redacted := r'\<rparr>) f v
    \<longleftrightarrow> v \<noteq> None \<or> retained r f = retained r' f" for f v
    by (cases v) simp_all
  then show ?thesis
    by (simp add: canon_eq_iff core_fields_def)
qed

theorem redacted_only_fills_gaps_witness:
  "canon prefix_sha (demo_core\<lparr>ec_redacted := Some [(''role'', ZERO)]\<rparr>)
     = canon prefix_sha (demo_core\<lparr>ec_redacted := None\<rparr>)"
  by (simp add: redacted_only_fills_gaps) (simp add: demo_core_def core_fields_def retained_def)

end
