(* ===== verification/Event.thy ===== *)
theory Event
  imports Canon
begin

text \<open>
  Events and envelopes as they travel, \<open>crates/tideline-proto/src/event.rs\<close>. The metadata is
  the text the client sent (\<open>RawValue\<close>), never a parsed value.
\<close>

record run_event =
  ev_seq :: u64
  ev_ts :: u64
  ev_kind :: event_kind
  ev_role :: "string option"
  ev_name :: "string option"
  ev_content :: "string option"
  ev_metadata :: "string option"
  ev_redacted :: "(string \<times> hash) list option"
  ev_prev_hash :: hash
  ev_hash :: hash

definition metadata_raw :: "run_event \<Rightarrow> string option" where
  "metadata_raw e = ev_metadata e"

definition core :: "run_event \<Rightarrow> event_core" where
  "core e = \<lparr>ec_seq = ev_seq e, ec_ts = ev_ts e, ec_kind = ev_kind e, ec_role = ev_role e,
     ec_name = ev_name e, ec_content = ev_content e, ec_metadata_raw = metadata_raw e,
     ec_redacted = ev_redacted e\<rparr>"

record agent =
  ag_name :: string
  ag_version :: string

definition agent_new :: "string \<Rightarrow> string \<Rightarrow> agent" where
  "agent_new n v = \<lparr>ag_name = n, ag_version = v\<rparr>"

record run_envelope =
  env_run_id :: string
  env_started_ts :: u64
  env_ended_ts :: "u64 option"
  env_agent :: agent
  env_subject_ref :: "string option"
  env_labels :: "(string \<times> string) list"
  env_head_seq :: u64
  env_head_hash :: hash

definition default_event :: run_event where
  "default_event = \<lparr>ev_seq = 0, ev_ts = 0, ev_kind = Message, ev_role = None, ev_name = None,
     ev_content = None, ev_metadata = None, ev_redacted = None, ev_prev_hash = ZERO,
     ev_hash = ZERO\<rparr>"

lemma core_simps [simp]:
  "ec_seq (core e) = ev_seq e" "ec_ts (core e) = ev_ts e" "ec_kind (core e) = ev_kind e"
  "ec_role (core e) = ev_role e" "ec_name (core e) = ev_name e"
  "ec_content (core e) = ev_content e" "ec_metadata_raw (core e) = ev_metadata e"
  "ec_redacted (core e) = ev_redacted e"
  by (simp_all add: core_def metadata_raw_def)

text \<open>The core and the two hashes are the whole event.\<close>

lemma run_event_eqI:
  "core a = core b \<Longrightarrow> ev_prev_hash a = ev_prev_hash b \<Longrightarrow> ev_hash a = ev_hash b \<Longrightarrow> a = b"
  by (cases a; cases b) (simp add: core_def metadata_raw_def)

end
