(* ===== verification/Chain.thy ===== *)
theory Chain
  imports Event
begin

text \<open>
  Chain verification, \<open>crates/tideline-proto/src/chain.rs\<close>. \<open>verify_chain\<close> is the loop of the
  source; \<open>linked\<close> is the specification, rules 3 to 5 of \<open>spec/tlr-1.md\<close> section 5, and the
  lemmas show that the loop decides it, names the first event that breaks it, cannot see a
  missing tail, and that two sound records with the same head are the same record.
\<close>

record chain_ok =
  ok_len :: nat
  ok_head_seq :: u64
  ok_head_hash :: hash
  ok_sealed :: bool

datatype chain_error =
  Empty
| NotRunStarted
| SeqGap (gap_expected: u64) (gap_found: u64)
| PrevMismatch (pm_seq: u64) (pm_expected: hash) (pm_found: hash)
| HashMismatch (hm_seq: u64) (hm_expected: hash) (hm_computed: hash)

text \<open>The loop from index \<open>i\<close> with the digest \<open>prev\<close> carried over; it ends with the last digest.\<close>

fun verify_from :: "sha \<Rightarrow> nat \<Rightarrow> hash \<Rightarrow> run_event list \<Rightarrow> chain_error + hash" where
  "verify_from sha i prev [] = Inr prev"
| "verify_from sha i prev (e # es) =
     (let expected_seq = of_nat i
      in if ev_seq e \<noteq> expected_seq then Inl (SeqGap expected_seq (ev_seq e))
         else if ev_prev_hash e \<noteq> prev then Inl (PrevMismatch (ev_seq e) prev (ev_prev_hash e))
         else let computed = event_hash sha (core e) prev
              in if computed \<noteq> ev_hash e
                 then Inl (HashMismatch (ev_seq e) (ev_hash e) computed)
                 else verify_from sha (Suc i) computed es)"

definition verify_chain :: "sha \<Rightarrow> run_event list \<Rightarrow> chain_error + chain_ok" where
  "verify_chain sha events =
     (case events of
        [] \<Rightarrow> Inl Empty
      | first # _ \<Rightarrow>
          if ev_kind first \<noteq> RunStarted then Inl NotRunStarted
          else (case verify_from sha 0 ZERO events of
                  Inl e \<Rightarrow> Inl e
                | Inr _ \<Rightarrow>
                    Inr \<lparr>ok_len = length events, ok_head_seq = ev_seq (last events),
                         ok_head_hash = ev_hash (last events),
                         ok_sealed = (ev_kind (last events) = RunFinished)\<rparr>))"

section \<open>The specification of a sound chain\<close>

text \<open>The digest an event at index \<open>i\<close> must name as its predecessor's.\<close>

definition prev_of :: "run_event list \<Rightarrow> nat \<Rightarrow> hash" where
  "prev_of evs i = (if i = 0 then ZERO else ev_hash (evs ! (i - 1)))"

definition event_sound :: "sha \<Rightarrow> nat \<Rightarrow> hash \<Rightarrow> run_event \<Rightarrow> bool" where
  "event_sound sha i prev e \<longleftrightarrow>
     ev_seq e = of_nat i \<and> ev_prev_hash e = prev \<and> ev_hash e = event_hash sha (core e) prev"

definition linked :: "sha \<Rightarrow> run_event list \<Rightarrow> bool" where
  "linked sha evs \<longleftrightarrow> (\<forall>i < length evs. event_sound sha i (prev_of evs i) (evs ! i))"

text \<open>The error an unsound event is reported with, in the order the loop checks.\<close>

definition fault_of :: "sha \<Rightarrow> nat \<Rightarrow> hash \<Rightarrow> run_event \<Rightarrow> chain_error" where
  "fault_of sha i prev e =
     (if ev_seq e \<noteq> of_nat i then SeqGap (of_nat i) (ev_seq e)
      else if ev_prev_hash e \<noteq> prev then PrevMismatch (of_nat i) prev (ev_prev_hash e)
      else HashMismatch (of_nat i) (ev_hash e) (event_hash sha (core e) prev))"

definition head_of_list :: "run_event list \<Rightarrow> hash" where
  "head_of_list evs = (if evs = [] then ZERO else ev_hash (last evs))"

section \<open>The loop decides the specification\<close>

lemma verify_from_Cons:
  "verify_from sha i prev (e # es) =
     (if event_sound sha i prev e then verify_from sha (Suc i) (ev_hash e) es
      else Inl (fault_of sha i prev e))"
  by (auto simp: event_sound_def fault_of_def Let_def)

lemma verify_from_append:
  "verify_from sha i prev (xs @ ys) =
     (case verify_from sha i prev xs of
        Inl e \<Rightarrow> Inl e
      | Inr h \<Rightarrow> verify_from sha (i + length xs) h ys)"
  by (induction xs arbitrary: i prev)
    (auto simp: verify_from_Cons simp del: verify_from.simps(2) split: sum.split)

lemma linked_Nil [simp]: "linked sha []"
  by (simp add: linked_def)

lemma prev_of_snoc: "i \<le> length evs \<Longrightarrow> prev_of (evs @ es) i = prev_of evs i \<or> i = length evs"
  by (auto simp: prev_of_def nth_append)

lemma prev_of_append: "i < length evs \<Longrightarrow> prev_of (evs @ es) i = prev_of evs i"
  by (auto simp: prev_of_def nth_append)

lemma prev_of_length: "prev_of (evs @ es) (length evs) = head_of_list evs"
  by (auto simp: prev_of_def head_of_list_def nth_append last_conv_nth)

lemma linked_snoc [simp]:
  "linked sha (evs @ [e]) \<longleftrightarrow>
     linked sha evs \<and> event_sound sha (length evs) (head_of_list evs) e"
  unfolding linked_def
  by (auto simp: nth_append prev_of_append prev_of_length less_Suc_eq)

lemma linked_take: "linked sha evs \<Longrightarrow> linked sha (take n evs)"
  by (auto simp: linked_def prev_of_def)

lemma head_of_list_snoc [simp]: "head_of_list (evs @ [e]) = ev_hash e"
  by (simp add: head_of_list_def)

lemma head_of_list_Nil [simp]: "head_of_list [] = ZERO"
  by (simp add: head_of_list_def)

lemma verify_from_Inr_iff:
  "verify_from sha 0 ZERO evs = Inr h \<longleftrightarrow> linked sha evs \<and> h = head_of_list evs"
proof (induction evs arbitrary: h rule: rev_induct)
  case (snoc e evs)
  show ?case
  proof (cases "verify_from sha 0 ZERO evs")
    case (Inl err)
    with snoc.IH show ?thesis by (auto simp: verify_from_append)
  next
    case (Inr h')
    then have "linked sha evs" "h' = head_of_list evs"
      using snoc.IH[of h'] by simp_all
    with Inr show ?thesis
      by (auto simp: verify_from_append verify_from_Cons simp del: verify_from.simps(2))
  qed
qed auto

text \<open>The loop's error is that of the first unsound event.\<close>

lemma verify_from_Inl_iff:
  "verify_from sha 0 ZERO evs = Inl err \<longleftrightarrow>
     (\<exists>pre e post. evs = pre @ e # post \<and> linked sha pre \<and>
        \<not> event_sound sha (length pre) (head_of_list pre) e \<and>
        err = fault_of sha (length pre) (head_of_list pre) e)"
proof
  assume "verify_from sha 0 ZERO evs = Inl err"
  then show "\<exists>pre e post. evs = pre @ e # post \<and> linked sha pre \<and>
    \<not> event_sound sha (length pre) (head_of_list pre) e \<and>
    err = fault_of sha (length pre) (head_of_list pre) e"
  proof (induction evs rule: rev_induct)
    case (snoc e evs)
    show ?case
    proof (cases "verify_from sha 0 ZERO evs")
      case (Inl err')
      with snoc have "verify_from sha 0 ZERO evs = Inl err"
        by (simp add: verify_from_append)
      from snoc.IH[OF this] show ?thesis
        by (metis append_Cons append_assoc)
    next
      case (Inr h)
      then have "linked sha evs" "h = head_of_list evs"
        by (simp_all add: verify_from_Inr_iff)
      with Inr snoc.prems show ?thesis
        by (intro exI[of _ evs] exI[of _ e] exI[of _ "[]"])
          (auto simp: verify_from_append verify_from_Cons simp del: verify_from.simps(2)
            split: if_splits)
    qed
  qed simp
next
  assume "\<exists>pre e post. evs = pre @ e # post \<and> linked sha pre \<and>
    \<not> event_sound sha (length pre) (head_of_list pre) e \<and>
    err = fault_of sha (length pre) (head_of_list pre) e"
  then obtain pre e post where evs: "evs = pre @ e # post" and "linked sha pre"
    and bad: "\<not> event_sound sha (length pre) (head_of_list pre) e"
      "err = fault_of sha (length pre) (head_of_list pre) e"
    by blast
  then have "verify_from sha 0 ZERO pre = Inr (head_of_list pre)"
    by (simp add: verify_from_Inr_iff)
  with bad show "verify_from sha 0 ZERO evs = Inl err"
    by (simp add: evs verify_from_append verify_from_Cons del: verify_from.simps(2))
qed


section \<open>What verification establishes\<close>

definition chain_summary :: "run_event list \<Rightarrow> chain_ok" where
  "chain_summary evs =
     \<lparr>ok_len = length evs, ok_head_seq = ev_seq (last evs), ok_head_hash = ev_hash (last evs),
      ok_sealed = (ev_kind (last evs) = RunFinished)\<rparr>"

lemma verify_chain_Inr_iff:
  "verify_chain sha evs = Inr ok \<longleftrightarrow>
     evs \<noteq> [] \<and> ev_kind (hd evs) = RunStarted \<and> linked sha evs \<and> ok = chain_summary evs"
proof (cases evs)
  case (Cons e es)
  then have "verify_chain sha evs = Inr ok \<longleftrightarrow>
    ev_kind e = RunStarted \<and> (\<exists>h. verify_from sha 0 ZERO evs = Inr h) \<and> ok = chain_summary evs"
    by (auto simp: verify_chain_def chain_summary_def split: sum.splits simp del: verify_from.simps)
  with Cons show ?thesis
    by (simp add: verify_from_Inr_iff del: verify_from.simps)
qed (simp add: verify_chain_def)


text \<open>
  C11: \<open>verify_chain\<close> accepts exactly the sound records. It succeeds if and only if the record
  is not empty, opens with \<open>run_started\<close>, and every event has its index as sequence number,
  names its predecessor's digest (zero at the start) and carries the digest recomputed from
  its own canonical bytes; what it reports is the length, the last event's sequence number
  and digest, and whether that event is \<open>run_finished\<close>.
\<close>

theorem verify_chain_spec:
  "verify_chain sha evs = Inr ok \<longleftrightarrow>
     evs \<noteq> [] \<and> ev_kind (hd evs) = RunStarted \<and> linked sha evs \<and> ok = chain_summary evs"
  by (rule verify_chain_Inr_iff)

text \<open>
  a rejected record is rejected for its first fault, which is named. \<open>verify_chain\<close>
  returns an error if and only if the record is empty, or does not open with \<open>run_started\<close>,
  or splits into a sound prefix, one event that does not follow it, and a rest that is never
  looked at; the error is then that event's, with the sequence number where the record was
  altered: a gap if its number is not its index, else a rewritten link if it names another
  predecessor, else altered contents.
\<close>

theorem verify_chain_names_fault:
  "verify_chain sha evs = Inl err \<longleftrightarrow>
     (evs = [] \<and> err = Empty) \<or>
     (evs \<noteq> [] \<and> ev_kind (hd evs) \<noteq> RunStarted \<and> err = NotRunStarted) \<or>
     (\<exists>pre e post. evs = pre @ e # post \<and> ev_kind (hd evs) = RunStarted \<and> linked sha pre \<and>
        \<not> event_sound sha (length pre) (head_of_list pre) e \<and>
        err = fault_of sha (length pre) (head_of_list pre) e)"
proof (cases evs)
  case (Cons e es)
  have "verify_chain sha evs = Inl err \<longleftrightarrow>
    (ev_kind e \<noteq> RunStarted \<and> err = NotRunStarted) \<or>
    (ev_kind e = RunStarted \<and> verify_from sha 0 ZERO evs = Inl err)"
    by (auto simp: Cons verify_chain_def split: sum.splits simp del: verify_from.simps)
  then show ?thesis
    unfolding verify_from_Inl_iff by (auto simp: Cons)
qed (auto simp: verify_chain_def)

section \<open>Records to evaluate\<close>

text \<open>A record of three events, hashed with the example digest.\<close>

definition with_hash :: "sha \<Rightarrow> run_event \<Rightarrow> run_event" where
  "with_hash sha e = e\<lparr>ev_hash := event_hash sha (core e) (ev_prev_hash e)\<rparr>"

definition demo_e0 :: run_event where
  "demo_e0 = with_hash prefix_sha (default_event\<lparr>ev_kind := RunStarted, ev_ts := 7,
     ev_metadata := Some ''{}''\<rparr>)"

definition demo_e1 :: run_event where
  "demo_e1 = with_hash prefix_sha (default_event\<lparr>ev_seq := 1, ev_ts := 8,
     ev_content := Some ''score=690'', ev_prev_hash := ev_hash demo_e0\<rparr>)"

definition demo_e2 :: run_event where
  "demo_e2 = with_hash prefix_sha (default_event\<lparr>ev_seq := 2, ev_ts := 9, ev_kind := RunFinished,
     ev_prev_hash := ev_hash demo_e1\<rparr>)"

definition demo_chain :: "run_event list" where
  "demo_chain = [demo_e0, demo_e1, demo_e2]"

lemma with_hash_simps [simp]:
  "core (with_hash sha e) = core e" "ev_seq (with_hash sha e) = ev_seq e"
  "ev_kind (with_hash sha e) = ev_kind e" "ev_prev_hash (with_hash sha e) = ev_prev_hash e"
  "ev_hash (with_hash sha e) = event_hash sha (core e) (ev_prev_hash e)"
  "ev_redacted (with_hash sha e) = ev_redacted e" "ev_content (with_hash sha e) = ev_content e"
  by (simp_all add: with_hash_def core_def metadata_raw_def)

lemma linked_with_hash:
  "linked sha (evs @ [with_hash sha e]) \<longleftrightarrow>
     linked sha evs \<and> ev_seq e = of_nat (length evs) \<and> ev_prev_hash e = head_of_list evs"
  by (auto simp: event_sound_def)

lemma demo_chain_linked: "linked prefix_sha demo_chain"
proof -
  have "linked prefix_sha [demo_e0]"
    using linked_with_hash[of prefix_sha "[]"] by (simp add: demo_e0_def default_event_def)
  then have "linked prefix_sha [demo_e0, demo_e1]"
    using linked_with_hash[of prefix_sha "[demo_e0]"]
    by (simp add: demo_e1_def head_of_list_def default_event_def)
  then show ?thesis
    using linked_with_hash[of prefix_sha "[demo_e0, demo_e1]"]
    by (simp add: demo_e2_def demo_chain_def head_of_list_def default_event_def)
qed

lemma demo_chain_verifies: "verify_chain prefix_sha demo_chain = Inr (chain_summary demo_chain)"
  using demo_chain_linked by (simp add: verify_chain_Inr_iff) (simp add: demo_chain_def demo_e0_def)


section \<open>Tampering\<close>

lemma event_soundD:
  assumes "event_sound sha i prev e"
  shows "ev_seq e = of_nat i" "ev_prev_hash e = prev" "ev_hash e = event_hash sha (core e) prev"
  using assms by (simp_all add: event_sound_def)

lemma linked_nth: "linked sha evs \<Longrightarrow> i < length evs \<Longrightarrow> event_sound sha i (prev_of evs i) (evs ! i)"
  by (simp add: linked_def)

lemma head_of_list_take: "i \<le> length evs \<Longrightarrow> head_of_list (take i evs) = prev_of evs i"
  by (auto simp: head_of_list_def prev_of_def last_conv_nth min_def)

lemma linked_prefix_then_fault:
  assumes "linked sha pre" and "ev_kind (hd (pre @ e # post)) = RunStarted"
    and "\<not> event_sound sha (length pre) (head_of_list pre) e"
  shows "verify_chain sha (pre @ e # post) = Inl (fault_of sha (length pre) (head_of_list pre) e)"
proof -
  have "verify_from sha 0 ZERO (pre @ e # post)
      = Inl (fault_of sha (length pre) (head_of_list pre) e)"
    unfolding verify_from_Inl_iff using assms by blast
  with assms(2) show ?thesis
    by (cases pre) (simp_all add: verify_chain_def del: verify_from.simps)
qed

text \<open>
  a missing tail is invisible to the chain. Every non-empty prefix of a sound record is
  itself a sound record, reported with its own last event as head. This is the limit the
  source documents and signed checkpoints exist to close.
\<close>

theorem truncation_verifies:
  assumes "verify_chain sha evs = Inr ok" and "0 < n" and "n \<le> length evs"
  shows "verify_chain sha (take n evs) = Inr (chain_summary (take n evs))"
  using assms by (auto simp: verify_chain_Inr_iff linked_take)

theorem truncation_verifies_witness:
  "verify_chain prefix_sha (take 2 demo_chain) = Inr (chain_summary (take 2 demo_chain))"
  by (rule truncation_verifies[OF demo_chain_verifies]) (simp_all add: demo_chain_def)

text \<open>
  a deleted event is detected where it was. Removing any event but the first and the last
  from a sound record makes verification fail with a sequence gap that names the index of the
  removed event and the number found in its place.
\<close>

theorem deletion_detected:
  assumes "verify_chain sha evs = Inr ok" and "length evs < 2 ^ 64"
    and "0 < i" and "Suc i < length evs"
  shows "verify_chain sha (take i evs @ drop (Suc i) evs)
    = Inl (SeqGap (of_nat i) (of_nat (Suc i)))"
proof -
  from assms(1) have "linked sha evs" and first: "ev_kind (hd evs) = RunStarted"
    by (simp_all add: verify_chain_Inr_iff)
  let ?pre = "take i evs" and ?e = "evs ! Suc i"
  have split: "drop (Suc i) evs = ?e # drop (Suc (Suc i)) evs"
    using assms(4) by (simp add: Cons_nth_drop_Suc)
  have seq: "ev_seq ?e = of_nat (Suc i)"
    using linked_nth[OF \<open>linked sha evs\<close> assms(4)] by (rule event_soundD)
  have ne: "(of_nat (Suc i) :: u64) \<noteq> of_nat i"
    using assms(2,4) of_nat_u64_inject[of "Suc i" i] by (simp del: of_nat_Suc)
  have len: "length ?pre = i" using assms(4) by simp
  have "\<not> event_sound sha (length ?pre) (head_of_list ?pre) ?e"
    using seq ne unfolding len by (simp add: event_sound_def del: of_nat_Suc)
  moreover have "fault_of sha (length ?pre) (head_of_list ?pre) ?e = SeqGap (of_nat i) (of_nat (Suc i))"
    using seq ne unfolding len by (simp add: fault_of_def del: of_nat_Suc)
  moreover have "hd (?pre @ ys) = hd evs" for ys
    using assms(3,4) by (cases evs; cases i) simp_all
  ultimately show ?thesis
    using linked_prefix_then_fault[of sha ?pre ?e "drop (Suc (Suc i)) evs"]
      linked_take[OF \<open>linked sha evs\<close>] first
    by (simp add: split)
qed

theorem deletion_detected_witness:
  "verify_chain prefix_sha [demo_e0, demo_e2] = Inl (SeqGap 1 2)"
  using deletion_detected[OF demo_chain_verifies, of 1] by (simp add: demo_chain_def)

text \<open>
  an edited event is detected and named. Replace one event of a sound record by another
  that keeps its sequence number, its link and its recorded digest but differs in any field
  the chain commits to. Verification then reports altered contents at exactly that sequence
  number, unless the digest collides on the values of these two events.
\<close>

theorem edit_detected:
  assumes "verify_chain sha evs = Inr ok" and "i < length evs"
    and "ev_seq e = ev_seq (evs ! i)" and "ev_prev_hash e = ev_prev_hash (evs ! i)"
    and "ev_hash e = ev_hash (evs ! i)" and "ev_kind (hd (evs[i := e])) = RunStarted"
    and "ev_redacted e = None" and "ev_redacted (evs ! i) = None"
    and "core e \<noteq> core (evs ! i)"
    and "collision_free sha (set (core_inputs (core e)) \<union> set (core_inputs (core (evs ! i)))
      \<union> {canon sha (core e) @ hash_bytes (ev_prev_hash e),
         canon sha (core (evs ! i)) @ hash_bytes (ev_prev_hash e)})"
  shows "verify_chain sha (evs[i := e])
    = Inl (HashMismatch (of_nat i) (ev_hash e) (event_hash sha (core e) (ev_prev_hash e)))"
proof -
  from assms(1) have "linked sha evs" and first: "ev_kind (hd evs) = RunStarted"
    by (simp_all add: verify_chain_Inr_iff)
  note sound = event_soundD[OF linked_nth[OF \<open>linked sha evs\<close> assms(2)]]
  have "canon sha (core e) \<noteq> canon sha (core (evs ! i))"
    using canon_inject[of sha "core e" "core (evs ! i)"] assms(7-9)
      collision_free_mono[OF assms(10)] by auto
  then have differ: "event_hash sha (core e) (ev_prev_hash e) \<noteq> ev_hash e"
    using collision_freeD(1)[OF assms(10)] sound assms(4,5)
    by (auto simp: event_hash_def)
  have list: "evs[i := e] = take i evs @ e # drop (Suc i) evs"
    using assms(2) by (rule upd_conv_take_nth_drop)
  have prev: "ev_prev_hash e = head_of_list (take i evs)"
    using sound assms(2,4) by (simp add: head_of_list_take)
  have len: "length (take i evs) = i" using assms(2) by simp
  have bad: "\<not> event_sound sha (length (take i evs)) (head_of_list (take i evs)) e"
    "fault_of sha (length (take i evs)) (head_of_list (take i evs)) e
      = HashMismatch (of_nat i) (ev_hash e) (event_hash sha (core e) (ev_prev_hash e))"
    using differ sound assms(3) unfolding len
    by (auto simp: event_sound_def fault_of_def simp flip: prev)
  have "verify_chain sha (evs[i := e]) = Inl (fault_of sha (length (take i evs))
      (head_of_list (take i evs)) e)"
    unfolding list
    by (rule linked_prefix_then_fault)
      (use bad(1) assms(6) linked_take[OF \<open>linked sha evs\<close>] list in simp_all)
  with bad(2) show ?thesis by simp
qed


text \<open>The example edits the time of the second event: 8 becomes 6.\<close>

lemma demo_edit_collision_free:
  "collision_free prefix_sha (set (core_inputs (core (demo_e1\<lparr>ev_ts := 6\<rparr>)))
     \<union> set (core_inputs (core demo_e1))
     \<union> {canon prefix_sha (core (demo_e1\<lparr>ev_ts := 6\<rparr>)) @ hash_bytes x,
        canon prefix_sha (core demo_e1) @ hash_bytes x})"
  by (simp add: collision_free_def core_inputs_def core_fields_def core_def metadata_raw_def
      demo_e1_def with_hash_def default_event_def canon_layout to_be_bytes_def DOMAIN_def
      inj_on_def eval_simps)

theorem edit_detected_witness:
  "verify_chain prefix_sha [demo_e0, demo_e1\<lparr>ev_ts := 6\<rparr>, demo_e2]
     = Inl (HashMismatch 1 (ev_hash demo_e1)
         (event_hash prefix_sha (core (demo_e1\<lparr>ev_ts := 6\<rparr>)) (ev_hash demo_e0)))"
proof -
  have "core (demo_e1\<lparr>ev_ts := 6\<rparr>) \<noteq> core demo_e1" "ev_prev_hash demo_e1 = ev_hash demo_e0"
    "ev_redacted demo_e1 = None" "ev_kind demo_e0 = RunStarted"
    by (simp_all add: core_def metadata_raw_def demo_e1_def demo_e0_def with_hash_def
        default_event_def)
  then show ?thesis
    using edit_detected[OF demo_chain_verifies, of 1 "demo_e1\<lparr>ev_ts := 6\<rparr>"]
      demo_edit_collision_free
    by (simp add: demo_chain_def)
qed

section \<open>Redaction\<close>

text \<open>
  The specification of an erasure: every named field that is present loses its value and
  leaves its digest in the map; a field that is absent keeps whatever the map says of it.
\<close>

definition field_of :: "run_event \<Rightarrow> string \<Rightarrow> string option" where
  "field_of e f = (case map_of (core_fields (core e)) f of None \<Rightarrow> None | Some v \<Rightarrow> v)"

definition kept_digests :: "sha \<Rightarrow> string list \<Rightarrow> run_event \<Rightarrow> (string \<times> hash) list" where
  "kept_digests sha fs e =
     foldl (\<lambda>m f. case field_of e f of None \<Rightarrow> m | Some v \<Rightarrow> bt_insert f (sha (as_bytes v)) m)
       (case ev_redacted e of None \<Rightarrow> [] | Some m \<Rightarrow> m) fs"

definition erase_event :: "sha \<Rightarrow> string list \<Rightarrow> run_event \<Rightarrow> run_event" where
  "erase_event sha fs e =
     e\<lparr>ev_role := (if ''role'' \<in> set fs then None else ev_role e),
       ev_name := (if ''name'' \<in> set fs then None else ev_name e),
       ev_content := (if ''content'' \<in> set fs then None else ev_content e),
       ev_metadata := (if ''metadata'' \<in> set fs then None else ev_metadata e),
       ev_redacted := Some (kept_digests sha fs e)\<rparr>"

lemma map_of_kept:
  "map_of (foldl (\<lambda>m f. case field_of e f of None \<Rightarrow> m | Some v \<Rightarrow> bt_insert f (sha (as_bytes v)) m) m fs) f
     = (case field_of e f of
          Some v \<Rightarrow> if f \<in> set fs then Some (sha (as_bytes v)) else map_of m f
        | None \<Rightarrow> map_of m f)"
  by (induction fs arbitrary: m) (auto split: option.splits)

lemma retained_kept:
  "retained (Some (kept_digests sha fs e)) f
     = (case field_of e f of
          Some v \<Rightarrow> if f \<in> set fs then sha (as_bytes v) else retained (ev_redacted e) f
        | None \<Rightarrow> retained (ev_redacted e) f)"
  unfolding kept_digests_def retained_def option.case map_of_kept
  by (auto split: option.splits)

lemma field_of_simps [simp]:
  "field_of e ''role'' = ev_role e" "field_of e ''name'' = ev_name e"
  "field_of e ''content'' = ev_content e" "field_of e ''metadata'' = ev_metadata e"
  by (simp_all add: field_of_def core_fields_def split: option.split)

lemma digest_core: "digest sha (core e) f v = (case v of None \<Rightarrow> retained (ev_redacted e) f | Some s \<Rightarrow> sha (as_bytes s))"
  by (cases v) simp_all

lemma erase_event_simps [simp]:
  "ev_seq (erase_event sha fs e) = ev_seq e" "ev_ts (erase_event sha fs e) = ev_ts e"
  "ev_kind (erase_event sha fs e) = ev_kind e" "ev_hash (erase_event sha fs e) = ev_hash e"
  "ev_prev_hash (erase_event sha fs e) = ev_prev_hash e"
  by (simp_all add: erase_event_def)

lemma canon_erase [simp]: "canon sha (core (erase_event sha fs e)) = canon sha (core e)"
  by (auto simp: canon_eq_iff digest_core erase_event_def retained_kept split: option.splits)

lemma event_hash_erase [simp]:
  "event_hash sha (core (erase_event sha fs e)) prev = event_hash sha (core e) prev"
  by (simp add: event_hash_def)

lemma event_sound_erase [simp]:
  "event_sound sha i prev (erase_event sha fs e) \<longleftrightarrow> event_sound sha i prev e"
  by (simp add: event_sound_def)

lemma verify_from_erase:
  "verify_from sha i prev (evs[k := erase_event sha fs (evs ! k)]) = verify_from sha i prev evs"
proof (induction evs arbitrary: i prev k)
  case (Cons e es)
  then show ?case by (cases k) (simp_all add: Let_def)
qed simp

lemma verify_chain_cases:
  "evs \<noteq> [] \<Longrightarrow> verify_chain sha evs =
     (if ev_kind (hd evs) \<noteq> RunStarted then Inl NotRunStarted
      else case verify_from sha 0 ZERO evs of Inl e \<Rightarrow> Inl e | Inr _ \<Rightarrow> Inr (chain_summary evs))"
  by (cases evs) (auto simp: verify_chain_def chain_summary_def split: sum.split
      simp del: verify_from.simps)

lemma hd_list_update: "evs \<noteq> [] \<Longrightarrow> hd (evs[k := e]) = (if k = 0 then e else hd evs)"
  by (cases evs; cases k) simp_all

lemma nth_update_same: "f x = f (evs ! k) \<Longrightarrow> f (evs[k := x] ! j) = f (evs ! j)"
  by (cases "k = j"; cases "k < length evs") (simp_all add: list_update_beyond)

lemma verify_chain_erase:
  "verify_chain sha (evs[k := erase_event sha fs (evs ! k)]) = verify_chain sha evs"
proof (cases "evs = []")
  case False
  have "ev_kind (hd (evs[k := erase_event sha fs (evs ! k)])) = ev_kind (hd evs)"
    using False by (simp add: hd_list_update) (simp add: hd_conv_nth)
  moreover have "chain_summary (evs[k := erase_event sha fs (evs ! k)]) = chain_summary evs"
    using False by (simp add: chain_summary_def last_conv_nth nth_update_same[of ev_seq]
        nth_update_same[of ev_hash] nth_update_same[of ev_kind])
  ultimately show ?thesis
    using False by (simp add: verify_chain_cases verify_from_erase split: sum.split)
qed simp

text \<open>
  erasure does not destroy evidence. Erasing any set of fields of any event of any
  record, keeping their digests, changes nothing verification says: the same verdict, the
  same head, and for a broken record the same error at the same place.
\<close>

theorem erasure_keeps_verdict:
  "verify_chain sha (evs[k := erase_event sha fs (evs ! k)]) = verify_chain sha evs"
  by (rule verify_chain_erase)

section \<open>One head, one record\<close>

text \<open>The messages whose digests are a record's event hashes.\<close>

definition link_inputs :: "sha \<Rightarrow> run_event list \<Rightarrow> u8 list list" where
  "link_inputs sha evs = map (\<lambda>e. canon sha (core e) @ hash_bytes (ev_prev_hash e)) evs"

definition record_inputs :: "sha \<Rightarrow> run_event list \<Rightarrow> u8 list list" where
  "record_inputs sha evs = link_inputs sha evs @ concat (map (\<lambda>e. core_inputs (core e)) evs)"

lemma link_inputs_nth: "i < length evs \<Longrightarrow>
    canon sha (core (evs ! i)) @ hash_bytes (ev_prev_hash (evs ! i)) \<in> set (link_inputs sha evs)"
  by (auto simp: link_inputs_def)

lemma core_inputs_nth:
  "i < length evs \<Longrightarrow> set (core_inputs (core (evs ! i))) \<subseteq> set (record_inputs sha evs)"
  by (auto simp: record_inputs_def)

lemma hash_eq_canon_eq:
  assumes "event_sound sha i p a" and "event_sound sha j q b" and "collision_free sha X"
    and "canon sha (core a) @ hash_bytes (ev_prev_hash a) \<in> X"
    and "canon sha (core b) @ hash_bytes (ev_prev_hash b) \<in> X"
    and "ev_hash a = ev_hash b"
  shows "canon sha (core a) = canon sha (core b) \<and> p = q"
proof -
  from assms have "canon sha (core a) @ hash_bytes p = canon sha (core b) @ hash_bytes q"
    by (auto simp: event_sound_def event_hash_def dest: collision_freeD(1))
  then show ?thesis by simp
qed

lemma linked_agree:
  assumes "linked sha xs" and "linked sha ys"
    and cf: "collision_free sha (set (link_inputs sha xs) \<union> set (link_inputs sha ys))"
    and "i < length xs" and "i < length ys" and "ev_hash (xs ! i) = ev_hash (ys ! i)"
    and "k \<le> i"
  shows "canon sha (core (xs ! k)) = canon sha (core (ys ! k)) \<and> ev_hash (xs ! k) = ev_hash (ys ! k)
    \<and> ev_prev_hash (xs ! k) = ev_prev_hash (ys ! k)"
  using assms(4-7)
proof (induction i)
  case 0
  note eq = hash_eq_canon_eq[OF linked_nth[OF assms(1) 0(1)] linked_nth[OF assms(2) 0(2)] cf]
  with 0 show ?case
    using link_inputs_nth[OF 0(1)] link_inputs_nth[OF 0(2)]
      event_soundD(2)[OF linked_nth[OF assms(1) 0(1)]] event_soundD(2)[OF linked_nth[OF assms(2) 0(2)]]
    by auto
next
  case (Suc i)
  note sx = linked_nth[OF assms(1) Suc.prems(1)] and sy = linked_nth[OF assms(2) Suc.prems(2)]
  have eq: "canon sha (core (xs ! Suc i)) = canon sha (core (ys ! Suc i))
      \<and> prev_of xs (Suc i) = prev_of ys (Suc i)"
    using hash_eq_canon_eq[OF sx sy cf] link_inputs_nth[OF Suc.prems(1)]
      link_inputs_nth[OF Suc.prems(2)] Suc.prems(3) by simp
  show ?case
  proof (cases "k = Suc i")
    case True
    with eq Suc.prems(3) event_soundD(2)[OF sx] event_soundD(2)[OF sy] show ?thesis by simp
  next
    case False
    with eq Suc show ?thesis by (simp add: prev_of_def)
  qed
qed

text \<open>The digest fixes the index, so equal heads are at equal indexes.\<close>

lemma linked_same_index:
  assumes "linked sha xs" and "linked sha ys"
    and "collision_free sha (set (link_inputs sha xs) \<union> set (link_inputs sha ys))"
    and "i < length xs" and "j < length ys" and "i < 2 ^ 64" and "j < 2 ^ 64"
    and "ev_hash (xs ! i) = ev_hash (ys ! j)"
  shows "i = j"
proof -
  note sx = linked_nth[OF assms(1,4)] and sy = linked_nth[OF assms(2,5)]
  have "canon sha (core (xs ! i)) = canon sha (core (ys ! j))"
    using hash_eq_canon_eq[OF sx sy assms(3)] link_inputs_nth[OF assms(4)]
      link_inputs_nth[OF assms(5)] assms(8) by simp
  then have "ev_seq (xs ! i) = ev_seq (ys ! j)" by (simp add: canon_eq_iff)
  with event_soundD(1)[OF sx] event_soundD(1)[OF sy] assms(6,7) show ?thesis by simp
qed

lemma same_head_agree:
  assumes "linked sha xs" and "linked sha ys" and "xs \<noteq> []" and "ys \<noteq> []"
    and "collision_free sha (set (link_inputs sha xs) \<union> set (link_inputs sha ys))"
    and "length xs < 2 ^ 64" and "length ys < 2 ^ 64"
    and "ev_hash (last xs) = ev_hash (last ys)"
  shows "length xs = length ys"
    and "k < length xs \<Longrightarrow> canon sha (core (xs ! k)) = canon sha (core (ys ! k))
      \<and> ev_hash (xs ! k) = ev_hash (ys ! k) \<and> ev_prev_hash (xs ! k) = ev_prev_hash (ys ! k)"
proof -
  have "length xs - 1 = length ys - 1"
    using linked_same_index[OF assms(1,2,5), of "length xs - 1" "length ys - 1"] assms
    by (simp add: last_conv_nth)
  with assms(3,4) show len: "length xs = length ys" by (cases xs; cases ys) simp_all
  then show "canon sha (core (xs ! k)) = canon sha (core (ys ! k))
      \<and> ev_hash (xs ! k) = ev_hash (ys ! k) \<and> ev_prev_hash (xs ! k) = ev_prev_hash (ys ! k)"
    if "k < length xs"
    using linked_agree[OF assms(1,2,5), of "length xs - 1" k] assms that
    by (simp add: last_conv_nth)
qed

lemma demo_chain_collision_free:
  "collision_free prefix_sha (set (record_inputs prefix_sha demo_chain))"
  by (simp add: collision_free_def record_inputs_def link_inputs_def core_inputs_def
      core_fields_def core_def metadata_raw_def demo_chain_def
      demo_e0_def demo_e1_def demo_e2_def with_hash_def default_event_def canon_layout
      to_be_bytes_def DOMAIN_def inj_on_def eval_simps)

text \<open>The same record after the content of its second event was erased.\<close>

definition demo_erased :: "run_event list" where
  "demo_erased = [demo_e0, demo_e1\<lparr>ev_content := None,
     ev_redacted := Some [(''content'', prefix_sha (as_bytes ''score=690''))]\<rparr>, demo_e2]"

lemma demo_erased_eq:
  "demo_erased = demo_chain[1 := erase_event prefix_sha [''content''] (demo_chain ! 1)]"
  by (simp add: demo_erased_def demo_chain_def erase_event_def kept_digests_def demo_e1_def
      with_hash_def default_event_def)

lemma demo_erased_verifies:
  "verify_chain prefix_sha demo_erased = Inr (chain_summary demo_chain)"
  unfolding demo_erased_eq verify_chain_erase by (rule demo_chain_verifies)

lemma demo_erased_link_inputs: "link_inputs prefix_sha demo_erased = link_inputs prefix_sha demo_chain"
  unfolding demo_erased_eq by (simp add: link_inputs_def demo_chain_def)

text \<open>
  one head, one history. Two records that verify and report the same head digest have
  the same length and the same canonical bytes at every index, whatever either of them has
  erased since: everything the 181 bytes of each event commit to is the same in both.
\<close>

theorem same_head_same_canon:
  assumes "verify_chain sha xs = Inr okx" and "verify_chain sha ys = Inr oky"
    and "ok_head_hash okx = ok_head_hash oky"
    and "length xs < 2 ^ 64" and "length ys < 2 ^ 64"
    and "collision_free sha (set (link_inputs sha xs) \<union> set (link_inputs sha ys))"
  shows "map (\<lambda>e. canon sha (core e)) xs = map (\<lambda>e. canon sha (core e)) ys"
  using same_head_agree[of sha xs ys] assms
  by (intro nth_equalityI) (auto simp: verify_chain_Inr_iff chain_summary_def)

theorem same_head_same_canon_witness:
  "map (\<lambda>e. canon prefix_sha (core e)) demo_chain = map (\<lambda>e. canon prefix_sha (core e)) demo_erased"
proof (rule same_head_same_canon[OF demo_chain_verifies demo_erased_verifies])
  show "collision_free prefix_sha
    (set (link_inputs prefix_sha demo_chain) \<union> set (link_inputs prefix_sha demo_erased))"
    unfolding demo_erased_link_inputs
    by (rule collision_free_mono[OF demo_chain_collision_free]) (simp add: record_inputs_def)
qed (simp_all add: demo_chain_def demo_erased_def)

text \<open>
  C10: the head pins the record. Two records without redactions that verify and report the
  same head digest are equal, event by event and field by field.
\<close>

theorem same_head_same_record:
  assumes "verify_chain sha xs = Inr okx" and "verify_chain sha ys = Inr oky"
    and "ok_head_hash okx = ok_head_hash oky"
    and "length xs < 2 ^ 64" and "length ys < 2 ^ 64"
    and "list_all (\<lambda>e. ev_redacted e = None) (xs @ ys)"
    and "collision_free sha (set (record_inputs sha xs) \<union> set (record_inputs sha ys))"
  shows "xs = ys"
proof (rule nth_equalityI)
  have cf: "collision_free sha (set (link_inputs sha xs) \<union> set (link_inputs sha ys))"
    by (rule collision_free_mono[OF assms(7)]) (auto simp: record_inputs_def)
  note chains = assms(1-3)[unfolded verify_chain_Inr_iff]
  note agree = same_head_agree[OF _ _ _ _ cf assms(4,5)]
  show len: "length xs = length ys"
    using agree(1) chains by (auto simp: chain_summary_def)
  fix k assume k: "k < length xs"
  with len have k': "k < length ys" by simp
  have eq: "canon sha (core (xs ! k)) = canon sha (core (ys ! k))"
    "ev_hash (xs ! k) = ev_hash (ys ! k)" "ev_prev_hash (xs ! k) = ev_prev_hash (ys ! k)"
    using agree(2)[OF _ _ _ _ _ k] chains by (auto simp: chain_summary_def)
  have "core (xs ! k) = core (ys ! k)"
    by (rule canon_inject[OF collision_free_mono[OF assms(7)]])
      (use core_inputs_nth[OF k, of sha] core_inputs_nth[OF k', of sha] assms(6) k k' eq
        in \<open>auto simp: list_all_iff\<close>)
  with eq show "xs ! k = ys ! k" by (intro run_event_eqI) simp_all
qed

theorem same_head_same_record_witness: "demo_chain = [demo_e0, demo_e1, demo_e2]"
  using same_head_same_record[OF demo_chain_verifies demo_chain_verifies]
    demo_chain_collision_free
  by (simp add: demo_chain_def demo_e0_def demo_e1_def demo_e2_def with_hash_def default_event_def)

end
