(* ===== verification/Checkpoint.thy ===== *)
theory Checkpoint
  imports Chain
begin

text \<open>
  Signed checkpoints, \<open>crates/tideline-proto/src/checkpoint.rs\<close>: the 119 bytes a signature
  covers, signing and verifying. Ed25519 and base64 are libraries outside this repository and
  are the parameter \<open>sig_lib\<close>; \<open>sig_ok\<close> states what their documentation promises.
\<close>

definition CHECKPOINT_CANON_LEN :: nat where
  "CHECKPOINT_CANON_LEN = 119"

text \<open>The domain tag \<open>tlrcp1\<close> and a line feed.\<close>

definition CP_DOMAIN :: "u8 list" where
  "CP_DOMAIN = [0x74, 0x6c, 0x72, 0x63, 0x70, 0x31, 0x0a]"

record checkpoint =
  cp_run_id :: string
  cp_seq :: u64
  cp_head_hash :: hash
  cp_ts :: u64
  cp_key_id :: string
  cp_sig :: string

datatype checkpoint_error = MalformedSignature | BadSignature

type_synonym signing_key = "u8 list"
type_synonym verifying_key = "u8 list"

record sig_lib =
  ed_sign :: "signing_key \<Rightarrow> u8 list \<Rightarrow> u8 list"
  ed_public :: "signing_key \<Rightarrow> verifying_key"
  ed_verify :: "verifying_key \<Rightarrow> u8 list \<Rightarrow> u8 list \<Rightarrow> bool"
  b64_encode :: "u8 list \<Rightarrow> string"
  b64_decode :: "string \<Rightarrow> u8 list option"

definition cp_canon :: "sha \<Rightarrow> checkpoint \<Rightarrow> u8 list" where
  "cp_canon sha cp =
     (let out = replicate CHECKPOINT_CANON_LEN 0;
          out = copy_at 0 CP_DOMAIN out;
          out = copy_at 7 (hash_bytes (sha (as_bytes (cp_run_id cp)))) out;
          out = copy_at 39 (to_be_bytes (cp_seq cp)) out;
          out = copy_at 47 (hash_bytes (cp_head_hash cp)) out;
          out = copy_at 79 (to_be_bytes (cp_ts cp)) out;
          out = copy_at 87 (hash_bytes (sha (as_bytes (cp_key_id cp)))) out
      in out)"

definition cp_sign :: "sha \<Rightarrow> sig_lib \<Rightarrow> string \<Rightarrow> u64 \<Rightarrow> hash \<Rightarrow> u64 \<Rightarrow> string \<Rightarrow> signing_key \<Rightarrow> checkpoint" where
  "cp_sign sha S run_id seq head_hash ts key_id key =
     (let cp = \<lparr>cp_run_id = run_id, cp_seq = seq, cp_head_hash = head_hash, cp_ts = ts,
                cp_key_id = key_id, cp_sig = ''''\<rparr>;
          sig = ed_sign S key (cp_canon sha cp)
      in cp\<lparr>cp_sig := b64_encode S sig\<rparr>)"

definition cp_verify :: "sha \<Rightarrow> sig_lib \<Rightarrow> checkpoint \<Rightarrow> verifying_key \<Rightarrow> checkpoint_error + unit" where
  "cp_verify sha S cp key =
     (case b64_decode S (cp_sig cp) of
        None \<Rightarrow> Inl MalformedSignature
      | Some raw \<Rightarrow>
          if length raw \<noteq> 64 then Inl MalformedSignature
          else if ed_verify S key (cp_canon sha cp) raw then Inr ()
          else Inl BadSignature)"

section \<open>Layout\<close>

lemma length_CP_DOMAIN [simp, byte_simps]: "length CP_DOMAIN = 7"
  by (simp add: CP_DOMAIN_def)

lemma cp_canon_layout:
  "cp_canon sha cp = CP_DOMAIN @ hash_bytes (sha (as_bytes (cp_run_id cp)))
     @ to_be_bytes (cp_seq cp) @ hash_bytes (cp_head_hash cp) @ to_be_bytes (cp_ts cp)
     @ hash_bytes (sha (as_bytes (cp_key_id cp)))"
  by (simp add: cp_canon_def CHECKPOINT_CANON_LEN_def Let_def copy_at_skip copy_at_zeros)

lemma length_cp_canon [simp, byte_simps]: "length (cp_canon sha cp) = 119"
  by (simp add: cp_canon_layout)

lemma cp_canon_eq_iff:
  "cp_canon sha a = cp_canon sha b \<longleftrightarrow>
     sha (as_bytes (cp_run_id a)) = sha (as_bytes (cp_run_id b)) \<and> cp_seq a = cp_seq b \<and>
     cp_head_hash a = cp_head_hash b \<and> cp_ts a = cp_ts b \<and>
     sha (as_bytes (cp_key_id a)) = sha (as_bytes (cp_key_id b))"
  by (auto simp: cp_canon_layout)

definition same_claim :: "checkpoint \<Rightarrow> checkpoint \<Rightarrow> bool" where
  "same_claim a b \<longleftrightarrow> cp_run_id a = cp_run_id b \<and> cp_seq a = cp_seq b \<and>
     cp_head_hash a = cp_head_hash b \<and> cp_ts a = cp_ts b \<and> cp_key_id a = cp_key_id b"

definition cp_inputs :: "checkpoint list \<Rightarrow> u8 list list" where
  "cp_inputs cps = concat (map (\<lambda>c. [as_bytes (cp_run_id c), as_bytes (cp_key_id c)]) cps)"

lemma cp_canon_inject:
  assumes "collision_free sha (set (cp_inputs cps))" and "a \<in> set cps" and "b \<in> set cps"
  shows "cp_canon sha a = cp_canon sha b \<longleftrightarrow> same_claim a b"
proof -
  have "as_bytes (cp_run_id c) \<in> set (cp_inputs cps) \<and> as_bytes (cp_key_id c) \<in> set (cp_inputs cps)"
    if "c \<in> set cps" for c
    using that by (auto simp: cp_inputs_def)
  note mem = this
  have "sha (as_bytes (f a)) = sha (as_bytes (f b)) \<longleftrightarrow> f a = f b"
    if "f = cp_run_id \<or> f = cp_key_id" for f
    using collision_freeD(1)[OF assms(1), of "as_bytes (f a)" "as_bytes (f b)"]
      mem[OF assms(2)] mem[OF assms(3)] that by auto
  then show ?thesis by (simp add: cp_canon_eq_iff same_claim_def)
qed

section \<open>Signing and verifying\<close>

definition sig_ok :: "sig_lib \<Rightarrow> bool" where
  "sig_ok S \<longleftrightarrow>
     (\<forall>k m. length (ed_sign S k m) = 64 \<and> ed_verify S (ed_public S k) m (ed_sign S k m)) \<and>
     (\<forall>bs. b64_decode S (b64_encode S bs) = Some bs)"

lemma cp_canon_sig [simp]: "cp_canon sha (cp\<lparr>cp_sig := s\<rparr>) = cp_canon sha cp"
  by (simp add: cp_canon_layout)

lemma cp_sign_simps [simp]:
  "cp_run_id (cp_sign sha S r q h t i k) = r" "cp_seq (cp_sign sha S r q h t i k) = q"
  "cp_head_hash (cp_sign sha S r q h t i k) = h" "cp_ts (cp_sign sha S r q h t i k) = t"
  "cp_key_id (cp_sign sha S r q h t i k) = i"
  by (simp_all add: cp_sign_def Let_def)

lemma cp_sign_verifies:
  "sig_ok S \<Longrightarrow> cp_verify sha S (cp_sign sha S r q h t i k) (ed_public S k) = Inr ()"
  by (simp add: sig_ok_def cp_verify_def cp_sign_def Let_def cp_canon_layout)

lemma cp_verify_Inr_iff:
  "cp_verify sha S cp key = Inr u \<longleftrightarrow>
     (\<exists>raw. b64_decode S (cp_sig cp) = Some raw \<and> length raw = 64 \<and>
        ed_verify S key (cp_canon sha cp) raw)"
  by (auto simp: cp_verify_def split: result_splits)

text \<open>
  No forgery: of the checkpoints in \<open>presented\<close>, the key accepts a signature only on a
  message its owner signed, that is on the canonical bytes of one in \<open>issued\<close>.
\<close>

definition unforged :: "sha \<Rightarrow> sig_lib \<Rightarrow> verifying_key \<Rightarrow> checkpoint list \<Rightarrow> checkpoint list \<Rightarrow> bool" where
  "unforged sha S key issued presented \<longleftrightarrow>
     (\<forall>cp \<in> set presented. \<forall>raw. b64_decode S (cp_sig cp) = Some raw \<longrightarrow>
        ed_verify S key (cp_canon sha cp) raw \<longrightarrow>
        (\<exists>c \<in> set issued. cp_canon sha cp = cp_canon sha c))"

lemma verified_was_issued:
  assumes "cp_verify sha S cp key = Inr ()" and "unforged sha S key issued [cp]"
    and "collision_free sha (set (cp_inputs (cp # issued)))"
  shows "\<exists>c \<in> set issued. same_claim cp c"
  using assms cp_canon_inject[OF assms(3), of cp] by (auto simp: cp_verify_Inr_iff unforged_def)

section \<open>Properties\<close>

text \<open>
  the 119 bytes of a checkpoint commit to all it claims. Two checkpoints have the same
  canonical bytes if and only if they name the same run, sequence number, head digest, time
  and key, unless the digest collides on their run and key names. The signature itself is not
  covered.
\<close>

theorem checkpoint_canon_binds:
  assumes "collision_free sha (set (cp_inputs [a, b]))"
  shows "cp_canon sha a = cp_canon sha b \<longleftrightarrow> same_claim a b"
  by (rule cp_canon_inject[OF assms]) simp_all

definition demo_cp :: checkpoint where
  "demo_cp = \<lparr>cp_run_id = ''loan-4821'', cp_seq = 1, cp_head_hash = ev_hash demo_e1, cp_ts = 9,
     cp_key_id = ''k1'', cp_sig = ''s''\<rparr>"

lemma demo_cp_collision_free: "collision_free prefix_sha (set (cp_inputs [demo_cp]))"
  by (simp add: collision_free_def cp_inputs_def demo_cp_def inj_on_def eval_simps)

theorem checkpoint_canon_binds_witness:
  "cp_canon prefix_sha demo_cp \<noteq> cp_canon prefix_sha (demo_cp\<lparr>cp_seq := 2\<rparr>)"
proof -
  have "collision_free prefix_sha (set (cp_inputs [demo_cp, demo_cp\<lparr>cp_seq := 2\<rparr>]))"
    by (rule collision_free_mono[OF demo_cp_collision_free]) (auto simp: cp_inputs_def)
  from checkpoint_canon_binds[OF this] show ?thesis
    by (simp add: same_claim_def demo_cp_def)
qed

text \<open>
  what the server signs, an auditor accepts. A checkpoint built by \<open>sign\<close> carries exactly
  the claim it was given and verifies under the public half of the key that signed it.
\<close>

theorem sign_then_verify:
  assumes "sig_ok S"
  shows "cp_verify sha S (cp_sign sha S r q h t i k) (ed_public S k) = Inr () \<and>
    same_claim (cp_sign sha S r q h t i k)
      \<lparr>cp_run_id = r, cp_seq = q, cp_head_hash = h, cp_ts = t, cp_key_id = i, cp_sig = s\<rparr>"
  using cp_sign_verifies[OF assms] by (simp add: same_claim_def)

text \<open>
  A library the laws hold of: a signature is 64 bytes whatever the message, and text stands
  for its bytes.
\<close>

definition demo_sig :: sig_lib where
  "demo_sig = \<lparr>ed_sign = (\<lambda>k m. replicate 64 1), ed_public = (\<lambda>k. k),
     ed_verify = (\<lambda>k m s. s = replicate 64 1),
     b64_encode = (\<lambda>bs. map (\<lambda>b. char_of (unat b)) bs), b64_decode = (\<lambda>s. Some (as_bytes s))\<rparr>"

lemma byte_of_char_of [simp]: "byte_of (char_of (unat b)) = b"
proof -
  have "unat b < 2 ^ LENGTH(8)" by (rule unsigned_less)
  then have "unat b mod 256 = unat b" by simp
  then show ?thesis by (simp add: byte_of_def of_char_of)
qed

lemma demo_sig_ok: "sig_ok demo_sig"
  by (simp add: sig_ok_def demo_sig_def as_bytes_def comp_def)

theorem sign_then_verify_witness:
  "cp_verify prefix_sha demo_sig (cp_sign prefix_sha demo_sig ''r'' 1 ZERO 9 ''k1'' []) [] = Inr ()"
  using sign_then_verify[OF demo_sig_ok, of prefix_sha _ _ _ _ _ "[]"] by (simp add: demo_sig_def)

text \<open>
  a checkpoint that verifies was issued. If no signature under this key is forged, a
  checkpoint that verifies makes the claim of one the key's owner signed: a moved head, an
  altered sequence number, time, run or key name is not accepted.
\<close>

theorem verified_checkpoint_was_issued:
  assumes "cp_verify sha S cp key = Inr ()" and "unforged sha S key issued [cp]"
    and "collision_free sha (set (cp_inputs (cp # issued)))"
  shows "\<exists>c \<in> set issued. same_claim cp c"
  using assms by (rule verified_was_issued)

theorem verified_checkpoint_was_issued_witness:
  "\<exists>c \<in> set [demo_cp]. same_claim (demo_cp\<lparr>cp_sig := replicate 64 (CHR 0x01)\<rparr>) c"
proof (rule verified_checkpoint_was_issued[of prefix_sha demo_sig _ "[]"])
  show "cp_verify prefix_sha demo_sig (demo_cp\<lparr>cp_sig := replicate 64 (CHR 0x01)\<rparr>) [] = Inr ()"
    by (simp add: cp_verify_def demo_sig_def as_bytes_def byte_of_def of_char_def)
  show "unforged prefix_sha demo_sig [] [demo_cp] [demo_cp\<lparr>cp_sig := replicate 64 (CHR 0x01)\<rparr>]"
    by (simp add: unforged_def)
  show "collision_free prefix_sha
      (set (cp_inputs [demo_cp\<lparr>cp_sig := replicate 64 (CHR 0x01)\<rparr>, demo_cp]))"
    by (rule collision_free_mono[OF demo_cp_collision_free]) (auto simp: cp_inputs_def)
qed

end
