(* ===== verification/Store.thy ===== *)
theory Store
  imports Checkpoint
begin

text \<open>
  The storage interface, \<open>crates/tideline-server/src/tlr/store.rs\<close>: what a client supplies,
  what an append returns, the query and page types and the errors; and the calls the handlers
  make through \<open>dyn TlrStore\<close>, as a record of operations over a state.

  Every call meets its own environment \<open>sys\<close>: the clock and the faults outside the program's
  control. A \<open>world\<close> is the store's state with the environments of the calls still to come.
\<close>

record new_run =
  nr_run_id :: string
  nr_agent :: agent
  nr_subject_ref :: "string option"
  nr_labels :: "(string \<times> string) list"

record new_event =
  ne_kind :: event_kind
  ne_role :: "string option"
  ne_name :: "string option"
  ne_content :: "string option"
  ne_metadata :: "string option"

record append_result =
  ar_seq :: u64
  ar_ts :: u64
  ar_prev_hash :: hash
  ar_hash :: hash

record run_query =
  rq_agent :: "string option"
  rq_label :: "string option"
  rq_since :: "u64 option"
  rq_cursor :: "string option"
  rq_limit :: "u32 option"

record run_page =
  rp_runs :: "run_envelope list"
  rp_next_cursor :: "string option"

datatype store_error =
  NotFound
| Conflict string
| Invalid string
| Backend string

fun store_error_display :: "store_error \<Rightarrow> string" where
  "store_error_display NotFound = ''not found''"
| "store_error_display (Conflict m) = ''conflict: '' @ m"
| "store_error_display (Invalid m) = ''invalid: '' @ m"
| "store_error_display (Backend m) = ''backend: '' @ m"

type_synonym 'a store_result = "store_error + 'a"

section \<open>The environment of a call\<close>

text \<open>
  What can go wrong below the store: its lock is poisoned, its task does not run, a statement
  cannot begin, or a transaction cannot commit (a statement failing in the middle of one has
  the same outcome: the transaction is rolled back and the error returned).
\<close>

datatype fault =
  NoFault
| LockPoisoned
| TaskFailed string
| BeginFails string
| CommitFails string

text \<open>The clock gives milliseconds since the epoch, or nothing when set before it.\<close>

record sys =
  sys_clock :: "nat option"
  sys_fault :: fault

definition now_ms :: "sys \<Rightarrow> u64" where
  "now_ms s = (case sys_clock s of None \<Rightarrow> 0 | Some n \<Rightarrow> of_nat n)"

definition calm :: "nat \<Rightarrow> sys" where
  "calm n = \<lparr>sys_clock = Some n, sys_fault = NoFault\<rparr>"

lemma calm_simps [simp]: "sys_fault (calm n) = NoFault" "now_ms (calm n) = of_nat n"
  by (simp_all add: calm_def now_ms_def)

record 's world =
  w_state :: 's
  w_sys :: "nat \<Rightarrow> sys"
  w_tick :: nat

definition call :: "(sys \<Rightarrow> 's \<Rightarrow> 'r \<times> 's) \<Rightarrow> 's world \<Rightarrow> 'r \<times> 's world" where
  "call op w =
     (let (r, s) = op (w_sys w (w_tick w)) (w_state w)
      in (r, w\<lparr>w_state := s, w_tick := Suc (w_tick w)\<rparr>))"

section \<open>The interface\<close>

record 's tlr_store =
  st_create_run :: "string \<Rightarrow> new_run \<Rightarrow> 's world \<Rightarrow> run_envelope store_result \<times> 's world"
  st_get_run :: "string \<Rightarrow> string \<Rightarrow> 's world \<Rightarrow> run_envelope store_result \<times> 's world"
  st_list_runs :: "string \<Rightarrow> run_query \<Rightarrow> 's world \<Rightarrow> run_page store_result \<times> 's world"
  st_append :: "string \<Rightarrow> string \<Rightarrow> new_event \<Rightarrow> string option \<Rightarrow> 's world
    \<Rightarrow> append_result store_result \<times> 's world"
  st_events :: "string \<Rightarrow> string \<Rightarrow> u64 \<Rightarrow> u32 \<Rightarrow> 's world
    \<Rightarrow> run_event list store_result \<times> 's world"
  st_seal :: "string \<Rightarrow> string \<Rightarrow> 's world \<Rightarrow> append_result store_result \<times> 's world"
  st_redact :: "string \<Rightarrow> string \<Rightarrow> u64 \<Rightarrow> string list \<Rightarrow> string \<Rightarrow> 's world
    \<Rightarrow> append_result store_result \<times> 's world"
  st_latest_checkpoint :: "string \<Rightarrow> string \<Rightarrow> 's world
    \<Rightarrow> checkpoint option store_result \<times> 's world"
  st_put_checkpoint :: "string \<Rightarrow> checkpoint \<Rightarrow> 's world \<Rightarrow> unit store_result \<times> 's world"

section \<open>Decimal text\<close>

text \<open>Numbers in messages and cursors are printed in decimal and read back by \<open>parse::<i64>\<close>.\<close>

definition digit_char :: "nat \<Rightarrow> char" where
  "digit_char d = char_of (48 + d)"

fun dec_nat :: "nat \<Rightarrow> string" where
  "dec_nat n = (if n < 10 then [digit_char n] else dec_nat (n div 10) @ [digit_char (n mod 10)])"

declare dec_nat.simps [simp del]

definition dec :: "u64 \<Rightarrow> string" where
  "dec w = dec_nat (unat w)"

definition char_digit :: "char \<Rightarrow> nat option" where
  "char_digit c =
     (let n = of_char c in if 48 \<le> n \<and> n \<le> 57 then Some (n - 48) else None)"

fun digits_value :: "nat \<Rightarrow> string \<Rightarrow> nat option" where
  "digits_value acc [] = Some acc"
| "digits_value acc (c # cs) =
     (case char_digit c of None \<Rightarrow> None | Some d \<Rightarrow> digits_value (10 * acc + d) cs)"

text \<open>\<open>str::parse::<i64>\<close>: an optional sign, at least one digit, and a value in range.\<close>

definition parse_i64 :: "string \<Rightarrow> int option" where
  "parse_i64 s =
     (let (neg, ds) = (case s of [] \<Rightarrow> (False, [])
                       | c # cs \<Rightarrow> if c = CHR ''-'' then (True, cs)
                                   else if c = CHR ''+'' then (False, cs) else (False, s))
      in if ds = [] then None
         else (case digits_value 0 ds of
                 None \<Rightarrow> None
               | Some n \<Rightarrow>
                   let v = (if neg then - int n else int n)
                   in if - (2 ^ 63) \<le> v \<and> v < 2 ^ 63 then Some v else None))"

text \<open>\<open>str::parse\<close> at an unsigned type: an optional plus sign, a digit, and no overflow.\<close>

definition parse_unsigned :: "nat \<Rightarrow> string \<Rightarrow> nat option" where
  "parse_unsigned bound s =
     (let ds = (case s of [] \<Rightarrow> [] | c # cs \<Rightarrow> if c = CHR ''+'' then cs else s)
      in if ds = [] then None
         else (case digits_value 0 ds of
                 None \<Rightarrow> None
               | Some n \<Rightarrow> if n < bound then Some n else None))"

definition parse_u64 :: "string \<Rightarrow> u64 option" where
  "parse_u64 s = map_option of_nat (parse_unsigned (2 ^ 64) s)"

text \<open>\<open>str::split_once\<close> at a character.\<close>

fun split_once :: "char \<Rightarrow> string \<Rightarrow> (string \<times> string) option" where
  "split_once c [] = None"
| "split_once c (x # xs) =
     (if x = c then Some ([], xs)
      else (case split_once c xs of None \<Rightarrow> None | Some (a, b) \<Rightarrow> Some (x # a, b)))"

lemma char_digit_digit_char [simp]: "d < 10 \<Longrightarrow> char_digit (digit_char d) = Some d"
  by (simp add: char_digit_def digit_char_def of_char_of)

lemma digits_value_append:
  "digits_value acc (xs @ ys)
     = (case digits_value acc xs of None \<Rightarrow> None | Some v \<Rightarrow> digits_value v ys)"
  by (induction xs arbitrary: acc) (auto split: option.splits)

lemma digits_value_dec_nat: "digits_value 0 (dec_nat n) = Some n"
proof (induction n rule: dec_nat.induct)
  case (1 n)
  then show ?case
    by (cases "n < 10") (simp_all add: dec_nat.simps[of n] digits_value_append)
qed

lemma dec_nat_digits: "c \<in> set (dec_nat n) \<Longrightarrow> char_digit c \<noteq> None"
proof (induction n rule: dec_nat.induct)
  case (1 n)
  then show ?case
    by (cases "n < 10") (auto simp: dec_nat.simps[of n])
qed

lemma dec_nat_nonempty [simp]: "dec_nat n \<noteq> []"
  by (simp add: dec_nat.simps[of n])

lemma parse_i64_dec: "sint w \<ge> 0 \<Longrightarrow> parse_i64 (dec w) = Some (sint w)"
proof -
  assume pos: "sint w \<ge> 0"
  obtain c cs where ds: "dec_nat (unat w) = c # cs" by (cases "dec_nat (unat w)") auto
  then have "char_digit c \<noteq> None" using dec_nat_digits[of c "unat w"] by simp
  then have "c \<noteq> CHR ''-''" "c \<noteq> CHR ''+''" by (auto simp: char_digit_def)
  moreover have "sint w = int (unat w)" using pos by (rule sint_eq_unat)
  ultimately show ?thesis
    using digits_value_dec_nat[of "unat w"] sint_lt[of w] uint_ge_0[of w]
    by (simp add: parse_i64_def dec_def ds Let_def order_trans[OF _ uint_ge_0[of w]])
qed

lemma split_once_append: "c \<notin> set a \<Longrightarrow> split_once c (a @ c # b) = Some (a, b)"
  by (induction a) auto

lemma parse_u64_dec [simp]: "parse_u64 (dec w) = Some w"
proof -
  obtain c cs where ds: "dec_nat (unat w) = c # cs" by (cases "dec_nat (unat w)") auto
  then have "char_digit c \<noteq> None" using dec_nat_digits[of c "unat w"] by simp
  then have "c \<noteq> CHR ''+''" by (auto simp: char_digit_def)
  moreover have "unat w < 2 ^ 64" by (rule order_less_le_trans[OF unsigned_less]) simp
  ultimately show ?thesis
    using digits_value_dec_nat[of "unat w"] by (simp add: parse_u64_def parse_unsigned_def dec_def ds)
qed

end
