(* ===== verification/Sqlite.thy ===== *)
theory Sqlite
  imports Store
begin

text \<open>
  The SQLite record store, \<open>crates/tideline-server/src/tlr/sqlite.rs\<close>. A table is the list of
  its rows in insertion order, a row a record with the columns of \<open>SCHEMA\<close>; integers are the
  64 bits of an \<open>i64\<close>, hashes are blobs, labels and digest maps are JSON text. A statement is
  what its SQL says: \<open>WHERE\<close> a filter, \<open>ORDER BY\<close> a stable sort that compares signed,
  \<open>LIMIT\<close> a prefix, \<open>INSERT\<close> fails on a used primary key, \<open>UPDATE\<close> maps over the matching
  rows. Every operation takes the environment of its call and the database, and returns its
  result with the database left behind: an error inside a transaction leaves it as it was.
\<close>

section \<open>Tables\<close>

record run_row =
  rr_ns :: string
  rr_run_id :: string
  rr_started_ts :: u64
  rr_ended_ts :: "u64 option"
  rr_agent_name :: string
  rr_agent_version :: string
  rr_subject_ref :: "string option"
  rr_labels :: string
  rr_head_seq :: u64
  rr_head_hash :: "u8 list"

record event_row =
  er_ns :: string
  er_run_id :: string
  er_seq :: u64
  er_ts :: u64
  er_kind :: string
  er_role :: "string option"
  er_name :: "string option"
  er_content :: "string option"
  er_metadata :: "string option"
  er_redacted :: "string option"
  er_prev_hash :: "u8 list"
  er_hash :: "u8 list"

record idem_row =
  ir_ns :: string
  ir_run_id :: string
  ir_key :: string
  ir_seq :: u64
  ir_ts :: u64
  ir_prev_hash :: "u8 list"
  ir_hash :: "u8 list"

record cp_row =
  cr_ns :: string
  cr_run_id :: string
  cr_seq :: u64
  cr_head_hash :: "u8 list"
  cr_ts :: u64
  cr_key_id :: string
  cr_sig :: string

record db =
  db_runs :: "run_row list"
  db_events :: "event_row list"
  db_idem :: "idem_row list"
  db_checkpoints :: "cp_row list"

definition empty_db :: db where
  "empty_db = \<lparr>db_runs = [], db_events = [], db_idem = [], db_checkpoints = []\<rparr>"

definition run_at :: "string \<Rightarrow> string \<Rightarrow> run_row \<Rightarrow> bool" where
  "run_at ns run_id r \<longleftrightarrow> rr_ns r = ns \<and> rr_run_id r = run_id"

definition event_at :: "string \<Rightarrow> string \<Rightarrow> event_row \<Rightarrow> bool" where
  "event_at ns run_id r \<longleftrightarrow> er_ns r = ns \<and> er_run_id r = run_id"

section \<open>Columns\<close>

definition blob :: "hash \<Rightarrow> u8 list" where
  "blob h = hash_bytes h"

definition unblob :: "u8 list \<Rightarrow> hash store_result" where
  "unblob v = (if length v = 32 then Inr (Hash v) else Inl (Backend ''hash column is not 32 bytes''))"

definition hash_or_zero :: "u8 list \<Rightarrow> hash" where
  "hash_or_zero v = Hash (if length v = 32 then v else replicate 32 0)"

text \<open>A digest map and the labels of a run, to JSON and back.\<close>

definition json_of_hashes :: "(string \<times> hash) list \<Rightarrow> json" where
  "json_of_hashes m = JObj (map (\<lambda>(k, h). (k, JStr (to_hex h))) m)"

fun member_hash :: "string \<times> json \<Rightarrow> (string \<times> hash) option" where
  "member_hash (k, JStr s) = map_option (Pair k) (from_hex s)"
| "member_hash (k, v) = None"

fun hashes_of_json :: "json \<Rightarrow> (string \<times> hash) list option" where
  "hashes_of_json (JObj kvs) = map_option bt_of_list (those (map member_hash kvs))"
| "hashes_of_json v = None"

definition hashes_from_str :: "json_lib \<Rightarrow> string \<Rightarrow> (string \<times> hash) list option" where
  "hashes_from_str J s = Option.bind (json_parse J s) hashes_of_json"

definition json_of_labels :: "(string \<times> string) list \<Rightarrow> json" where
  "json_of_labels m = JObj (map (\<lambda>(k, v). (k, JStr v)) m)"

fun member_str :: "string \<times> json \<Rightarrow> (string \<times> string) option" where
  "member_str (k, JStr s) = Some (k, s)"
| "member_str (k, v) = None"

fun labels_of_json :: "json \<Rightarrow> (string \<times> string) list option" where
  "labels_of_json (JObj kvs) = map_option bt_of_list (those (map member_str kvs))"
| "labels_of_json v = None"

definition labels_from_str :: "json_lib \<Rightarrow> string \<Rightarrow> (string \<times> string) list option" where
  "labels_from_str J s = Option.bind (json_parse J s) labels_of_json"

text \<open>The envelope as written into the metadata of \<open>run_started\<close>, in declaration order.\<close>

definition envelope_meta :: "new_run \<Rightarrow> json" where
  "envelope_meta new = JObj
     ([(''run_id'', JStr (nr_run_id new)),
       (''agent'', JObj [(''name'', JStr (ag_name (nr_agent new))),
                         (''version'', JStr (ag_version (nr_agent new)))])]
      @ (case nr_subject_ref new of None \<Rightarrow> [] | Some s \<Rightarrow> [(''subject_ref'', JStr s)])
      @ [(''labels'', json_of_labels (nr_labels new))])"

definition row_to_event :: "json_lib \<Rightarrow> event_row \<Rightarrow> run_event" where
  "row_to_event J r =
     \<lparr>ev_seq = er_seq r, ev_ts = er_ts r,
      ev_kind = (case kind_parse (er_kind r) of None \<Rightarrow> Message | Some k \<Rightarrow> k),
      ev_role = er_role r, ev_name = er_name r, ev_content = er_content r,
      ev_metadata = Option.bind (er_metadata r) (raw_value J),
      ev_redacted = Option.bind (er_redacted r) (hashes_from_str J),
      ev_prev_hash = hash_or_zero (er_prev_hash r), ev_hash = hash_or_zero (er_hash r)\<rparr>"

definition row_to_envelope :: "json_lib \<Rightarrow> run_row \<Rightarrow> run_envelope store_result" where
  "row_to_envelope J r =
     (case unblob (rr_head_hash r) of
        Inl e \<Rightarrow> Inl e
      | Inr head \<Rightarrow> Inr
          \<lparr>env_run_id = rr_run_id r, env_started_ts = rr_started_ts r,
           env_ended_ts = rr_ended_ts r,
           env_agent = \<lparr>ag_name = rr_agent_name r, ag_version = rr_agent_version r\<rparr>,
           env_subject_ref = rr_subject_ref r,
           env_labels = (case labels_from_str J (rr_labels r) of None \<Rightarrow> [] | Some m \<Rightarrow> m),
           env_head_seq = rr_head_seq r, env_head_hash = head\<rparr>)"

section \<open>Calls and transactions\<close>

text \<open>\<open>with_conn\<close>: the closure runs with the connection locked, or not at all.\<close>

definition with_conn :: "(db \<Rightarrow> 'a store_result \<times> db) \<Rightarrow> sys \<Rightarrow> db \<Rightarrow> 'a store_result \<times> db" where
  "with_conn f s db =
     (case sys_fault s of
        TaskFailed m \<Rightarrow> (Inl (Backend (''blocking task: '' @ m)), db)
      | LockPoisoned \<Rightarrow> (Inl (Backend ''record store lock poisoned''), db)
      | _ \<Rightarrow> f db)"

text \<open>The first statement of a call, \<open>BEGIN IMMEDIATE\<close> for the writes.\<close>

definition begin_stmt :: "sys \<Rightarrow> unit store_result" where
  "begin_stmt s = (case sys_fault s of BeginFails m \<Rightarrow> Inl (Backend m) | _ \<Rightarrow> Inr ())"

text \<open>
  The end of a transaction: an error drops it, which rolls back to the database before it;
  otherwise it commits, which can fail with the same effect.
\<close>

definition end_tx :: "sys \<Rightarrow> db \<Rightarrow> ('a \<times> db) store_result \<Rightarrow> 'a store_result \<times> db" where
  "end_tx s before res =
     (case res of
        Inl e \<Rightarrow> (Inl e, before)
      | Inr (a, tx) \<Rightarrow>
          (case sys_fault s of CommitFails m \<Rightarrow> (Inl (Backend m), before) | _ \<Rightarrow> (Inr a, tx)))"

definition query :: "(db \<Rightarrow> 'a store_result) \<Rightarrow> sys \<Rightarrow> db \<Rightarrow> 'a store_result \<times> db" where
  "query f s db = (case begin_stmt s of Inl e \<Rightarrow> (Inl e, db) | Inr _ \<Rightarrow> (f db, db))"

definition tx_immediate :: "(db \<Rightarrow> ('a \<times> db) store_result) \<Rightarrow> sys \<Rightarrow> db \<Rightarrow> 'a store_result \<times> db" where
  "tx_immediate body s db =
     (case begin_stmt s of Inl e \<Rightarrow> (Inl e, db) | Inr _ \<Rightarrow> end_tx s db (body db))"

section \<open>Appending inside a transaction\<close>

definition head_of :: "string \<Rightarrow> string \<Rightarrow> db \<Rightarrow> (u64 \<times> hash) store_result" where
  "head_of ns run_id tx =
     (case find (run_at ns run_id) (db_runs tx) of
        None \<Rightarrow> Inl NotFound
      | Some r \<Rightarrow>
          (case rr_ended_ts r of
             Some _ \<Rightarrow> Inl (Conflict ''run is sealed'')
           | None \<Rightarrow>
               (case unblob (rr_head_hash r) of
                  Inl e \<Rightarrow> Inl e
                | Inr hash \<Rightarrow> Inr (rr_head_seq r, hash))))"

definition write_event ::
  "string \<Rightarrow> string \<Rightarrow> u64 \<Rightarrow> u64 \<Rightarrow> event_kind \<Rightarrow> string option \<Rightarrow> string option
   \<Rightarrow> string option \<Rightarrow> string option \<Rightarrow> hash \<Rightarrow> hash \<Rightarrow> db \<Rightarrow> db store_result" where
  "write_event ns run_id seq ts kind role name content metadata prev hash tx =
     (if list_ex (\<lambda>r. event_at ns run_id r \<and> er_seq r = seq) (db_events tx)
      then Inl (Backend
        ''UNIQUE constraint failed: tlr_events.ns, tlr_events.run_id, tlr_events.seq'')
      else Inr (tx
        \<lparr>db_events := db_events tx @
           [\<lparr>er_ns = ns, er_run_id = run_id, er_seq = seq, er_ts = ts, er_kind = kind_str kind,
             er_role = role, er_name = name, er_content = content, er_metadata = metadata,
             er_redacted = None, er_prev_hash = blob prev, er_hash = blob hash\<rparr>],
         db_runs := map (\<lambda>r. if run_at ns run_id r
           then r\<lparr>rr_head_seq := seq, rr_head_hash := blob hash\<rparr> else r) (db_runs tx)\<rparr>))"

definition append_in_tx ::
  "sha \<Rightarrow> sys \<Rightarrow> string \<Rightarrow> string \<Rightarrow> event_kind \<Rightarrow> string option \<Rightarrow> string option
   \<Rightarrow> string option \<Rightarrow> string option \<Rightarrow> db \<Rightarrow> (append_result \<times> db) store_result" where
  "append_in_tx sha s ns run_id kind role name content metadata tx =
     (case head_of ns run_id tx of
        Inl e \<Rightarrow> Inl e
      | Inr (head_seq, head_hash) \<Rightarrow>
          (let seq = head_seq + 1;
               ts = now_ms s;
               core = \<lparr>ec_seq = seq, ec_ts = ts, ec_kind = kind, ec_role = role, ec_name = name,
                       ec_content = content, ec_metadata_raw = metadata, ec_redacted = None\<rparr>;
               hash = event_hash sha core head_hash
           in case write_event ns run_id seq ts kind role name content metadata head_hash hash tx of
                Inl e \<Rightarrow> Inl e
              | Inr tx \<Rightarrow>
                  Inr (\<lparr>ar_seq = seq, ar_ts = ts, ar_prev_hash = head_hash, ar_hash = hash\<rparr>, tx)))"

section \<open>The operations\<close>

definition create_run_tx ::
  "json_lib \<Rightarrow> sha \<Rightarrow> sys \<Rightarrow> string \<Rightarrow> new_run \<Rightarrow> db \<Rightarrow> (run_envelope \<times> db) store_result" where
  "create_run_tx J sha s ns new tx =
     (if list_ex (run_at ns (nr_run_id new)) (db_runs tx)
      then Inl (Conflict (''run '' @ nr_run_id new @ '' already exists''))
      else
        (let ts = now_ms s;
             meta = json_text J (envelope_meta new);
             core = \<lparr>ec_seq = 0, ec_ts = ts, ec_kind = RunStarted, ec_role = None, ec_name = None,
                     ec_content = None, ec_metadata_raw = Some meta, ec_redacted = None\<rparr>;
             hash = event_hash sha core ZERO;
             row = \<lparr>rr_ns = ns, rr_run_id = nr_run_id new, rr_started_ts = ts, rr_ended_ts = None,
                    rr_agent_name = ag_name (nr_agent new),
                    rr_agent_version = ag_version (nr_agent new),
                    rr_subject_ref = nr_subject_ref new,
                    rr_labels = json_text J (json_of_labels (nr_labels new)),
                    rr_head_seq = 0, rr_head_hash = blob hash\<rparr>;
             tx = tx\<lparr>db_runs := db_runs tx @ [row]\<rparr>
         in case write_event ns (nr_run_id new) 0 ts RunStarted None None None (Some meta)
                   ZERO hash tx of
              Inl e \<Rightarrow> Inl e
            | Inr tx \<Rightarrow> Inr
                (\<lparr>env_run_id = nr_run_id new, env_started_ts = ts, env_ended_ts = None,
                  env_agent = nr_agent new, env_subject_ref = nr_subject_ref new,
                  env_labels = nr_labels new, env_head_seq = 0, env_head_hash = hash\<rparr>, tx)))"

definition create_run ::
  "json_lib \<Rightarrow> sha \<Rightarrow> string \<Rightarrow> new_run \<Rightarrow> sys \<Rightarrow> db \<Rightarrow> run_envelope store_result \<times> db" where
  "create_run J sha ns new s = with_conn (tx_immediate (create_run_tx J sha s ns new) s) s"

definition get_run :: "json_lib \<Rightarrow> string \<Rightarrow> string \<Rightarrow> sys \<Rightarrow> db \<Rightarrow> run_envelope store_result \<times> db" where
  "get_run J ns run_id s = with_conn (query (\<lambda>c.
     case find (run_at ns run_id) (db_runs c) of
       None \<Rightarrow> Inl NotFound
     | Some r \<Rightarrow> row_to_envelope J r) s) s"

text \<open>The result recorded for an idempotency key, if the key was used before.\<close>

definition idem_at :: "string \<Rightarrow> string \<Rightarrow> string \<Rightarrow> idem_row \<Rightarrow> bool" where
  "idem_at ns run_id key r \<longleftrightarrow> ir_ns r = ns \<and> ir_run_id r = run_id \<and> ir_key r = key"

definition prior_of ::
  "string \<Rightarrow> string \<Rightarrow> string option \<Rightarrow> db \<Rightarrow> append_result store_result option" where
  "prior_of ns run_id idem c =
     (case idem of
        None \<Rightarrow> None
      | Some key \<Rightarrow>
          (case find (idem_at ns run_id key) (db_idem c) of
             None \<Rightarrow> None
           | Some r \<Rightarrow> Some
               (case unblob (ir_prev_hash r) of
                  Inl e \<Rightarrow> Inl e
                | Inr prev \<Rightarrow>
                    (case unblob (ir_hash r) of
                       Inl e \<Rightarrow> Inl e
                     | Inr hash \<Rightarrow> Inr \<lparr>ar_seq = ir_seq r, ar_ts = ir_ts r,
                                         ar_prev_hash = prev, ar_hash = hash\<rparr>))))"

definition remember ::
  "string \<Rightarrow> string \<Rightarrow> string option \<Rightarrow> append_result \<Rightarrow> db \<Rightarrow> db store_result" where
  "remember ns run_id idem res tx =
     (case idem of
        None \<Rightarrow> Inr tx
      | Some key \<Rightarrow>
          if list_ex (idem_at ns run_id key) (db_idem tx)
          then Inl (Backend
            ''UNIQUE constraint failed: tlr_idem.ns, tlr_idem.run_id, tlr_idem.key'')
          else Inr (tx\<lparr>db_idem := db_idem tx @
            [\<lparr>ir_ns = ns, ir_run_id = run_id, ir_key = key, ir_seq = ar_seq res,
              ir_ts = ar_ts res, ir_prev_hash = blob (ar_prev_hash res),
              ir_hash = blob (ar_hash res)\<rparr>]\<rparr>))"

definition append_tx ::
  "sha \<Rightarrow> sys \<Rightarrow> string \<Rightarrow> string \<Rightarrow> new_event \<Rightarrow> string option \<Rightarrow> db
   \<Rightarrow> (append_result \<times> db) store_result" where
  "append_tx sha s ns run_id event idem tx =
     (case append_in_tx sha s ns run_id (ne_kind event) (ne_role event) (ne_name event)
             (ne_content event) (ne_metadata event) tx of
        Inl e \<Rightarrow> Inl e
      | Inr (res, tx) \<Rightarrow>
          (case remember ns run_id idem res tx of Inl e \<Rightarrow> Inl e | Inr tx \<Rightarrow> Inr (res, tx)))"

definition store_append ::
  "sha \<Rightarrow> string \<Rightarrow> string \<Rightarrow> new_event \<Rightarrow> string option \<Rightarrow> sys \<Rightarrow> db
   \<Rightarrow> append_result store_result \<times> db" where
  "store_append sha ns run_id event idem s = with_conn (\<lambda>c.
     case begin_stmt s of
       Inl e \<Rightarrow> (Inl e, c)
     | Inr _ \<Rightarrow>
         (case prior_of ns run_id idem c of
            Some res \<Rightarrow> (res, c)
          | None \<Rightarrow> end_tx s c (append_tx sha s ns run_id event idem c))) s"

definition clamp :: "u32 \<Rightarrow> u32 \<Rightarrow> u32 \<Rightarrow> u32" where
  "clamp lo hi x = (if x < lo then lo else if hi < x then hi else x)"

definition store_events ::
  "json_lib \<Rightarrow> string \<Rightarrow> string \<Rightarrow> u64 \<Rightarrow> u32 \<Rightarrow> sys \<Rightarrow> db \<Rightarrow> run_event list store_result \<times> db" where
  "store_events J ns run_id start limit s = with_conn (query (\<lambda>c.
     let limit = clamp 1 5000 limit;
         rows = filter (\<lambda>r. event_at ns run_id r \<and> sql_le start (er_seq r)) (db_events c);
         rows = take (unat limit) (sort_key (\<lambda>r. sint (er_seq r)) rows)
     in Inr (map (row_to_event J) rows)) s) s"

definition seal_tx ::
  "json_lib \<Rightarrow> sha \<Rightarrow> sys \<Rightarrow> string \<Rightarrow> string \<Rightarrow> db \<Rightarrow> (append_result \<times> db) store_result" where
  "seal_tx J sha s ns run_id tx =
     (case head_of ns run_id tx of
        Inl e \<Rightarrow> Inl e
      | Inr (head_seq, _) \<Rightarrow>
          (let meta = json_text J (json_norm (JObj [(''event_count'', JNum (head_seq + 2))]))
           in case append_in_tx sha s ns run_id RunFinished None None None (Some meta) tx of
                Inl e \<Rightarrow> Inl e
              | Inr (res, tx) \<Rightarrow>
                  Inr (res, tx\<lparr>db_runs := map (\<lambda>r. if run_at ns run_id r
                    then r\<lparr>rr_ended_ts := Some (ar_ts res)\<rparr> else r) (db_runs tx)\<rparr>)))"

definition seal ::
  "json_lib \<Rightarrow> sha \<Rightarrow> string \<Rightarrow> string \<Rightarrow> sys \<Rightarrow> db \<Rightarrow> append_result store_result \<times> db" where
  "seal J sha ns run_id s = with_conn (tx_immediate (seal_tx J sha s ns run_id) s) s"

text \<open>The column of a field: its value in a row, and the row with it set to \<open>NULL\<close>.\<close>

definition column :: "event_row \<Rightarrow> string \<Rightarrow> string option" where
  "column r f =
     (if f = ''role'' then er_role r else if f = ''name'' then er_name r
      else if f = ''content'' then er_content r else if f = ''metadata'' then er_metadata r
      else None)"

definition clear_column :: "string \<Rightarrow> event_row \<Rightarrow> event_row" where
  "clear_column f r =
     (if f = ''role'' then r\<lparr>er_role := None\<rparr> else if f = ''name'' then r\<lparr>er_name := None\<rparr>
      else if f = ''content'' then r\<lparr>er_content := None\<rparr>
      else if f = ''metadata'' then r\<lparr>er_metadata := None\<rparr> else r)"

definition update_event ::
  "string \<Rightarrow> string \<Rightarrow> u64 \<Rightarrow> (event_row \<Rightarrow> event_row) \<Rightarrow> db \<Rightarrow> db" where
  "update_event ns run_id seq g tx = tx\<lparr>db_events :=
     map (\<lambda>r. if event_at ns run_id r \<and> er_seq r = seq then g r else r) (db_events tx)\<rparr>"

text \<open>The loop of \<open>redact\<close>: digests kept so far and the database, over the fields in order.\<close>

definition redact_field ::
  "sha \<Rightarrow> string \<Rightarrow> string \<Rightarrow> u64 \<Rightarrow> event_row \<Rightarrow> (string \<times> hash) list \<times> db \<Rightarrow> string
   \<Rightarrow> (string \<times> hash) list \<times> db" where
  "redact_field sha ns run_id seq row = (\<lambda>(kept, tx) f.
     case column row f of
       None \<Rightarrow> (kept, tx)
     | Some v \<Rightarrow>
         (bt_insert f (sha (as_bytes v)) kept, update_event ns run_id seq (clear_column f) tx))"

definition redaction_meta :: "u64 \<Rightarrow> string list \<Rightarrow> string \<Rightarrow> json" where
  "redaction_meta target_seq fs authority = json_norm (JObj
     [(''target_seq'', JNum target_seq), (''fields'', JArr (map JStr fs)),
      (''authority'', JStr authority)])"

definition redact_tx ::
  "json_lib \<Rightarrow> sha \<Rightarrow> sys \<Rightarrow> string \<Rightarrow> string \<Rightarrow> u64 \<Rightarrow> string list \<Rightarrow> string \<Rightarrow> db
   \<Rightarrow> (append_result \<times> db) store_result" where
  "redact_tx J sha s ns run_id target_seq fs authority tx =
     (case find (\<lambda>r. event_at ns run_id r \<and> er_seq r = target_seq) (db_events tx) of
        None \<Rightarrow> Inl NotFound
      | Some row \<Rightarrow>
          (let kept = (case Option.bind (er_redacted row) (hashes_from_str J) of
                         None \<Rightarrow> [] | Some m \<Rightarrow> m);
               (kept, tx) = foldl (redact_field sha ns run_id target_seq row) (kept, tx) fs;
               tx = update_event ns run_id target_seq
                      (\<lambda>r. r\<lparr>er_redacted := Some (json_text J (json_of_hashes kept))\<rparr>) tx;
               meta = json_text J (redaction_meta target_seq fs authority)
           in append_in_tx sha s ns run_id Redaction None None None (Some meta) tx))"

definition redact ::
  "json_lib \<Rightarrow> sha \<Rightarrow> string \<Rightarrow> string \<Rightarrow> u64 \<Rightarrow> string list \<Rightarrow> string \<Rightarrow> sys \<Rightarrow> db
   \<Rightarrow> append_result store_result \<times> db" where
  "redact J sha ns run_id target_seq fs authority s = with_conn (\<lambda>c.
     case find (\<lambda>f. f \<notin> set REDACTABLE) fs of
       Some f \<Rightarrow> (Inl (Invalid (f @ '' is structural and cannot be redacted'')), c)
     | None \<Rightarrow> tx_immediate (redact_tx J sha s ns run_id target_seq fs authority) s c) s"

definition cp_at :: "string \<Rightarrow> string \<Rightarrow> cp_row \<Rightarrow> bool" where
  "cp_at ns run_id r \<longleftrightarrow> cr_ns r = ns \<and> cr_run_id r = run_id"

definition latest_checkpoint ::
  "string \<Rightarrow> string \<Rightarrow> sys \<Rightarrow> db \<Rightarrow> checkpoint option store_result \<times> db" where
  "latest_checkpoint ns run_id s = with_conn (query (\<lambda>c.
     case sort_key (\<lambda>r. - sint (cr_seq r)) (filter (cp_at ns run_id) (db_checkpoints c)) of
       [] \<Rightarrow> Inr None
     | r # _ \<Rightarrow>
         (case unblob (cr_head_hash r) of
            Inl e \<Rightarrow> Inl e
          | Inr head \<Rightarrow> Inr (Some \<lparr>cp_run_id = run_id, cp_seq = cr_seq r, cp_head_hash = head,
                                  cp_ts = cr_ts r, cp_key_id = cr_key_id r, cp_sig = cr_sig r\<rparr>))) s) s"

definition put_checkpoint :: "string \<Rightarrow> checkpoint \<Rightarrow> sys \<Rightarrow> db \<Rightarrow> unit store_result \<times> db" where
  "put_checkpoint ns cp s = with_conn (tx_immediate (\<lambda>c.
     Inr ((), c\<lparr>db_checkpoints :=
       filter (\<lambda>r. \<not> (cp_at ns (cp_run_id cp) r \<and> cr_seq r = cp_seq cp)) (db_checkpoints c) @
       [\<lparr>cr_ns = ns, cr_run_id = cp_run_id cp, cr_seq = cp_seq cp,
         cr_head_hash = blob (cp_head_hash cp), cr_ts = cp_ts cp, cr_key_id = cp_key_id cp,
         cr_sig = cp_sig cp\<rparr>]\<rparr>)) s) s"

section \<open>Listing runs\<close>

text \<open>
  The \<open>WHERE\<close> clauses of the query, in the order they are added; \<open>json_extract\<close> is SQLite's own
  function, the parameter \<open>X\<close>, which gives the text at a path or \<open>NULL\<close>.
\<close>

type_synonym json_extract = "string \<Rightarrow> string \<Rightarrow> string option"

definition agent_clause :: "run_query \<Rightarrow> run_row \<Rightarrow> bool" where
  "agent_clause q r = (case rq_agent q of None \<Rightarrow> True | Some a \<Rightarrow> rr_agent_name r = a)"

definition label_clause :: "json_extract \<Rightarrow> run_query \<Rightarrow> (run_row \<Rightarrow> bool) store_result" where
  "label_clause X q =
     (case rq_label q of
        None \<Rightarrow> Inr (\<lambda>r. True)
      | Some label \<Rightarrow>
          (case split_once (CHR ''='') label of
             None \<Rightarrow> Inl (Invalid ''label filter must be key=value'')
           | Some (k, v) \<Rightarrow> Inr (\<lambda>r. X (rr_labels r) (''$.'' @ k) = Some v)))"

definition since_clause :: "run_query \<Rightarrow> run_row \<Rightarrow> bool" where
  "since_clause q r = (case rq_since q of None \<Rightarrow> True | Some since \<Rightarrow> sql_le since (rr_started_ts r))"

definition after_key :: "int \<Rightarrow> string \<Rightarrow> run_row \<Rightarrow> bool" where
  "after_key ts i r \<longleftrightarrow> sint (rr_started_ts r) < ts \<or> (sint (rr_started_ts r) = ts \<and> i < rr_run_id r)"

definition cursor_clause :: "run_query \<Rightarrow> (run_row \<Rightarrow> bool) store_result" where
  "cursor_clause q =
     (case rq_cursor q of
        None \<Rightarrow> Inr (\<lambda>r. True)
      | Some cursor \<Rightarrow>
          (case split_once (CHR '':'') cursor of
             None \<Rightarrow> Inl (Invalid ''malformed cursor'')
           | Some (ts, i) \<Rightarrow>
               (case parse_i64 ts of
                  None \<Rightarrow> Inl (Invalid ''malformed cursor'')
                | Some ts \<Rightarrow> Inr (after_key ts i))))"

text \<open>\<open>ORDER BY started_ts DESC, run_id ASC\<close>\<close>

definition order_runs :: "run_row list \<Rightarrow> run_row list" where
  "order_runs rs = sort_key (\<lambda>r. - sint (rr_started_ts r)) (sort_key rr_run_id rs)"

text \<open>\<open>for r in rows { runs.push(r??); }\<close>\<close>

fun read_rows :: "json_lib \<Rightarrow> run_row list \<Rightarrow> run_envelope list store_result" where
  "read_rows J [] = Inr []"
| "read_rows J (r # rs) =
     (case row_to_envelope J r of
        Inl e \<Rightarrow> Inl e
      | Inr env \<Rightarrow> (case read_rows J rs of Inl e \<Rightarrow> Inl e | Inr envs \<Rightarrow> Inr (env # envs)))"

definition cursor_of :: "run_envelope \<Rightarrow> string" where
  "cursor_of env = dec (env_started_ts env) @ '':'' @ env_run_id env"

definition page_of :: "nat \<Rightarrow> run_envelope list \<Rightarrow> run_page" where
  "page_of limit runs =
     (if limit < length runs
      then \<lparr>rp_runs = take limit runs, rp_next_cursor = Some (cursor_of (last (take limit runs)))\<rparr>
      else \<lparr>rp_runs = runs, rp_next_cursor = None\<rparr>)"

definition list_runs ::
  "json_lib \<Rightarrow> json_extract \<Rightarrow> string \<Rightarrow> run_query \<Rightarrow> sys \<Rightarrow> db \<Rightarrow> run_page store_result \<times> db" where
  "list_runs J X ns q s = with_conn (\<lambda>c.
     let limit = unat (clamp 1 500 (case rq_limit q of None \<Rightarrow> 50 | Some l \<Rightarrow> l))
     in case label_clause X q of
          Inl e \<Rightarrow> (Inl e, c)
        | Inr labelled \<Rightarrow>
            (case cursor_clause q of
               Inl e \<Rightarrow> (Inl e, c)
             | Inr after \<Rightarrow> query (\<lambda>c.
                 let rows = filter (\<lambda>r. rr_ns r = ns \<and> agent_clause q r \<and> labelled r \<and>
                              since_clause q r \<and> after r) (db_runs c)
                 in case read_rows J (take (limit + 1) (order_runs rows)) of
                      Inl e \<Rightarrow> Inl e
                    | Inr runs \<Rightarrow> Inr (page_of limit runs)) s c)) s"

section \<open>The store\<close>

definition sqlite_store :: "json_lib \<Rightarrow> sha \<Rightarrow> json_extract \<Rightarrow> db tlr_store" where
  "sqlite_store J sha X =
     \<lparr>st_create_run = (\<lambda>ns new. call (create_run J sha ns new)),
      st_get_run = (\<lambda>ns i. call (get_run J ns i)),
      st_list_runs = (\<lambda>ns q. call (list_runs J X ns q)),
      st_append = (\<lambda>ns i ev key. call (store_append sha ns i ev key)),
      st_events = (\<lambda>ns i start limit. call (store_events J ns i start limit)),
      st_seal = (\<lambda>ns i. call (seal J sha ns i)),
      st_redact = (\<lambda>ns i seq fs a. call (redact J sha ns i seq fs a)),
      st_latest_checkpoint = (\<lambda>ns i. call (latest_checkpoint ns i)),
      st_put_checkpoint = (\<lambda>ns cp. call (put_checkpoint ns cp))\<rparr>"

end
