(* ===== verification/Record_Log.thy ===== *)
theory Record_Log
  imports Store
begin

text \<open>
  The contract of a record store, as its clients rely on it: a log of records that only
  \<open>append\<close> extends, one hashed event at a time, and that \<open>events\<close> reads in windows. The locale
  \<open>record_log\<close> states it for any implementation of the storage interface; the SQLite store is
  shown to keep it where it is proved correct.
\<close>

section \<open>The next event of a record\<close>

definition meta_ok :: "json_lib \<Rightarrow> string option \<Rightarrow> bool" where
  "meta_ok J m \<longleftrightarrow> (case m of None \<Rightarrow> True | Some t \<Rightarrow> raw_value J t = Some t)"

lemma meta_ok_simps [simp]:
  "meta_ok J None" "meta_ok J (Some t) \<longleftrightarrow> raw_value J t = Some t"
  by (simp_all add: meta_ok_def)

definition next_event ::
  "sha \<Rightarrow> u64 \<Rightarrow> event_kind \<Rightarrow> string option \<Rightarrow> string option \<Rightarrow> string option \<Rightarrow> string option
   \<Rightarrow> run_event list \<Rightarrow> run_event" where
  "next_event sha ts kind role name content metadata evs =
     with_hash sha
       \<lparr>ev_seq = of_nat (length evs), ev_ts = ts, ev_kind = kind, ev_role = role, ev_name = name,
        ev_content = content, ev_metadata = metadata, ev_redacted = None,
        ev_prev_hash = head_of_list evs, ev_hash = ZERO\<rparr>"

definition result_of :: "run_event \<Rightarrow> append_result" where
  "result_of e = \<lparr>ar_seq = ev_seq e, ar_ts = ev_ts e, ar_prev_hash = ev_prev_hash e,
     ar_hash = ev_hash e\<rparr>"

lemma next_event_simps [simp]:
  "ev_seq (next_event sha ts k ro n co m evs) = of_nat (length evs)"
  "ev_ts (next_event sha ts k ro n co m evs) = ts"
  "ev_kind (next_event sha ts k ro n co m evs) = k"
  "ev_role (next_event sha ts k ro n co m evs) = ro"
  "ev_name (next_event sha ts k ro n co m evs) = n"
  "ev_content (next_event sha ts k ro n co m evs) = co"
  "ev_metadata (next_event sha ts k ro n co m evs) = m"
  "ev_redacted (next_event sha ts k ro n co m evs) = None"
  "ev_prev_hash (next_event sha ts k ro n co m evs) = head_of_list evs"
  by (simp_all add: next_event_def with_hash_def)

lemma event_sound_next_event [simp]:
  "event_sound sha (length evs) (head_of_list evs) (next_event sha ts k ro n co m evs)"
  by (simp add: next_event_def event_sound_def)

lemma result_of_simps [simp]:
  "ar_seq (result_of e) = ev_seq e" "ar_ts (result_of e) = ev_ts e"
  "ar_prev_hash (result_of e) = ev_prev_hash e" "ar_hash (result_of e) = ev_hash e"
  by (simp_all add: result_of_def)

section \<open>The contract\<close>

definition quiet :: "sys \<Rightarrow> bool" where
  "quiet s \<longleftrightarrow> sys_fault s = NoFault"

lemma quiet_calm [simp]: "quiet (calm n)"
  by (simp add: quiet_def)

text \<open>The specification: a log maps a run to its record and whether it is sealed.\<close>

type_synonym log = "string \<times> string \<Rightarrow> (run_event list \<times> bool) option"

definition events_in :: "log \<Rightarrow> string \<times> string \<Rightarrow> run_event list" where
  "events_in L k = (case L k of None \<Rightarrow> [] | Some (evs, _) \<Rightarrow> evs)"

definition w_now :: "'s world \<Rightarrow> sys" where
  "w_now w = w_sys w (w_tick w)"

definition tick :: "'s world \<Rightarrow> 's world" where
  "tick w = w\<lparr>w_tick := Suc (w_tick w)\<rparr>"

definition calm_world :: "'s world \<Rightarrow> bool" where
  "calm_world w \<longleftrightarrow> (\<forall>t. quiet (w_sys w t))"

lemma tick_simps [simp]:
  "w_state (tick w) = w_state w" "w_sys (tick w) = w_sys w" "calm_world (tick w) = calm_world w"
  by (simp_all add: tick_def calm_world_def)

lemma calm_now [simp]: "calm_world w \<Longrightarrow> quiet (w_now w)"
  by (simp add: calm_world_def w_now_def)

definition event_for :: "sha \<Rightarrow> sys \<Rightarrow> new_event \<Rightarrow> run_event list \<Rightarrow> run_event" where
  "event_for sha s ev evs = next_event sha (now_ms s) (ne_kind ev) (ne_role ev) (ne_name ev)
     (ne_content ev) (ne_metadata ev) evs"

text \<open>
  \<open>good n s\<close>: the store satisfies its invariant and has room for \<open>n\<close> more events in the range
  of sequence numbers.
\<close>

locale record_log =
  fixes J :: json_lib and sha :: sha and S :: "'s tlr_store"
    and log :: "'s \<Rightarrow> log" and good :: "nat \<Rightarrow> 's \<Rightarrow> bool"
  assumes json: "good n s \<Longrightarrow> json_ok J"
    and good_less: "good (Suc n) s \<Longrightarrow> good n s"
    and sound: "good n s \<Longrightarrow> log s k = Some (evs, b) \<Longrightarrow> linked sha evs \<and> length evs < 2 ^ 63"
    and events_law: "good n (w_state w) \<Longrightarrow> snd (st_events S ns i 0 5000 w) = tick w"
    and events_quiet: "good n (w_state w) \<Longrightarrow> quiet (w_now w) \<Longrightarrow>
      fst (st_events S ns i 0 5000 w) = Inr (take 5000 (events_in (log (w_state w)) (ns, i)))"
    and append_sealed: "good (Suc n) (w_state w) \<Longrightarrow> quiet (w_now w) \<Longrightarrow>
      log (w_state w) (ns, i) = Some (evs, True) \<Longrightarrow>
      st_append S ns i ev None w = (Inl (Conflict ''run is sealed''), tick w)"
    and append_open: "good (Suc n) (w_state w) \<Longrightarrow> quiet (w_now w) \<Longrightarrow> meta_ok J (ne_metadata ev) \<Longrightarrow>
      log (w_state w) (ns, i) = Some (evs, False) \<Longrightarrow>
      \<exists>s. st_append S ns i ev None w
            = (Inr (result_of (event_for sha (w_now w) ev evs)), (tick w)\<lparr>w_state := s\<rparr>) \<and>
          good n s \<and>
          log s = (log (w_state w))((ns, i) \<mapsto> (evs @ [event_for sha (w_now w) ev evs], False))"
begin

lemma linked_log: "good n s \<Longrightarrow> linked sha (events_in (log s) k)"
  using sound[of n s k] by (auto simp: events_in_def split: option.split)

lemma length_log: "good n s \<Longrightarrow> length (events_in (log s) k) < 2 ^ 63"
  using sound[of n s k] by (auto simp: events_in_def split: option.split)

lemma distinct_seqs:
  assumes "good n s"
  shows "distinct (map ev_seq (events_in (log s) k))"
proof -
  let ?evs = "events_in (log s) k"
  have "ev_seq (?evs ! j) = of_nat j" if "j < length ?evs" for j
    using linked_nth[OF linked_log[OF assms] that] by (rule event_soundD)
  with length_log[OF assms, of k] show ?thesis
    by (auto simp: distinct_conv_nth)
qed

end

end
