(* ===== verification/Store_Inv.thy ===== *)
theory Store_Inv
  imports Sqlite Record_Log
begin

text \<open>
  What the SQLite store keeps true. \<open>record_of\<close> is the record of a run as its rows decode;
  \<open>store_inv\<close> says that every run's record is a sound chain whose head the run's row repeats,
  that a sealed run ends in \<open>run_finished\<close>, that the rows decode, and that a remembered
  idempotency key points at an event of the record. Appending, sealing, creating and redacting
  are rewritten to what they do to records (\<open>add_event\<close>, \<open>erase_event\<close>).
\<close>

definition rows_of :: "string \<Rightarrow> string \<Rightarrow> db \<Rightarrow> event_row list" where
  "rows_of ns run_id c = filter (event_at ns run_id) (db_events c)"

definition record_of :: "json_lib \<Rightarrow> string \<Rightarrow> string \<Rightarrow> db \<Rightarrow> run_event list" where
  "record_of J ns run_id c = map (row_to_event J) (rows_of ns run_id c)"

definition run_of :: "string \<Rightarrow> string \<Rightarrow> db \<Rightarrow> run_row option" where
  "run_of ns run_id c = find (run_at ns run_id) (db_runs c)"

definition row_ok :: "json_lib \<Rightarrow> event_row \<Rightarrow> bool" where
  "row_ok J r \<longleftrightarrow>
     kind_parse (er_kind r) \<noteq> None \<and>
     (case er_metadata r of None \<Rightarrow> True | Some m \<Rightarrow> raw_value J m = Some m) \<and>
     (case er_redacted r of None \<Rightarrow> True | Some t \<Rightarrow> hashes_from_str J t \<noteq> None) \<and>
     length (er_prev_hash r) = 32 \<and> length (er_hash r) = 32"

definition head_agrees :: "run_row \<Rightarrow> run_event list \<Rightarrow> bool" where
  "head_agrees r evs \<longleftrightarrow>
     rr_head_seq r = ev_seq (last evs) \<and> rr_head_hash r = blob (ev_hash (last evs)) \<and>
     rr_started_ts r = ev_ts (hd evs) \<and>
     (rr_ended_ts r \<noteq> None \<longrightarrow> ev_kind (last evs) = RunFinished)"

definition run_inv :: "json_lib \<Rightarrow> sha \<Rightarrow> string \<Rightarrow> string \<Rightarrow> db \<Rightarrow> bool" where
  "run_inv J sha ns run_id c \<longleftrightarrow>
     (case run_of ns run_id c of
        None \<Rightarrow> rows_of ns run_id c = []
      | Some r \<Rightarrow>
          record_of J ns run_id c \<noteq> [] \<and> linked sha (record_of J ns run_id c) \<and>
          ev_kind (hd (record_of J ns run_id c)) = RunStarted \<and>
          head_agrees r (record_of J ns run_id c))"

definition idem_points :: "idem_row \<Rightarrow> run_event \<Rightarrow> bool" where
  "idem_points r e \<longleftrightarrow> ir_seq r = ev_seq e \<and> ir_ts r = ev_ts e \<and>
     ir_prev_hash r = blob (ev_prev_hash e) \<and> ir_hash r = blob (ev_hash e)"

definition idem_inv :: "json_lib \<Rightarrow> db \<Rightarrow> bool" where
  "idem_inv J c \<longleftrightarrow>
     (\<forall>r \<in> set (db_idem c). list_ex (idem_points r) (record_of J (ir_ns r) (ir_run_id r) c))"

definition store_inv :: "json_lib \<Rightarrow> sha \<Rightarrow> db \<Rightarrow> bool" where
  "store_inv J sha c \<longleftrightarrow>
     (\<forall>ns run_id. run_inv J sha ns run_id c) \<and> list_all (row_ok J) (db_events c) \<and>
     idem_inv J c \<and> distinct (map (\<lambda>r. (rr_ns r, rr_run_id r)) (db_runs c)) \<and>
     list_all (\<lambda>r. length (cr_head_hash r) = 32) (db_checkpoints c)"

text \<open>Sequence numbers stay below \<open>2^63\<close>, where SQL's signed order is the order of numbers.\<close>

definition small :: "db \<Rightarrow> bool" where
  "small c \<longleftrightarrow> length (db_events c) < 2 ^ 63 - 1"

lemma store_invD:
  assumes "store_inv J sha c"
  shows "run_inv J sha ns run_id c" "list_all (row_ok J) (db_events c)" "idem_inv J c"
  using assms by (simp_all add: store_inv_def)

section \<open>Rows and events\<close>

definition row_of_event :: "string \<Rightarrow> string \<Rightarrow> run_event \<Rightarrow> event_row" where
  "row_of_event ns run_id e =
     \<lparr>er_ns = ns, er_run_id = run_id, er_seq = ev_seq e, er_ts = ev_ts e,
      er_kind = kind_str (ev_kind e), er_role = ev_role e, er_name = ev_name e,
      er_content = ev_content e, er_metadata = ev_metadata e, er_redacted = None,
      er_prev_hash = blob (ev_prev_hash e), er_hash = blob (ev_hash e)\<rparr>"

lemma hash_or_zero_blob [simp]: "hash_or_zero (blob h) = h"
  by (simp add: hash_or_zero_def blob_def)

lemma unblob_blob [simp]: "unblob (blob h) = Inr h"
  by (simp add: unblob_def blob_def)

lemma length_blob [simp]: "length (blob h) = 32"
  by (simp add: blob_def)

lemma blob_inject [simp]: "blob a = blob b \<longleftrightarrow> a = b"
  by (simp add: blob_def hash_bytes_inject)

lemma row_to_event_of_event [simp]:
  "meta_ok J (ev_metadata e) \<Longrightarrow> ev_redacted e = None \<Longrightarrow> row_to_event J (row_of_event ns run_id e) = e"
  by (cases "ev_metadata e") (simp_all add: row_to_event_def row_of_event_def)

lemma row_ok_of_event [simp]:
  "meta_ok J (ev_metadata e) \<Longrightarrow> row_ok J (row_of_event ns run_id e)"
  by (simp add: row_ok_def row_of_event_def meta_ok_def split: option.splits)

lemma event_at_of_event [simp]: "event_at ns' run_id' (row_of_event ns run_id e) \<longleftrightarrow> ns' = ns \<and> run_id' = run_id"
  by (auto simp: event_at_def row_of_event_def)

lemma row_to_event_simps [simp]:
  "ev_seq (row_to_event J r) = er_seq r" "ev_ts (row_to_event J r) = er_ts r"
  "ev_role (row_to_event J r) = er_role r" "ev_name (row_to_event J r) = er_name r"
  "ev_content (row_to_event J r) = er_content r"
  by (simp_all add: row_to_event_def)

section \<open>Adding an event to a run\<close>

definition add_event :: "string \<Rightarrow> string \<Rightarrow> run_event \<Rightarrow> db \<Rightarrow> db" where
  "add_event ns run_id e c = c
     \<lparr>db_events := db_events c @ [row_of_event ns run_id e],
      db_runs := map (\<lambda>r. if run_at ns run_id r
        then r\<lparr>rr_head_seq := ev_seq e, rr_head_hash := blob (ev_hash e)\<rparr> else r) (db_runs c)\<rparr>"

lemma add_event_simps [simp, frame_simps]:
  "db_idem (add_event ns run_id e c) = db_idem c"
  "db_checkpoints (add_event ns run_id e c) = db_checkpoints c"
  "db_events (add_event ns run_id e c) = db_events c @ [row_of_event ns run_id e]"
  by (simp_all add: add_event_def)

lemma rows_of_add_event:
  "rows_of ns' id' (add_event ns run_id e c)
     = rows_of ns' id' c @ (if ns' = ns \<and> id' = run_id then [row_of_event ns run_id e] else [])"
  by (simp add: rows_of_def)

lemma record_of_add_event [simp]:
  "meta_ok J (ev_metadata e) \<Longrightarrow> ev_redacted e = None \<Longrightarrow>
   record_of J ns' id' (add_event ns run_id e c)
     = record_of J ns' id' c @ (if ns' = ns \<and> id' = run_id then [e] else [])"
  by (simp add: record_of_def rows_of_add_event)

lemma find_map_keep:
  "(\<And>x. P (g x) \<longleftrightarrow> P x) \<Longrightarrow> find P (map g xs) = map_option g (find P xs)"
  by (induction xs) simp_all

lemma run_at_update [simp]:
  "run_at ns i (r\<lparr>rr_head_seq := a, rr_head_hash := b\<rparr>) = run_at ns i r"
  "run_at ns i (r\<lparr>rr_ended_ts := t\<rparr>) = run_at ns i r"
  by (simp_all add: run_at_def)

lemma find_SomeD: "find P xs = Some x \<Longrightarrow> P x \<and> x \<in> set xs"
  by (auto simp: find_Some_iff)

lemma run_at_unique: "run_at ns i r \<Longrightarrow> run_at ns' id' r \<longleftrightarrow> ns' = ns \<and> id' = i"
  by (auto simp: run_at_def)

lemma run_of_add_event:
  "run_of ns' id' (add_event ns run_id e c)
     = (if ns' = ns \<and> id' = run_id
        then map_option (\<lambda>r. r\<lparr>rr_head_seq := ev_seq e, rr_head_hash := blob (ev_hash e)\<rparr>)
               (run_of ns' id' c)
        else run_of ns' id' c)"
  unfolding run_of_def add_event_def
  by (auto simp: find_map_keep map_option_case dest!: find_SomeD split: option.split)
    (auto simp: run_at_def)

section \<open>Appending\<close>

text \<open>The row of a run that accepts events, with its head.\<close>

lemma run_inv_SomeD:
  assumes "run_inv J sha ns run_id c" and "run_of ns run_id c = Some r"
  shows "record_of J ns run_id c \<noteq> []" "linked sha (record_of J ns run_id c)"
    "ev_kind (hd (record_of J ns run_id c)) = RunStarted" "head_agrees r (record_of J ns run_id c)"
  using assms by (simp_all add: run_inv_def)

lemma head_of_run:
  assumes "run_inv J sha ns run_id c"
  shows "head_of ns run_id c =
    (case run_of ns run_id c of
       None \<Rightarrow> Inl NotFound
     | Some r \<Rightarrow> if rr_ended_ts r \<noteq> None then Inl (Conflict ''run is sealed'')
                else Inr (ev_seq (last (record_of J ns run_id c)),
                          head_of_list (record_of J ns run_id c)))"
proof (cases "run_of ns run_id c")
  case (Some r)
  note D = run_inv_SomeD[OF assms Some]
  from D(4) show ?thesis
    using Some D(1)
    by (simp add: head_of_def flip: run_of_def)
      (auto simp: head_agrees_def head_of_list_def split: option.splits)
qed (simp add: head_of_def flip: run_of_def)

lemma linked_last_seq: "linked sha evs \<Longrightarrow> evs \<noteq> [] \<Longrightarrow> ev_seq (last evs) + 1 = of_nat (length evs)"
  using linked_nth[of sha evs "length evs - 1"]
  by (cases evs rule: rev_cases) (auto simp: event_sound_def nth_append)

lemma linked_seq_nth: "linked sha evs \<Longrightarrow> i < length evs \<Longrightarrow> ev_seq (evs ! i) = of_nat i"
  using linked_nth[of sha evs i] by (simp add: event_sound_def)

lemma length_record_of: "length (record_of J ns run_id c) \<le> length (db_events c)"
  by (simp add: record_of_def rows_of_def)

lemma linked_seq_fresh:
  assumes "linked sha evs" and "length evs < 2 ^ 63" and "e \<in> set evs"
  shows "ev_seq e \<noteq> of_nat (length evs)"
proof -
  obtain i where i: "i < length evs" "e = evs ! i"
    using assms(3) by (auto simp: in_set_conv_nth)
  then show ?thesis
    using assms(1,2) linked_seq_nth[OF assms(1) i(1)] by simp
qed

lemma seq_unused:
  assumes "linked sha (record_of J ns run_id c)" and "small c"
  shows "\<not> list_ex (\<lambda>r. event_at ns run_id r \<and> er_seq r = of_nat (length (record_of J ns run_id c)))
    (db_events c)"
proof
  assume "list_ex (\<lambda>r. event_at ns run_id r \<and> er_seq r = of_nat (length (record_of J ns run_id c)))
    (db_events c)"
  then obtain r where "r \<in> set (rows_of ns run_id c)"
    "er_seq r = of_nat (length (record_of J ns run_id c))"
    by (auto simp: list_ex_iff rows_of_def)
  moreover from this(1) have "row_to_event J r \<in> set (record_of J ns run_id c)"
    by (simp add: record_of_def)
  ultimately show False
    using linked_seq_fresh[OF assms(1), of "row_to_event J r"] length_record_of[of J ns run_id c]
      assms(2) by (simp add: small_def)
qed

lemma write_event_eq:
  assumes "linked sha (record_of J ns run_id c)" and "small c"
    and "seq = of_nat (length (record_of J ns run_id c))"
    and "e = \<lparr>ev_seq = seq, ev_ts = ts, ev_kind = kind, ev_role = role, ev_name = name,
      ev_content = content, ev_metadata = metadata, ev_redacted = None, ev_prev_hash = prev,
      ev_hash = hash\<rparr>"
  shows "write_event ns run_id seq ts kind role name content metadata prev hash c
    = Inr (add_event ns run_id e c)"
  using seq_unused[OF assms(1,2)] unfolding assms(3,4)
  by (simp add: write_event_def add_event_def row_of_event_def)

lemma append_in_tx_eq:
  assumes "run_inv J sha ns run_id c" and "small c"
  shows "append_in_tx sha s ns run_id kind role name content metadata c =
    (case run_of ns run_id c of
       None \<Rightarrow> Inl NotFound
     | Some r \<Rightarrow> if rr_ended_ts r \<noteq> None then Inl (Conflict ''run is sealed'')
         else let e = next_event sha (now_ms s) kind role name content metadata
                        (record_of J ns run_id c)
              in Inr (result_of e, add_event ns run_id e c))"
proof (cases "run_of ns run_id c")
  case (Some r)
  note D = run_inv_SomeD[OF assms(1) Some]
  have seq: "ev_seq (last (record_of J ns run_id c)) + 1 = of_nat (length (record_of J ns run_id c))"
    using D by (intro linked_last_seq)
  show ?thesis
    using D(2) assms(2)
    by (simp add: append_in_tx_def head_of_run[OF assms(1)] Some seq Let_def
        write_event_eq[OF D(2) assms(2) refl refl])
      (simp add: result_of_def next_event_def with_hash_def core_def metadata_raw_def)
qed (simp add: append_in_tx_def head_of_run[OF assms(1)])

section \<open>Every operation keeps the invariant\<close>

lemma rows_of_Nil_iff: "rows_of ns i c = [] \<longleftrightarrow> record_of J ns i c = []"
  by (simp add: record_of_def)

lemma run_inv_cong:
  "run_of ns i c = run_of ns i c' \<Longrightarrow> record_of J ns i c = record_of J ns i c' \<Longrightarrow>
   run_inv J sha ns i c \<longleftrightarrow> run_inv J sha ns i c'"
  by (simp add: run_inv_def rows_of_Nil_iff[of _ _ _ J] split: option.split)

lemma idem_inv_mono:
  assumes "idem_inv J c" and "db_idem c' = db_idem c"
    and "\<And>ns i r. list_ex (idem_points r) (record_of J ns i c)
      \<Longrightarrow> list_ex (idem_points r) (record_of J ns i c')"
  shows "idem_inv J c'"
  using assms by (simp add: idem_inv_def)

lemma run_inv_add_event:
  assumes "\<And>ns i. run_inv J sha ns i c" and "run_of ns run_id c = Some r"
    and "rr_ended_ts r = None" and "meta_ok J m"
    and "e = next_event sha ts k ro n co m (record_of J ns run_id c)"
  shows "run_inv J sha ns' i (add_event ns run_id e c)"
proof (cases "ns' = ns \<and> i = run_id")
  case True
  note D = run_inv_SomeD[OF assms(1) assms(2)]
  from True assms(2-4) D show ?thesis
    by (simp add: run_inv_def run_of_add_event assms(5) head_agrees_def)
next
  case False
  then have "run_of ns' i (add_event ns run_id e c) = run_of ns' i c"
    "record_of J ns' i (add_event ns run_id e c) = record_of J ns' i c"
    using assms(4,5) by (auto simp: run_of_add_event)
  from run_inv_cong[OF this] assms(1)[of ns' i] show ?thesis by blast
qed

lemma store_inv_add_event:
  assumes "store_inv J sha c" and "run_of ns run_id c = Some r"
    and "rr_ended_ts r = None" and "meta_ok J m"
    and "e = next_event sha ts k ro n co m (record_of J ns run_id c)"
  shows "store_inv J sha (add_event ns run_id e c)"
proof -
  have "run_inv J sha ns' i (add_event ns run_id e c)" for ns' i
    using store_invD(1)[OF assms(1)] assms(2-5) by (rule run_inv_add_event)
  moreover have "idem_inv J (add_event ns run_id e c)"
    by (rule idem_inv_mono[OF store_invD(3)[OF assms(1)]]) (use assms(4,5) in simp_all)
  moreover have "map (\<lambda>r. (rr_ns r, rr_run_id r)) (db_runs (add_event ns run_id e c))
      = map (\<lambda>r. (rr_ns r, rr_run_id r)) (db_runs c)"
    by (simp add: add_event_def)
  ultimately show ?thesis
    using assms(1,4,5) by (simp add: store_inv_def)
qed

text \<open>Sealing also sets the end of the run, after a \<open>run_finished\<close> event.\<close>

definition end_run :: "string \<Rightarrow> string \<Rightarrow> u64 \<Rightarrow> db \<Rightarrow> db" where
  "end_run ns run_id ts c = c\<lparr>db_runs := map (\<lambda>r. if run_at ns run_id r
     then r\<lparr>rr_ended_ts := Some ts\<rparr> else r) (db_runs c)\<rparr>"

lemma end_run_simps [simp, frame_simps]:
  "db_idem (end_run ns run_id ts c) = db_idem c"
  "db_checkpoints (end_run ns run_id ts c) = db_checkpoints c"
  "db_events (end_run ns run_id ts c) = db_events c"
  "record_of J ns' i (end_run ns run_id ts c) = record_of J ns' i c"
  "rows_of ns' i (end_run ns run_id ts c) = rows_of ns' i c"
  by (simp_all add: end_run_def record_of_def rows_of_def)

lemma run_of_end_run:
  "run_of ns' i (end_run ns run_id ts c)
     = (if ns' = ns \<and> i = run_id
        then map_option (\<lambda>r. r\<lparr>rr_ended_ts := Some ts\<rparr>) (run_of ns' i c) else run_of ns' i c)"
  unfolding run_of_def end_run_def
  by (auto simp: find_map_keep map_option_case dest!: find_SomeD split: option.split)
    (auto simp: run_at_def)

lemma store_inv_end_run:
  assumes "store_inv J sha c"
    and "ev_kind (last (record_of J ns run_id c)) = RunFinished"
  shows "store_inv J sha (end_run ns run_id ts c)"
proof -
  have "run_inv J sha ns' i (end_run ns run_id ts c)" for ns' i
    using store_invD(1)[OF assms(1), of ns' i] assms(2)
    by (auto simp: run_inv_def run_of_end_run head_agrees_def split: option.splits)
  moreover have "idem_inv J (end_run ns run_id ts c)"
    by (rule idem_inv_mono[OF store_invD(3)[OF assms(1)]]) simp_all
  moreover have "map (\<lambda>r. (rr_ns r, rr_run_id r)) (db_runs (end_run ns run_id ts c))
      = map (\<lambda>r. (rr_ns r, rr_run_id r)) (db_runs c)"
    by (simp add: end_run_def)
  ultimately show ?thesis
    using assms(1) by (simp add: store_inv_def)
qed

lemma seal_tx_eq:
  assumes "run_inv J sha ns run_id c" and "small c"
  shows "seal_tx J sha s ns run_id c =
    (case run_of ns run_id c of
       None \<Rightarrow> Inl NotFound
     | Some r \<Rightarrow> if rr_ended_ts r \<noteq> None then Inl (Conflict ''run is sealed'')
         else let evs = record_of J ns run_id c;
                  e = next_event sha (now_ms s) RunFinished None None None
                        (Some (json_text J (json_norm (JObj
                          [(''event_count'', JNum (of_nat (Suc (length evs))))])))) evs
              in Inr (result_of e, end_run ns run_id (now_ms s) (add_event ns run_id e c)))"
proof (cases "run_of ns run_id c")
  case (Some r)
  note D = run_inv_SomeD[OF assms(1) Some]
  have "ev_seq (last (record_of J ns run_id c)) + 1 = of_nat (length (record_of J ns run_id c))"
    using D by (intro linked_last_seq)
  then have "ev_seq (last (record_of J ns run_id c)) + 1 + 1 = of_nat (Suc (length (record_of J ns run_id c)))"
    by simp
  then have "ev_seq (last (record_of J ns run_id c)) + 2 = of_nat (Suc (length (record_of J ns run_id c)))"
    by (simp only: add.assoc one_add_one)
  then show ?thesis
    by (simp add: seal_tx_def head_of_run[OF assms(1)] append_in_tx_eq[OF assms] Some Let_def
        end_run_def del: json_norm.simps of_nat_Suc)
qed (simp add: seal_tx_def head_of_run[OF assms(1)])

section \<open>Creating a run\<close>

definition run_row_of :: "json_lib \<Rightarrow> string \<Rightarrow> new_run \<Rightarrow> u64 \<Rightarrow> hash \<Rightarrow> run_row" where
  "run_row_of J ns new ts hash =
     \<lparr>rr_ns = ns, rr_run_id = nr_run_id new, rr_started_ts = ts, rr_ended_ts = None,
      rr_agent_name = ag_name (nr_agent new), rr_agent_version = ag_version (nr_agent new),
      rr_subject_ref = nr_subject_ref new,
      rr_labels = json_text J (json_of_labels (nr_labels new)),
      rr_head_seq = 0, rr_head_hash = blob hash\<rparr>"

definition first_event :: "json_lib \<Rightarrow> sha \<Rightarrow> u64 \<Rightarrow> new_run \<Rightarrow> run_event" where
  "first_event J sha ts new =
     next_event sha ts RunStarted None None None (Some (json_text J (envelope_meta new))) []"

definition open_run :: "json_lib \<Rightarrow> sha \<Rightarrow> u64 \<Rightarrow> string \<Rightarrow> new_run \<Rightarrow> db \<Rightarrow> db" where
  "open_run J sha ts ns new c =
     (let e = first_event J sha ts new
      in add_event ns (nr_run_id new) e
           (c\<lparr>db_runs := db_runs c @ [run_row_of J ns new ts (ev_hash e)]\<rparr>))"

lemma find_None_list_ex: "find P xs = None \<longleftrightarrow> \<not> list_ex P xs"
  by (auto simp: find_None_iff list_ex_iff)

lemma create_run_tx_eq:
  assumes "run_inv J sha ns (nr_run_id new) c" and "small c"
  shows "create_run_tx J sha s ns new c =
    (if run_of ns (nr_run_id new) c \<noteq> None
     then Inl (Conflict (''run '' @ nr_run_id new @ '' already exists''))
     else Inr
       (\<lparr>env_run_id = nr_run_id new, env_started_ts = now_ms s, env_ended_ts = None,
         env_agent = nr_agent new, env_subject_ref = nr_subject_ref new,
         env_labels = nr_labels new, env_head_seq = 0,
         env_head_hash = ev_hash (first_event J sha (now_ms s) new)\<rparr>,
        open_run J sha (now_ms s) ns new c))"
proof (cases "run_of ns (nr_run_id new) c")
  case None
  define c1 where "c1 h = c\<lparr>db_runs := db_runs c @ [run_row_of J ns new (now_ms s) h]\<rparr>" for h
  have empty: "record_of J ns (nr_run_id new) (c1 h) = []" for h
    using assms(1) None by (simp add: run_inv_def record_of_def c1_def rows_of_def)
  have small: "small (c1 h)" for h using assms(2) by (simp add: small_def c1_def)
  have linked: "linked sha (record_of J ns (nr_run_id new) (c1 h))" for h by (simp add: empty)
  have zero: "0 = of_nat (length (record_of J ns (nr_run_id new) (c1 h)))" for h by (simp add: empty)
  note ins = write_event_eq[OF linked small zero refl, unfolded c1_def run_row_of_def]
  have "\<not> list_ex (run_at ns (nr_run_id new)) (db_runs c)"
    using None by (simp add: run_of_def find_None_list_ex)
  with None show ?thesis
    by (simp add: create_run_tx_def Let_def ins open_run_def run_row_of_def)
      (simp add: first_event_def next_event_def with_hash_def core_def metadata_raw_def)
next
  case (Some r)
  then have "list_ex (run_at ns (nr_run_id new)) (db_runs c)"
    using find_None_list_ex[of "run_at ns (nr_run_id new)" "db_runs c"] by (simp add: run_of_def)
  with Some show ?thesis by (simp add: create_run_tx_def)
qed

lemma find_snoc:
  "find P (xs @ [x]) = (case find P xs of Some y \<Rightarrow> Some y | None \<Rightarrow> if P x then Some x else None)"
  by (induction xs) simp_all

lemma run_of_snoc:
  "run_of ns i (c\<lparr>db_runs := db_runs c @ [r]\<rparr>)
     = (case run_of ns i c of Some r' \<Rightarrow> Some r' | None \<Rightarrow> if run_at ns i r then Some r else None)"
  by (simp add: run_of_def find_snoc)

lemma run_of_open_run:
  "run_of ns' i (open_run J sha ts ns new c)
     = (case run_of ns' i c of
          Some r \<Rightarrow> if ns' = ns \<and> i = nr_run_id new
            then Some (r\<lparr>rr_head_seq := 0, rr_head_hash := blob (ev_hash (first_event J sha ts new))\<rparr>)
            else Some r
        | None \<Rightarrow> if ns' = ns \<and> i = nr_run_id new
            then Some (run_row_of J ns new ts (ev_hash (first_event J sha ts new))) else None)"
  by (auto simp: open_run_def Let_def run_of_add_event run_of_snoc run_at_def run_row_of_def
      first_event_def split: option.splits)

lemma first_event_simps [simp]:
  "ev_seq (first_event J sha ts new) = 0" "ev_ts (first_event J sha ts new) = ts"
  "ev_kind (first_event J sha ts new) = RunStarted" "ev_redacted (first_event J sha ts new) = None"
  "ev_metadata (first_event J sha ts new) = Some (json_text J (envelope_meta new))"
  "event_sound sha 0 ZERO (first_event J sha ts new)"
  using event_sound_next_event[of sha "[]"]
  by (simp_all add: first_event_def)

lemma json_plain_labels [simp]: "json_plain (json_of_labels m)"
  by (auto simp: json_of_labels_def list_all_iff)

lemma json_plain_envelope [simp]: "json_plain (envelope_meta new)"
  by (simp add: envelope_meta_def split: option.split)

lemma record_of_open_run:
  "json_ok J \<Longrightarrow> record_of J ns' i (open_run J sha ts ns new c)
     = record_of J ns' i c @ (if ns' = ns \<and> i = nr_run_id new then [first_event J sha ts new] else [])"
  by (simp add: open_run_def Let_def) (simp add: record_of_def rows_of_def)

lemma open_run_simps [simp, frame_simps]:
  "db_idem (open_run J sha ts ns new c) = db_idem c"
  "db_checkpoints (open_run J sha ts ns new c) = db_checkpoints c"
  "db_events (open_run J sha ts ns new c)
     = db_events c @ [row_of_event ns (nr_run_id new) (first_event J sha ts new)]"
  by (simp_all add: open_run_def Let_def)

lemma run_keys_open_run:
  "map (\<lambda>r. (rr_ns r, rr_run_id r)) (db_runs (open_run J sha ts ns new c))
     = map (\<lambda>r. (rr_ns r, rr_run_id r)) (db_runs c) @ [(ns, nr_run_id new)]"
  by (simp add: open_run_def Let_def add_event_def run_row_of_def)

lemma run_of_None_iff: "run_of ns i c = None \<longleftrightarrow> (ns, i) \<notin> set (map (\<lambda>r. (rr_ns r, rr_run_id r)) (db_runs c))"
  by (auto simp: run_of_def find_None_iff run_at_def)

lemma store_inv_open_run:
  assumes "store_inv J sha c" and "json_ok J" and "run_of ns (nr_run_id new) c = None"
  shows "store_inv J sha (open_run J sha ts ns new c)"
proof -
  have "run_inv J sha ns' i (open_run J sha ts ns new c)" for ns' i
    using store_invD(1)[OF assms(1), of ns' i] assms(2,3)
    by (auto simp: run_inv_def run_of_open_run record_of_open_run rows_of_Nil_iff[of _ _ _ J]
        head_agrees_def run_row_of_def split: option.splits)
  moreover have "idem_inv J (open_run J sha ts ns new c)"
    by (rule idem_inv_mono[OF store_invD(3)[OF assms(1)]])
      (simp_all add: record_of_open_run[OF assms(2)])
  ultimately show ?thesis
    using assms unfolding store_inv_def run_keys_open_run run_of_None_iff by simp
qed

section \<open>Redacting\<close>

lemma those_Some: "(\<And>x. x \<in> set xs \<Longrightarrow> f x = Some (g x)) \<Longrightarrow> those (map f xs) = Some (map g xs)"
  by (induction xs) simp_all

lemma hashes_round_trip [simp]:
  assumes "json_ok J" and "bt_ok m"
  shows "hashes_from_str J (json_text J (json_of_hashes m)) = Some m"
proof -
  have "json_plain (json_of_hashes m)"
    by (auto simp: json_of_hashes_def list_all_iff)
  moreover have "json_norm (json_of_hashes m) = JObj (map (\<lambda>(k, h). (k, JStr (to_hex h))) m)"
    using assms(2) by (simp add: json_of_hashes_def bt_ok_def comp_def case_prod_unfold)
  moreover have "those (map member_hash (map (\<lambda>(k, h). (k, JStr (to_hex h))) m)) = Some m"
    using those_Some[of m "\<lambda>p. member_hash (case p of (k, h) \<Rightarrow> (k, JStr (to_hex h)))" "\<lambda>p. p"]
    by (auto simp: comp_def from_hex_to_hex)
  ultimately show ?thesis
    using assms by (simp add: hashes_from_str_def)
qed

lemma bt_ok_hashes: "hashes_from_str J t = Some m \<Longrightarrow> bt_ok m"
  by (cases "json_parse J t"; cases "the (json_parse J t)")
    (auto simp: hashes_from_str_def Option.bind_eq_Some_conv)

text \<open>The row after the loop: the columns of the fields that were present are \<open>NULL\<close>.\<close>

definition clear_columns :: "event_row \<Rightarrow> string list \<Rightarrow> event_row \<Rightarrow> event_row" where
  "clear_columns row fs r =
     foldl (\<lambda>r f. if column row f = None then r else clear_column f r) r fs"

lemma clear_column_key [simp]:
  "event_at ns i (clear_column f r) = event_at ns i r" "er_seq (clear_column f r) = er_seq r"
  by (simp_all add: clear_column_def event_at_def)

lemma clear_columns_key [simp]:
  "event_at ns i (clear_columns row fs r) = event_at ns i r"
  "er_seq (clear_columns row fs r) = er_seq r"
  unfolding clear_columns_def by (induction fs arbitrary: r) auto

lemma update_event_comp:
  assumes "\<And>r. event_at ns i (g r) = event_at ns i r" and "\<And>r. er_seq (g r) = er_seq r"
  shows "update_event ns i seq f (update_event ns i seq g c) = update_event ns i seq (f \<circ> g) c"
  using assms by (simp add: update_event_def comp_def)

lemma update_event_cong:
  "(\<And>r. r \<in> set (db_events c) \<Longrightarrow> event_at ns i r \<Longrightarrow> er_seq r = seq \<Longrightarrow> f r = g r) \<Longrightarrow>
   update_event ns i seq f c = update_event ns i seq g c"
  by (simp add: update_event_def)

lemma clear_columns_snoc:
  "clear_columns row (fs @ [f])
     = (if column row f = None then clear_columns row fs else clear_column f \<circ> clear_columns row fs)"
  by (rule ext) (simp add: clear_columns_def)

lemma clear_columns_Nil: "clear_columns row [] = (\<lambda>r. r)"
  by (rule ext) (simp add: clear_columns_def)

lemma redact_loop:
  "foldl (redact_field sha ns i seq row) (kept, c) fs =
     (foldl (\<lambda>m f. case column row f of None \<Rightarrow> m | Some v \<Rightarrow> bt_insert f (sha (as_bytes v)) m) kept fs,
      update_event ns i seq (clear_columns row fs) c)"
proof (induction fs rule: rev_induct)
  case Nil
  show ?case by (simp add: clear_columns_Nil update_event_def)
next
  case (snoc f fs)
  then show ?case
    by (cases "column row f")
      (simp_all add: redact_field_def update_event_comp clear_columns_snoc comp_def)
qed

text \<open>What the loop does to the row is the erasure of its event.\<close>

lemma column_field: "meta_ok J (er_metadata row) \<Longrightarrow> column row f = field_of (row_to_event J row) f"
  by (cases "er_metadata row")
    (auto simp: column_def field_of_def core_fields_def core_def metadata_raw_def row_to_event_def)

lemma clear_columns_value:
  "clear_columns row fs row = row
     \<lparr>er_role := (if ''role'' \<in> set fs then None else er_role row),
      er_name := (if ''name'' \<in> set fs then None else er_name row),
      er_content := (if ''content'' \<in> set fs then None else er_content row),
      er_metadata := (if ''metadata'' \<in> set fs then None else er_metadata row)\<rparr>"
proof (induction fs rule: rev_induct)
  case (snoc f fs)
  then show ?case
    by (cases row) (simp add: clear_columns_snoc clear_column_def column_def)
qed (simp add: clear_columns_Nil)

definition redacted_row :: "json_lib \<Rightarrow> sha \<Rightarrow> string list \<Rightarrow> event_row \<Rightarrow> event_row" where
  "redacted_row J sha fs row = (clear_columns row fs row)
     \<lparr>er_redacted := Some (json_text J (json_of_hashes
        (kept_digests sha fs (row_to_event J row))))\<rparr>"

lemma row_okD: "row_ok J r \<Longrightarrow> meta_ok J (er_metadata r)"
  by (auto simp: row_ok_def meta_ok_def split: option.splits)

lemma bt_ok_kept:
  "bt_ok m \<Longrightarrow> bt_ok (foldl (\<lambda>m f. case g f of None \<Rightarrow> m | Some v \<Rightarrow> bt_insert f (h v) m) m fs)"
  by (induction fs arbitrary: m) (auto split: option.split)

lemma bt_ok_kept_digests: "bt_ok (kept_digests sha fs (row_to_event J row))"
  unfolding kept_digests_def row_to_event_def
  by (intro bt_ok_kept) (auto split: option.split dest: bt_ok_hashes simp: bt_ok_def[of "[]"] bind_eq_Some_conv)

lemma redacted_row_event:
  assumes "json_ok J" and "row_ok J row"
  shows "row_to_event J (redacted_row J sha fs row) = erase_event sha fs (row_to_event J row)"
  using hashes_round_trip[OF assms(1) bt_ok_kept_digests[of sha fs J row]]
  by (simp add: redacted_row_def clear_columns_value erase_event_def row_to_event_def)

lemma redacted_row_ok:
  assumes "json_ok J" and "row_ok J row"
  shows "row_ok J (redacted_row J sha fs row)"
  using assms hashes_round_trip[OF assms(1) bt_ok_kept_digests[of sha fs J row]]
  by (simp add: redacted_row_def clear_columns_value row_ok_def split: option.splits)

definition redact_row :: "json_lib \<Rightarrow> sha \<Rightarrow> string \<Rightarrow> string \<Rightarrow> u64 \<Rightarrow> string list \<Rightarrow> db \<Rightarrow> db" where
  "redact_row J sha ns run_id seq fs c = update_event ns run_id seq (redacted_row J sha fs) c"

lemma rows_linked_seq:
  assumes "linked sha (record_of J ns i c)" and "k < length (rows_of ns i c)"
  shows "er_seq (rows_of ns i c ! k) = of_nat k"
  using linked_seq_nth[OF assms(1), of k] assms(2) by (simp add: record_of_def)

lemma length_rows_of: "length (rows_of ns i c) \<le> length (db_events c)"
  by (simp add: rows_of_def)

lemma row_index:
  assumes "linked sha (record_of J ns i c)" and "small c" and "r \<in> set (db_events c)" and "event_at ns i r"
  shows "unat (er_seq r) < length (rows_of ns i c) \<and> rows_of ns i c ! unat (er_seq r) = r"
proof -
  have "r \<in> set (rows_of ns i c)" using assms(3,4) by (simp add: rows_of_def)
  then obtain k where k: "k < length (rows_of ns i c)" "rows_of ns i c ! k = r"
    by (auto simp: in_set_conv_nth)
  then have "er_seq r = of_nat k" using rows_linked_seq[OF assms(1) k(1)] by simp
  moreover have "k < 2 ^ 64"
    using k(1) length_rows_of[of ns i c] assms(2) by (simp add: small_def)
  ultimately have "unat (er_seq r) = k" by (simp add: unat_of_nat_u64)
  with k show ?thesis by simp
qed

lemma rows_of_update_event:
  assumes "\<And>r. event_at ns i (g r) = event_at ns i r"
    and "\<And>r ns' i'. event_at ns i r \<Longrightarrow> event_at ns' i' (g r) \<longleftrightarrow> ns' = ns \<and> i' = i"
  shows "rows_of ns' i' (update_event ns i seq g c)
    = (if ns' = ns \<and> i' = i
       then map (\<lambda>r. if er_seq r = seq then g r else r) (rows_of ns i c) else rows_of ns' i' c)"
proof -
  have at: "event_at ns i r \<Longrightarrow> event_at ns' i' r \<longleftrightarrow> ns' = ns \<and> i' = i" for r
    by (auto simp: event_at_def)
  have "filter (event_at ns' i') (map (\<lambda>r. if event_at ns i r \<and> er_seq r = seq then g r else r) rs)
    = (if ns' = ns \<and> i' = i
       then map (\<lambda>r. if er_seq r = seq then g r else r) (filter (event_at ns i) rs)
       else filter (event_at ns' i') rs)" for rs
    by (induction rs) (auto simp: assms at)
  then show ?thesis by (simp add: rows_of_def update_event_def)
qed

lemma map_at_index:
  assumes "\<And>k. k < length rs \<Longrightarrow> f (rs ! k) \<longleftrightarrow> k = n"
  shows "map (\<lambda>r. if f r then g r else r) rs = rs[n := g (rs ! n)]"
  by (rule nth_equalityI) (auto simp: assms nth_list_update)

lemma event_at_unique: "event_at ns i r \<Longrightarrow> event_at ns' i' r \<longleftrightarrow> ns' = ns \<and> i' = i"
  by (auto simp: event_at_def)

lemma event_at_redacted [simp]:
  "event_at ns i (redacted_row J sha fs r) = event_at ns i r"
  "er_seq (redacted_row J sha fs r) = er_seq r"
  by (simp_all add: redacted_row_def clear_columns_value event_at_def)

lemma record_of_redact_row:
  assumes "json_ok J" and "list_all (row_ok J) (db_events c)" and "small c"
    and "linked sha (record_of J ns i c)"
  shows "record_of J ns' i' (redact_row J sha ns i seq fs c)
    = (if ns' = ns \<and> i' = i
       then (record_of J ns i c)[unat seq := erase_event sha fs (record_of J ns i c ! unat seq)]
       else record_of J ns' i' c)"
proof -
  have "er_seq (rows_of ns i c ! k) = seq \<longleftrightarrow> k = unat seq" if "k < length (rows_of ns i c)" for k
  proof -
    have "k < 2 ^ 64" using that length_rows_of[of ns i c] assms(3) by (simp add: small_def)
    then show ?thesis
      using rows_linked_seq[OF assms(4) that] by (auto simp: unat_of_nat_u64)
  qed
  then have map: "map (\<lambda>r. if er_seq r = seq then redacted_row J sha fs r else r) (rows_of ns i c)
    = (rows_of ns i c)[unat seq := redacted_row J sha fs (rows_of ns i c ! unat seq)]"
    by (rule map_at_index)
  have rows: "rows_of ns' i' (redact_row J sha ns i seq fs c) =
    (if ns' = ns \<and> i' = i
     then (rows_of ns i c)[unat seq := redacted_row J sha fs (rows_of ns i c ! unat seq)]
     else rows_of ns' i' c)"
    unfolding redact_row_def
    by (subst rows_of_update_event) (auto simp: map event_at_unique[of ns i])
  show ?thesis
  proof (cases "unat seq < length (rows_of ns i c)")
    case True
    then have "rows_of ns i c ! unat seq \<in> set (rows_of ns i c)" by simp
    then have "rows_of ns i c ! unat seq \<in> set (db_events c)" by (simp add: rows_of_def)
    then have "row_ok J (rows_of ns i c ! unat seq)" using assms(2) by (simp add: list_all_iff)
    with True show ?thesis
      by (simp add: record_of_def rows map_update redacted_row_event[OF assms(1)])
  next
    case False
    then show ?thesis by (simp add: record_of_def rows list_update_beyond)
  qed
qed

lemma linked_erase [simp]:
  "linked sha (evs[k := erase_event sha fs (evs ! k)]) \<longleftrightarrow> linked sha evs"
proof -
  have "linked sha xs \<longleftrightarrow> (\<exists>h. verify_from sha 0 ZERO xs = Inr h)" for xs
    by (simp add: verify_from_Inr_iff)
  then show ?thesis by (simp only: verify_from_erase)
qed

lemma erase_frame:
  assumes "\<And>e. f (erase_event sha fs e) = f e"
  shows "f ((evs[k := erase_event sha fs (evs ! k)]) ! j) = f (evs ! j)"
    and "evs \<noteq> [] \<Longrightarrow> f (last (evs[k := erase_event sha fs (evs ! k)])) = f (last evs)"
    and "evs \<noteq> [] \<Longrightarrow> f (hd (evs[k := erase_event sha fs (evs ! k)])) = f (hd evs)"
  by (simp_all add: assms last_conv_nth nth_update_same hd_list_update) (simp add: assms hd_conv_nth)

lemma list_ex_erase:
  assumes "\<And>e. f (erase_event sha fs e) = f e"
  shows "list_ex f (evs[k := erase_event sha fs (evs ! k)]) \<longleftrightarrow> list_ex f evs"
  by (simp add: list_ex_length erase_frame(1)[of f, OF assms])

lemma redact_row_simps [simp, frame_simps]:
  "db_idem (redact_row J sha ns i seq fs c) = db_idem c"
  "db_checkpoints (redact_row J sha ns i seq fs c) = db_checkpoints c"
  "db_runs (redact_row J sha ns i seq fs c) = db_runs c"
  "length (db_events (redact_row J sha ns i seq fs c)) = length (db_events c)"
  "run_of ns' i' (redact_row J sha ns i seq fs c) = run_of ns' i' c"
  by (simp_all add: redact_row_def update_event_def run_of_def)

lemma head_agrees_erase:
  assumes "evs \<noteq> []"
  shows "head_agrees r (evs[k := erase_event sha fs (evs ! k)]) \<longleftrightarrow> head_agrees r evs"
  using assms by (simp add: head_agrees_def erase_frame(2,3))

lemma linked_of_inv: "run_inv J sha ns i c \<Longrightarrow> linked sha (record_of J ns i c)"
  by (auto simp: run_inv_def rows_of_Nil_iff[of _ _ _ J] split: option.splits)

lemma store_inv_redact_row:
  assumes "store_inv J sha c" and "json_ok J" and "small c"
  shows "store_inv J sha (redact_row J sha ns i seq fs c)"
proof -
  note inv = store_invD[OF assms(1)]
  note rec = record_of_redact_row[OF assms(2) inv(2) assms(3) linked_of_inv[OF inv(1)]]
  have "run_inv J sha ns' i' (redact_row J sha ns i seq fs c)" for ns' i'
    using inv(1)[of ns' i']
    by (auto simp: run_inv_def rec rows_of_Nil_iff[of _ _ _ J] head_agrees_erase
        erase_frame(3)[of ev_kind] split: option.splits)
  moreover have "idem_inv J (redact_row J sha ns i seq fs c)"
  proof (rule idem_inv_mono[OF inv(3)])
    show "list_ex (idem_points r) (record_of J ns' i' (redact_row J sha ns i seq fs c))"
      if "list_ex (idem_points r) (record_of J ns' i' c)" for ns' i' r
      using that list_ex_erase[of "idem_points r" sha fs] by (auto simp: rec idem_points_def)
  qed simp
  moreover have "list_all (row_ok J) (db_events (redact_row J sha ns i seq fs c))"
    using inv(2) redacted_row_ok[OF assms(2)]
    by (auto simp: redact_row_def update_event_def list_all_iff)
  ultimately show ?thesis
    using assms(1) by (simp add: store_inv_def)
qed

lemma redact_tx_eq:
  assumes "store_inv J sha c" and "small c"
  shows "redact_tx J sha s ns i seq fs authority c =
    (if unat seq < length (record_of J ns i c)
     then append_in_tx sha s ns i Redaction None None None
            (Some (json_text J (redaction_meta seq fs authority))) (redact_row J sha ns i seq fs c)
     else Inl NotFound)"
proof -
  note inv = store_invD[OF assms(1)]
  note idx = row_index[OF linked_of_inv[OF inv(1)] assms(2)]
  show ?thesis
  proof (cases "find (\<lambda>r. event_at ns i r \<and> er_seq r = seq) (db_events c)")
    case None
    have "\<not> unat seq < length (rows_of ns i c)"
    proof
      assume lt: "unat seq < length (rows_of ns i c)"
      then have "rows_of ns i c ! unat seq \<in> set (rows_of ns i c)" by simp
      then have "event_at ns i (rows_of ns i c ! unat seq) \<and> rows_of ns i c ! unat seq \<in> set (db_events c)"
        by (simp add: rows_of_def)
      moreover have "er_seq (rows_of ns i c ! unat seq) = seq"
        using rows_linked_seq[OF linked_of_inv[OF inv(1)] lt] by simp
      ultimately show False using None by (auto simp: find_None_iff)
    qed
    with None show ?thesis by (simp add: redact_tx_def record_of_def)
  next
    case (Some row)
    then have row: "event_at ns i row" "er_seq row = seq" "row \<in> set (db_events c)"
      using find_SomeD by fastforce+
    then have "unat seq < length (rows_of ns i c)" and "rows_of ns i c ! unat seq = row"
      using idx[of row] by auto
    moreover have only: "r = row" if "r \<in> set (db_events c)" "event_at ns i r" "er_seq r = seq" for r
      using idx[OF that(1,2)] that(3) calculation(2) by simp
    have ok: "row_ok J row" using inv(2) row(3) by (simp add: list_all_iff)
    have kept: "foldl (\<lambda>m f. case column row f of None \<Rightarrow> m | Some v \<Rightarrow> bt_insert f (sha (as_bytes v)) m)
        (case Option.bind (er_redacted row) (hashes_from_str J) of None \<Rightarrow> [] | Some m \<Rightarrow> m) fs
      = kept_digests sha fs (row_to_event J row)"
      by (simp add: kept_digests_def column_field[OF row_okD[OF ok]] row_to_event_def)
    have upd: "update_event ns i seq
        (\<lambda>r. r\<lparr>er_redacted := Some (json_text J (json_of_hashes (kept_digests sha fs (row_to_event J row))))\<rparr>)
        (update_event ns i seq (clear_columns row fs) c) = redact_row J sha ns i seq fs c"
      unfolding redact_row_def
      by (subst update_event_comp)
        (auto simp: comp_def redacted_row_def dest!: only intro!: update_event_cong)
    ultimately show ?thesis
      by (simp add: redact_tx_def Some redact_loop kept upd record_of_def)
  qed
qed

end
