(* ===== verification/Store_Ops.thy ===== *)
theory Store_Ops
  imports Store_Inv "HOL-Library.Sublist"
begin

text \<open>
  The operations of the SQLite store as steps. Each is first reduced to its effect (nothing, or
  one of the rewritings of \<open>Store_Inv\<close>); the invariant, the append-only order of every record,
  the immutability of a sealed run and the permanence of idempotency keys follow for any
  sequence of operations, under any clock and any faults.
\<close>

datatype store_op =
  OpCreate string new_run
| OpAppend string string new_event "string option"
| OpSeal string string
| OpRedact string string u64 "string list" string
| OpPut string checkpoint
| OpGet string string
| OpEvents string string u64 u32
| OpLatest string string

fun apply_op :: "json_lib \<Rightarrow> sha \<Rightarrow> store_op \<Rightarrow> sys \<Rightarrow> db \<Rightarrow> db" where
  "apply_op J sha (OpCreate ns new) s c = snd (create_run J sha ns new s c)"
| "apply_op J sha (OpAppend ns i ev key) s c = snd (store_append sha ns i ev key s c)"
| "apply_op J sha (OpSeal ns i) s c = snd (seal J sha ns i s c)"
| "apply_op J sha (OpRedact ns i seq fs a) s c = snd (redact J sha ns i seq fs a s c)"
| "apply_op J sha (OpPut ns cp) s c = snd (put_checkpoint ns cp s c)"
| "apply_op J sha (OpGet ns i) s c = snd (get_run J ns i s c)"
| "apply_op J sha (OpEvents ns i start limit) s c = snd (store_events J ns i start limit s c)"
| "apply_op J sha (OpLatest ns i) s c = snd (latest_checkpoint ns i s c)"

text \<open>Metadata reaches the store as \<open>RawValue\<close>, so it is JSON text.\<close>

fun op_ok :: "json_lib \<Rightarrow> store_op \<Rightarrow> bool" where
  "op_ok J (OpAppend ns i ev key) \<longleftrightarrow> meta_ok J (ne_metadata ev)"
| "op_ok J op \<longleftrightarrow> True"

definition run_ops :: "json_lib \<Rightarrow> sha \<Rightarrow> (store_op \<times> sys) list \<Rightarrow> db \<Rightarrow> db" where
  "run_ops J sha ops c = foldl (\<lambda>c (op, s). apply_op J sha op s c) c ops"

section \<open>Calls\<close>

lemma with_conn_quiet [simp]: "quiet s \<Longrightarrow> with_conn f s c = f c"
  by (simp add: with_conn_def quiet_def)

lemma query_quiet [simp]: "quiet s \<Longrightarrow> query f s c = (f c, c)"
  by (simp add: query_def begin_stmt_def quiet_def)

lemma begin_stmt_quiet [simp]: "quiet s \<Longrightarrow> begin_stmt s = Inr ()"
  by (simp add: begin_stmt_def quiet_def)

lemma end_tx_quiet [simp]:
  "quiet s \<Longrightarrow> end_tx s c r = (case r of Inl e \<Rightarrow> (Inl e, c) | Inr (a, tx) \<Rightarrow> (Inr a, tx))"
  by (auto simp: end_tx_def quiet_def split: sum.split)

lemma tx_immediate_quiet [simp]:
  "quiet s \<Longrightarrow> tx_immediate f s c = (case f c of Inl e \<Rightarrow> (Inl e, c) | Inr (a, tx) \<Rightarrow> (Inr a, tx))"
  by (simp add: tx_immediate_def)

text \<open>Whatever the faults, a call changes nothing or commits what its body computed.\<close>

lemma with_conn_cases:
  "(\<exists>e. with_conn f s c = (Inl e, c)) \<or> with_conn f s c = f c"
  by (simp add: with_conn_def split: fault.split)

lemma query_call_cases:
  "(\<exists>e. with_conn (query f s) s c = (Inl e, c)) \<or> with_conn (query f s) s c = (f c, c)"
  by (cases "sys_fault s") (simp_all add: with_conn_def query_def begin_stmt_def)

lemma end_tx_cases:
  "(\<exists>e. end_tx s c r = (Inl e, c)) \<or> (\<exists>a tx. r = Inr (a, tx) \<and> end_tx s c r = (Inr a, tx))"
  by (cases r) (auto simp: end_tx_def split: fault.split)

lemma tx_call_cases:
  "(\<exists>e. with_conn (tx_immediate f s) s c = (Inl e, c)) \<or>
   (\<exists>a tx. f c = Inr (a, tx) \<and> with_conn (tx_immediate f s) s c = (Inr a, tx))"
  by (cases "sys_fault s"; cases "f c")
    (auto simp: with_conn_def tx_immediate_def begin_stmt_def end_tx_def)

lemma reads_keep [simp]:
  "snd (get_run J ns i s c) = c" "snd (store_events J ns i start limit s c) = c"
  "snd (latest_checkpoint ns i s c) = c"
  by (simp_all add: get_run_def store_events_def latest_checkpoint_def with_conn_def query_def
      begin_stmt_def split: fault.split)

section \<open>Effects\<close>

lemma create_run_cases:
  assumes "store_inv J sha c" and "small c"
  shows "(\<exists>e. create_run J sha ns new s c = (Inl e, c)) \<or>
    (run_of ns (nr_run_id new) c = None \<and>
     create_run J sha ns new s c =
       (Inr \<lparr>env_run_id = nr_run_id new, env_started_ts = now_ms s, env_ended_ts = None,
         env_agent = nr_agent new, env_subject_ref = nr_subject_ref new,
         env_labels = nr_labels new, env_head_seq = 0,
         env_head_hash = ev_hash (first_event J sha (now_ms s) new)\<rparr>,
        open_run J sha (now_ms s) ns new c))"
  using tx_call_cases[of "create_run_tx J sha s ns new" s c]
  unfolding create_run_def create_run_tx_eq[OF store_invD(1)[OF assms(1)] assms(2)]
  by (auto split: if_splits)

definition remember_result :: "string \<Rightarrow> string \<Rightarrow> string option \<Rightarrow> append_result \<Rightarrow> db \<Rightarrow> db" where
  "remember_result ns i idem res c = (case idem of None \<Rightarrow> c | Some key \<Rightarrow> c\<lparr>db_idem := db_idem c @
     [\<lparr>ir_ns = ns, ir_run_id = i, ir_key = key, ir_seq = ar_seq res, ir_ts = ar_ts res,
       ir_prev_hash = blob (ar_prev_hash res), ir_hash = blob (ar_hash res)\<rparr>]\<rparr>)"

lemma remember_result_simps [simp, frame_simps]:
  "db_events (remember_result ns i idem res c) = db_events c"
  "db_runs (remember_result ns i idem res c) = db_runs c"
  "db_checkpoints (remember_result ns i idem res c) = db_checkpoints c"
  "record_of J ns' i' (remember_result ns i idem res c) = record_of J ns' i' c"
  "rows_of ns' i' (remember_result ns i idem res c) = rows_of ns' i' c"
  "run_of ns' i' (remember_result ns i idem res c) = run_of ns' i' c"
  by (simp_all add: remember_result_def record_of_def rows_of_def run_of_def split: option.split)

lemma prior_None_remember:
  "prior_of ns i idem c = None \<Longrightarrow> db_idem c' = db_idem c \<Longrightarrow>
   remember ns i idem res c' = Inr (remember_result ns i idem res c')"
  by (auto simp: prior_of_def remember_def remember_result_def find_None_list_ex
      split: option.splits)

definition appended :: "json_lib \<Rightarrow> sha \<Rightarrow> sys \<Rightarrow> string \<Rightarrow> string \<Rightarrow> new_event \<Rightarrow> db \<Rightarrow> run_event" where
  "appended J sha s ns i ev c = next_event sha (now_ms s) (ne_kind ev) (ne_role ev) (ne_name ev)
     (ne_content ev) (ne_metadata ev) (record_of J ns i c)"

lemma append_tx_eq:
  assumes "store_inv J sha c" and "small c" and "prior_of ns i idem c = None"
  shows "append_tx sha s ns i ev idem c =
    (case run_of ns i c of
       None \<Rightarrow> Inl NotFound
     | Some r \<Rightarrow> if rr_ended_ts r \<noteq> None then Inl (Conflict ''run is sealed'')
         else let e = appended J sha s ns i ev c
              in Inr (result_of e, remember_result ns i idem (result_of e) (add_event ns i e c)))"
  using prior_None_remember[OF assms(3)]
  by (simp add: append_tx_def append_in_tx_eq[OF store_invD(1)[OF assms(1)] assms(2)] appended_def
      Let_def split: option.split)

lemma append_cases:
  assumes "store_inv J sha c" and "small c"
  shows "(\<exists>e. store_append sha ns i ev idem s c = (Inl e, c)) \<or>
    (\<exists>r. prior_of ns i idem c = Some r \<and> store_append sha ns i ev idem s c = (r, c)) \<or>
    (\<exists>r. prior_of ns i idem c = None \<and> run_of ns i c = Some r \<and> rr_ended_ts r = None \<and>
       store_append sha ns i ev idem s c =
         (let e = appended J sha s ns i ev c
          in (Inr (result_of e), remember_result ns i idem (result_of e) (add_event ns i e c))))"
proof (cases "prior_of ns i idem c")
  case None
  have "(\<exists>e. store_append sha ns i ev idem s c = (Inl e, c)) \<or>
    (\<exists>a tx. append_tx sha s ns i ev idem c = Inr (a, tx) \<and> store_append sha ns i ev idem s c = (Inr a, tx))"
    by (cases "sys_fault s"; cases "append_tx sha s ns i ev idem c")
      (auto simp: store_append_def with_conn_def begin_stmt_def end_tx_def None)
  then show ?thesis
    unfolding append_tx_eq[OF assms None] Let_def
    by (auto simp: None split: option.splits if_splits)
next
  case (Some r)
  then show ?thesis
    by (simp add: store_append_def with_conn_def split: fault.split sum.split)
qed

definition seal_event :: "json_lib \<Rightarrow> sha \<Rightarrow> sys \<Rightarrow> string \<Rightarrow> string \<Rightarrow> db \<Rightarrow> run_event" where
  "seal_event J sha s ns i c = next_event sha (now_ms s) RunFinished None None None
     (Some (json_text J (json_norm (JObj
       [(''event_count'', JNum (of_nat (Suc (length (record_of J ns i c)))))]))))
     (record_of J ns i c)"

lemma seal_cases:
  assumes "store_inv J sha c" and "small c"
  shows "(\<exists>e. seal J sha ns i s c = (Inl e, c)) \<or>
    (\<exists>r. run_of ns i c = Some r \<and> rr_ended_ts r = None \<and>
       seal J sha ns i s c = (let e = seal_event J sha s ns i c
         in (Inr (result_of e), end_run ns i (now_ms s) (add_event ns i e c))))"
  using tx_call_cases[of "seal_tx J sha s ns i" s c]
  unfolding seal_def seal_tx_eq[OF store_invD(1)[OF assms(1)] assms(2)] seal_event_def Let_def
  by (auto split: option.splits if_splits)

definition redaction_event ::
  "json_lib \<Rightarrow> sha \<Rightarrow> sys \<Rightarrow> string \<Rightarrow> string \<Rightarrow> u64 \<Rightarrow> string list \<Rightarrow> string \<Rightarrow> db \<Rightarrow> run_event" where
  "redaction_event J sha s ns i seq fs authority c = next_event sha (now_ms s) Redaction
     None None None (Some (json_text J (redaction_meta seq fs authority)))
     (record_of J ns i (redact_row J sha ns i seq fs c))"

lemma small_redact_row [simp]: "small (redact_row J sha ns i seq fs c) \<longleftrightarrow> small c"
  by (simp add: small_def)

lemma redact_cases:
  assumes "store_inv J sha c" and "small c" and "json_ok J"
  shows "(\<exists>e. redact J sha ns i seq fs authority s c = (Inl e, c)) \<or>
    (\<exists>r. run_of ns i c = Some r \<and> rr_ended_ts r = None \<and> set fs \<subseteq> set REDACTABLE \<and>
       unat seq < length (record_of J ns i c) \<and>
       redact J sha ns i seq fs authority s c = (let e = redaction_event J sha s ns i seq fs authority c
         in (Inr (result_of e), add_event ns i e (redact_row J sha ns i seq fs c))))"
proof (cases "find (\<lambda>f. f \<notin> set REDACTABLE) fs")
  case None
  then have fs: "set fs \<subseteq> set REDACTABLE" by (auto simp: find_None_iff)
  have inv: "run_inv J sha ns i (redact_row J sha ns i seq fs c)"
    using store_inv_redact_row[OF assms(1,3,2)] by (rule store_invD(1))
  have call: "redact J sha ns i seq fs authority s c
    = with_conn (tx_immediate (redact_tx J sha s ns i seq fs authority) s) s c"
    using None by (simp add: redact_def with_conn_def)
  show ?thesis
    using tx_call_cases[of "redact_tx J sha s ns i seq fs authority" s c] assms(2) fs
    unfolding call redact_tx_eq[OF assms(1,2)] redaction_event_def Let_def
    by (auto simp: append_in_tx_eq[OF inv] Let_def split: option.splits if_splits)
next
  case (Some f)
  then show ?thesis by (simp add: redact_def with_conn_def split: fault.split)
qed

lemma put_cases:
  "(\<exists>e. put_checkpoint ns cp s c = (Inl e, c)) \<or>
   (\<exists>rows. put_checkpoint ns cp s c = (Inr (), c\<lparr>db_checkpoints := rows\<rparr>) \<and>
      (list_all (\<lambda>r. length (cr_head_hash r) = 32) (db_checkpoints c)
        \<longrightarrow> list_all (\<lambda>r. length (cr_head_hash r) = 32) rows))"
  using tx_call_cases[of "\<lambda>c. Inr ((), c\<lparr>db_checkpoints := _ c\<rparr>)" s c]
  unfolding put_checkpoint_def
  by (fastforce simp: list_all_iff)

section \<open>Steps keep the invariant\<close>

lemma store_inv_remember:
  assumes "store_inv J sha c" and "e \<in> set (record_of J ns i c)"
  shows "store_inv J sha (remember_result ns i idem (result_of e) c)"
proof -
  have "run_inv J sha ns' i' (remember_result ns i idem (result_of e) c)" for ns' i'
    using store_invD(1)[OF assms(1), of ns' i']
      run_inv_cong[of ns' i' "remember_result ns i idem (result_of e) c" c J sha] by simp
  moreover have "idem_inv J (remember_result ns i idem (result_of e) c)"
    using store_invD(3)[OF assms(1)] assms(2)
    by (auto simp: idem_inv_def idem_points_def list_ex_iff remember_result_def
        record_of_def rows_of_def split: option.splits)
  ultimately show ?thesis
    using assms(1) by (simp add: store_inv_def)
qed

lemma meta_ok_json_text [simp]: "json_ok J \<Longrightarrow> json_plain v \<Longrightarrow> meta_ok J (Some (json_text J v))"
  by simp

lemma json_plain_metas [simp]:
  "json_plain (json_norm (JObj [(''event_count'', JNum n)]))"
  "json_plain (redaction_meta seq fs authority)"
  by (simp_all add: redaction_meta_def bt_of_list_def list_all_iff)

lemma run_of_redact_row_iff [simp]:
  "run_of ns' i' (redact_row J sha ns i seq fs c) = run_of ns' i' c"
  by simp

lemma store_inv_step:
  assumes "store_inv J sha c" and "small c" and "json_ok J" and "op_ok J op"
  shows "store_inv J sha (apply_op J sha op s c)"
proof (cases op)
  case (OpCreate ns new)
  with create_run_cases[OF assms(1,2), of ns new s] store_inv_open_run[OF assms(1,3)] assms(1)
  show ?thesis by auto
next
  case (OpAppend ns i ev key)
  have "store_inv J sha (remember_result ns i key (result_of e) (add_event ns i e c))"
    if "run_of ns i c = Some r" "rr_ended_ts r = None" "e = appended J sha s ns i ev c" for r e
  proof (rule store_inv_remember)
    show "store_inv J sha (add_event ns i e c)"
      by (rule store_inv_add_event[OF assms(1) that(1,2) _ that(3)[unfolded appended_def]])
        (use assms(4) OpAppend in simp)
    show "e \<in> set (record_of J ns i (add_event ns i e c))"
      using that(3) assms(4) OpAppend by (simp add: appended_def)
  qed
  with OpAppend append_cases[OF assms(1,2), of ns i ev key s] assms(1)
  show ?thesis by (auto simp: Let_def)
next
  case (OpSeal ns i)
  have "store_inv J sha (end_run ns i ts (add_event ns i e c))"
    if "run_of ns i c = Some r" "rr_ended_ts r = None" "e = seal_event J sha s ns i c" for r e ts
  proof (rule store_inv_end_run)
    show "store_inv J sha (add_event ns i e c)"
      by (rule store_inv_add_event[OF assms(1) that(1,2) _ that(3)[unfolded seal_event_def]])
        (use assms(3) in \<open>simp del: json_norm.simps\<close>)
    show "ev_kind (last (record_of J ns i (add_event ns i e c))) = RunFinished"
      using that(3) assms(3) by (simp add: seal_event_def del: json_norm.simps)
  qed
  with OpSeal seal_cases[OF assms(1,2), of ns i s] assms(1)
  show ?thesis by (auto simp: Let_def)
next
  case (OpRedact ns i seq fs a)
  have "store_inv J sha (add_event ns i e (redact_row J sha ns i seq fs c))"
    if "run_of ns i c = Some r" "rr_ended_ts r = None" "e = redaction_event J sha s ns i seq fs a c" for r e
    by (rule store_inv_add_event[OF store_inv_redact_row[OF assms(1,3,2)] _ that(2) _
          that(3)[unfolded redaction_event_def]])
      (use that(1) assms(3) in simp_all)
  with OpRedact redact_cases[OF assms(1-3), of ns i seq fs a s] assms(1)
  show ?thesis by (auto simp: Let_def)
next
  case (OpPut ns cp)
  have "store_inv J sha (c\<lparr>db_checkpoints := rows\<rparr>)"
    if "list_all (\<lambda>r. length (cr_head_hash r) = 32) rows" for rows
    using assms(1) that run_inv_cong[of _ _ "c\<lparr>db_checkpoints := rows\<rparr>" c J sha]
    by (simp add: store_inv_def idem_inv_def run_of_def record_of_def rows_of_def)
  with OpPut put_cases[of ns cp s c] assms(1) show ?thesis
    by (auto simp: store_inv_def)
qed (simp_all add: assms(1))

lemma step_events_length:
  assumes "store_inv J sha c" and "small c" and "json_ok J"
  shows "length (db_events (apply_op J sha op s c)) \<le> Suc (length (db_events c))"
proof (cases op)
  case (OpCreate ns new)
  with create_run_cases[OF assms(1,2), of ns new s] show ?thesis by auto
next
  case (OpAppend ns i ev key)
  with append_cases[OF assms(1,2), of ns i ev key s] show ?thesis by (auto simp: Let_def)
next
  case (OpSeal ns i)
  with seal_cases[OF assms(1,2), of ns i s] show ?thesis by (auto simp: Let_def)
next
  case (OpRedact ns i seq fs a)
  with redact_cases[OF assms(1-3), of ns i seq fs a s] show ?thesis by (auto simp: Let_def)
next
  case (OpPut ns cp)
  with put_cases[of ns cp s c] show ?thesis by auto
qed simp_all

lemma store_inv_empty: "store_inv J sha empty_db"
  by (simp add: store_inv_def empty_db_def run_inv_def run_of_def rows_of_def idem_inv_def)

lemma run_ops_simps [simp]:
  "run_ops J sha [] c = c"
  "run_ops J sha ((op, s) # ops) c = run_ops J sha ops (apply_op J sha op s c)"
  by (simp_all add: run_ops_def)

definition ops_ok :: "json_lib \<Rightarrow> (store_op \<times> sys) list \<Rightarrow> bool" where
  "ops_ok J ops \<longleftrightarrow> list_all (\<lambda>(op, s). op_ok J op) ops"

lemma ops_ok_simps [simp]:
  "ops_ok J []" "ops_ok J ((op, s) # ops) \<longleftrightarrow> op_ok J op \<and> ops_ok J ops"
  by (simp_all add: ops_ok_def)

text \<open>
  A relation kept by every step from a database that satisfies the invariant is kept by every
  sequence of steps that does not outgrow the sequence numbers.
\<close>

definition room :: "(store_op \<times> sys) list \<Rightarrow> db \<Rightarrow> bool" where
  "room ops c \<longleftrightarrow> length (db_events c) + length ops < 2 ^ 63"

lemma run_ops_induct:
  assumes "store_inv J sha c" and "json_ok J" and "ops_ok J ops" and "room ops c"
    and refl: "\<And>c. R c c" and trans: "\<And>a b d. R a b \<Longrightarrow> R b d \<Longrightarrow> R a d"
    and step: "\<And>c op s. store_inv J sha c \<Longrightarrow> small c \<Longrightarrow> op_ok J op \<Longrightarrow> R c (apply_op J sha op s c)"
  shows "store_inv J sha (run_ops J sha ops c) \<and> R c (run_ops J sha ops c)"
  using assms(1,3,4)
proof (induction ops arbitrary: c)
  case (Cons x ops)
  obtain op s where x: "x = (op, s)" by (cases x)
  have small: "small c" and ok: "op_ok J op" using Cons.prems by (simp_all add: room_def small_def x)
  have "store_inv J sha (apply_op J sha op s c)"
    using Cons.prems(1) small assms(2) ok by (rule store_inv_step)
  moreover have "room ops (apply_op J sha op s c)"
    using step_events_length[OF Cons.prems(1) small assms(2), of op s] Cons.prems(3)
    by (simp add: room_def)
  ultimately have "store_inv J sha (run_ops J sha (x # ops) c)"
    and "R (apply_op J sha op s c) (run_ops J sha (x # ops) c)"
    using Cons.IH Cons.prems(2) by (simp_all add: x)
  with trans[OF step[OF Cons.prems(1) small ok]] show ?case by simp
qed (simp add: refl)

section \<open>What no operation undoes\<close>

text \<open>The bytes and the digest of every event of a record, in order.\<close>

definition commitments :: "sha \<Rightarrow> run_event list \<Rightarrow> (u8 list \<times> hash) list" where
  "commitments sha evs = map (\<lambda>e. (canon sha (core e), ev_hash e)) evs"

lemma commitments_append [simp]: "commitments sha (xs @ ys) = commitments sha xs @ commitments sha ys"
  by (simp add: commitments_def)

lemma commitments_erase [simp]:
  "commitments sha (evs[k := erase_event sha fs (evs ! k)]) = commitments sha evs"
  unfolding commitments_def
  by (rule nth_equalityI)
    (simp_all add: nth_update_same[of "\<lambda>e. canon sha (core e)"] nth_update_same[of ev_hash])

definition extends :: "json_lib \<Rightarrow> sha \<Rightarrow> db \<Rightarrow> db \<Rightarrow> bool" where
  "extends J sha c d \<longleftrightarrow>
     (\<forall>ns i. prefix (commitments sha (record_of J ns i c)) (commitments sha (record_of J ns i d)))"

lemma extends_refl: "extends J sha c c"
  by (simp add: extends_def)

lemma extends_trans: "extends J sha a b \<Longrightarrow> extends J sha b d \<Longrightarrow> extends J sha a d"
  unfolding extends_def by (meson prefix_order.trans)

lemma extends_step:
  assumes "store_inv J sha c" and "small c" and "json_ok J" and "op_ok J op"
  shows "extends J sha c (apply_op J sha op s c)"
proof (cases op)
  case (OpCreate ns new)
  with create_run_cases[OF assms(1,2), of ns new s] show ?thesis
    by (auto simp: extends_def record_of_open_run[OF assms(3)])
next
  case (OpAppend ns i ev key)
  with append_cases[OF assms(1,2), of ns i ev key s] assms(4) show ?thesis
    by (auto simp: Let_def extends_def appended_def)
next
  case (OpSeal ns i)
  with seal_cases[OF assms(1,2), of ns i s] assms(3) show ?thesis
    by (auto simp: Let_def extends_def seal_event_def simp del: json_norm.simps)
next
  case (OpRedact ns i seq fs a)
  note rec = record_of_redact_row[OF assms(3) store_invD(2)[OF assms(1)] assms(2)
    linked_of_inv[OF store_invD(1)[OF assms(1)]]]
  from OpRedact redact_cases[OF assms(1-3), of ns i seq fs a s] assms(3) show ?thesis
    by (auto simp: Let_def extends_def redaction_event_def rec)
next
  case (OpPut ns cp)
  with put_cases[of ns cp s c] show ?thesis
    by (auto simp: extends_def record_of_def rows_of_def)
qed (simp_all add: extends_def)

text \<open>A sealed run is never touched again.\<close>

definition run_sealed :: "string \<Rightarrow> string \<Rightarrow> db \<Rightarrow> bool" where
  "run_sealed ns i c \<longleftrightarrow> (case run_of ns i c of None \<Rightarrow> False | Some r \<Rightarrow> rr_ended_ts r \<noteq> None)"

definition keeps_sealed :: "json_lib \<Rightarrow> db \<Rightarrow> db \<Rightarrow> bool" where
  "keeps_sealed J c d \<longleftrightarrow> (\<forall>ns i. run_sealed ns i c \<longrightarrow>
     run_of ns i d = run_of ns i c \<and> record_of J ns i d = record_of J ns i c)"

lemma keeps_sealed_refl: "keeps_sealed J c c"
  by (simp add: keeps_sealed_def)

lemma keeps_sealed_trans: "keeps_sealed J a b \<Longrightarrow> keeps_sealed J b d \<Longrightarrow> keeps_sealed J a d"
  by (simp add: keeps_sealed_def run_sealed_def)

lemma keeps_sealed_step:
  assumes "store_inv J sha c" and "small c" and "json_ok J" and "op_ok J op"
  shows "keeps_sealed J c (apply_op J sha op s c)"
proof (cases op)
  case (OpCreate ns new)
  with create_run_cases[OF assms(1,2), of ns new s] show ?thesis
    by (auto simp: keeps_sealed_def run_sealed_def run_of_open_run record_of_open_run[OF assms(3)]
        split: option.splits)
next
  case (OpAppend ns i ev key)
  with append_cases[OF assms(1,2), of ns i ev key s] assms(4) show ?thesis
    by (auto simp: Let_def keeps_sealed_def run_sealed_def run_of_add_event appended_def
        split: option.splits)
next
  case (OpSeal ns i)
  with seal_cases[OF assms(1,2), of ns i s] assms(3) show ?thesis
    by (auto simp: Let_def keeps_sealed_def run_sealed_def run_of_add_event run_of_end_run
        seal_event_def split: option.splits simp del: json_norm.simps)
next
  case (OpRedact ns i seq fs a)
  note rec = record_of_redact_row[OF assms(3) store_invD(2)[OF assms(1)] assms(2)
    linked_of_inv[OF store_invD(1)[OF assms(1)]]]
  from OpRedact redact_cases[OF assms(1-3), of ns i seq fs a s] assms(3) show ?thesis
    by (auto simp: Let_def keeps_sealed_def run_sealed_def run_of_add_event redaction_event_def rec
        split: option.splits)
next
  case (OpPut ns cp)
  with put_cases[of ns cp s c] show ?thesis
    by (auto simp: keeps_sealed_def run_of_def record_of_def rows_of_def)
qed (simp_all add: keeps_sealed_def)

text \<open>A remembered key is remembered for ever.\<close>

lemma find_append_Some: "find P xs = Some x \<Longrightarrow> find P (xs @ ys) = Some x"
  by (induction xs) (auto split: if_splits)

definition keeps_keys :: "db \<Rightarrow> db \<Rightarrow> bool" where
  "keeps_keys c d \<longleftrightarrow> (\<forall>ns i key res. prior_of ns i key c = Some res \<longrightarrow> prior_of ns i key d = Some res)"

lemma keeps_keys_refl: "keeps_keys c c"
  by (simp add: keeps_keys_def)

lemma keeps_keys_trans: "keeps_keys a b \<Longrightarrow> keeps_keys b d \<Longrightarrow> keeps_keys a d"
  by (simp add: keeps_keys_def)

lemma keeps_keys_append:
  assumes "db_idem d = db_idem c @ rows"
  shows "keeps_keys c d"
  using find_append_Some[of _ "db_idem c" _ rows] unfolding keeps_keys_def prior_of_def assms
  by (fastforce split: option.splits)

lemma keeps_keys_step:
  assumes "store_inv J sha c" and "small c" and "json_ok J" and "op_ok J op"
  shows "keeps_keys c (apply_op J sha op s c)"
proof -
  have "\<exists>rows. db_idem (apply_op J sha op s c) = db_idem c @ rows"
  proof (cases op)
    case (OpCreate ns new)
    with create_run_cases[OF assms(1,2), of ns new s] show ?thesis by auto
  next
    case (OpAppend ns i ev key)
    with append_cases[OF assms(1,2), of ns i ev key s] show ?thesis
      by (auto simp: Let_def remember_result_def split: option.splits)
  next
    case (OpSeal ns i)
    with seal_cases[OF assms(1,2), of ns i s] show ?thesis by (auto simp: Let_def)
  next
    case (OpRedact ns i seq fs a)
    with redact_cases[OF assms(1-3), of ns i seq fs a s] show ?thesis by (auto simp: Let_def)
  next
    case (OpPut ns cp)
    with put_cases[of ns cp s c] show ?thesis by auto
  qed simp_all
  then show ?thesis using keeps_keys_append by blast
qed

text \<open>The three for sequences of operations.\<close>

lemma run_ops_keeps:
  assumes "store_inv J sha c" and "json_ok J" and "ops_ok J ops" and "room ops c"
  shows "store_inv J sha (run_ops J sha ops c)" "extends J sha c (run_ops J sha ops c)"
    "keeps_sealed J c (run_ops J sha ops c)" "keeps_keys c (run_ops J sha ops c)"
proof -
  have "store_inv J sha (run_ops J sha ops c) \<and> extends J sha c (run_ops J sha ops c)"
    by (rule run_ops_induct[OF assms])
      (blast intro: extends_refl extends_trans extends_step[OF _ _ assms(2)])+
  moreover have "store_inv J sha (run_ops J sha ops c) \<and> keeps_sealed J c (run_ops J sha ops c)"
    by (rule run_ops_induct[OF assms])
      (blast intro: keeps_sealed_refl keeps_sealed_trans keeps_sealed_step[OF _ _ assms(2)])+
  moreover have "store_inv J sha (run_ops J sha ops c) \<and> keeps_keys c (run_ops J sha ops c)"
    by (rule run_ops_induct[OF assms])
      (blast intro: keeps_keys_refl keeps_keys_trans keeps_keys_step[OF _ _ assms(2)])+
  ultimately show "store_inv J sha (run_ops J sha ops c)" "extends J sha c (run_ops J sha ops c)"
    "keeps_sealed J c (run_ops J sha ops c)" "keeps_keys c (run_ops J sha ops c)"
    by blast+
qed

end
