(* ===== verification/Store_Props.thy ===== *)
theory Store_Props
  imports Store_Ops
begin

text \<open>
  What the SQLite store promises its callers: every record it ever holds verifies, records
  only grow, sealed records never change, a retry appends nothing, a failed call changes
  nothing, and each operation refines its specification on \<open>log\<close>, a map from runs to records
  with a seal. A small database makes the statements
  concrete.
\<close>

section \<open>Examples\<close>

definition demo_new :: new_run where
  "demo_new = \<lparr>nr_run_id = ''loan'', nr_agent = agent_new ''underwriter'' ''2.1.0'',
     nr_subject_ref = None, nr_labels = []\<rparr>"

definition demo_note :: new_event where
  "demo_note = \<lparr>ne_kind = Message, ne_role = Some ''user'', ne_name = None,
     ne_content = Some ''score=690'', ne_metadata = None\<rparr>"

definition demo_ops :: "(store_op \<times> sys) list" where
  "demo_ops = [(OpCreate ''acme'' demo_new, calm 5),
     (OpAppend ''acme'' ''loan'' demo_note (Some ''k''), calm 6)]"

definition demo_db :: db where
  "demo_db = run_ops demo_json prefix_sha demo_ops empty_db"

lemma small_empty [simp]: "small empty_db"
  by (simp add: small_def empty_db_def)

lemma empty_db_views [simp]:
  "run_of ns i empty_db = None" "record_of J ns i empty_db = []" "rows_of ns i empty_db = []"
  "prior_of ns i key empty_db = None" "db_events empty_db = []"
  by (simp_all add: run_of_def empty_db_def record_of_def rows_of_def prior_of_def split: option.split)

definition demo_db1 :: db where
  "demo_db1 = open_run demo_json prefix_sha 5 ''acme'' demo_new empty_db"

lemma demo_db1_step: "apply_op demo_json prefix_sha (OpCreate ''acme'' demo_new) (calm 5) empty_db = demo_db1"
  by (simp add: create_run_def demo_db1_def
      create_run_tx_eq[OF store_invD(1)[OF store_inv_empty[of demo_json prefix_sha]] small_empty])

lemma demo_db1_views [simp]:
  "run_of ''acme'' ''loan'' demo_db1 = Some (run_row_of demo_json ''acme'' demo_new 5
     (ev_hash (first_event demo_json prefix_sha 5 demo_new)))"
  "record_of demo_json ''acme'' ''loan'' demo_db1 = [first_event demo_json prefix_sha 5 demo_new]"
  "small demo_db1" "db_idem demo_db1 = []"
  by (simp_all add: demo_db1_def run_of_open_run record_of_open_run demo_new_def small_def)
    (simp add: empty_db_def)

lemma demo_db1_inv [simp]: "store_inv demo_json prefix_sha demo_db1"
  unfolding demo_db1_step[symmetric] by (intro store_inv_step store_inv_empty) simp_all

lemma demo_db_step: "demo_db = apply_op demo_json prefix_sha (OpAppend ''acme'' ''loan'' demo_note (Some ''k'')) (calm 6) demo_db1"
  by (simp add: demo_db_def demo_ops_def demo_db1_step del: apply_op.simps)

lemma demo_db_inv [simp]: "store_inv demo_json prefix_sha demo_db"
  unfolding demo_db_step by (intro store_inv_step) (simp_all add: demo_note_def)

text \<open>A call that returns its effect in a quiet environment.\<close>

lemma append_quiet:
  assumes "store_inv J sha c" and "small c" and "quiet s" and "prior_of ns i idem c = None"
  shows "store_append sha ns i ev idem s c =
    (case run_of ns i c of
       None \<Rightarrow> (Inl NotFound, c)
     | Some r \<Rightarrow> if rr_ended_ts r \<noteq> None then (Inl (Conflict ''run is sealed''), c)
         else let e = appended J sha s ns i ev c
              in (Inr (result_of e), remember_result ns i idem (result_of e) (add_event ns i e c)))"
  using assms(3,4)
  by (simp add: store_append_def append_tx_eq[OF assms(1,2,4)] Let_def split: option.split)

lemma demo_db_eq:
  "demo_db = (let e = appended demo_json prefix_sha (calm 6) ''acme'' ''loan'' demo_note demo_db1
     in remember_result ''acme'' ''loan'' (Some ''k'') (result_of e) (add_event ''acme'' ''loan'' e demo_db1))"
  unfolding demo_db_step
  by (simp add: append_quiet[OF demo_db1_inv] prior_of_def run_row_of_def Let_def)

lemma demo_db_views [simp]:
  "map_option rr_ended_ts (run_of ''acme'' ''loan'' demo_db) = Some None"
  "length (record_of demo_json ''acme'' ''loan'' demo_db) = 2" "small demo_db"
  "length (db_events demo_db) = 2"
  by (simp_all add: demo_db_eq Let_def run_of_add_event run_row_of_def appended_def demo_note_def
      small_def) (simp_all add: demo_db1_def empty_db_def)

section \<open>Safety of every record\<close>

lemma inv_verifies:
  assumes "store_inv J sha c" and "run_of ns i c = Some r"
  shows "verify_chain sha (record_of J ns i c) = Inr (chain_summary (record_of J ns i c))"
    and "ok_head_seq (chain_summary (record_of J ns i c)) = rr_head_seq r"
    and "blob (ok_head_hash (chain_summary (record_of J ns i c))) = rr_head_hash r"
    and "rr_ended_ts r \<noteq> None \<longrightarrow> ok_sealed (chain_summary (record_of J ns i c))"
  using run_inv_SomeD[OF store_invD(1)[OF assms(1)] assms(2)]
  by (auto simp: verify_chain_Inr_iff chain_summary_def head_agrees_def)

text \<open>
  every record the store holds verifies. After any sequence of operations from an empty
  database, by any tenants, with any clock and any faults, a run that exists has a record
  that \<open>verify_chain\<close> accepts, whose last sequence number and digest are those of the run's
  row, and which ends in \<open>run_finished\<close> when the run is sealed; a run that does not exist has
  no events.
\<close>

theorem every_record_verifies:
  assumes "json_ok J" and "ops_ok J ops" and "length ops < 2 ^ 63"
    and "c = run_ops J sha ops empty_db"
  shows "case run_of ns i c of
      None \<Rightarrow> record_of J ns i c = []
    | Some r \<Rightarrow> \<exists>ok. verify_chain sha (record_of J ns i c) = Inr ok \<and>
        ok_head_seq ok = rr_head_seq r \<and> blob (ok_head_hash ok) = rr_head_hash r \<and>
        (rr_ended_ts r \<noteq> None \<longrightarrow> ok_sealed ok)"
proof -
  have "store_inv J sha c"
    using run_ops_keeps(1)[OF store_inv_empty assms(1,2)] assms(3,4) by (simp add: room_def)
  then show ?thesis
    using inv_verifies[of J sha c ns i] store_invD(1)[of J sha c ns i]
    by (auto simp: run_inv_def record_of_def split: option.splits)
qed

theorem every_record_verifies_witness:
  "run_of ''acme'' ''loan'' demo_db \<noteq> None \<and>
   (\<exists>ok. verify_chain prefix_sha (record_of demo_json ''acme'' ''loan'' demo_db) = Inr ok)"
proof -
  obtain r where "run_of ''acme'' ''loan'' demo_db = Some r"
    using demo_db_views(1) by (cases "run_of ''acme'' ''loan'' demo_db") auto
  with every_record_verifies[of demo_json demo_ops demo_db prefix_sha "''acme''" "''loan''"]
  show ?thesis by (auto simp: demo_db_def demo_ops_def demo_note_def)
qed

text \<open>
  the record is append-only. Whatever operations run after a moment, redactions included,
  the canonical bytes and the digest of every event committed at that moment stay where they
  are: the record then is a prefix of the record later, up to erased values.
\<close>

theorem record_append_only:
  assumes "json_ok J" and "store_inv J sha c" and "ops_ok J ops" and "room ops c"
  shows "prefix (commitments sha (record_of J ns i c))
    (commitments sha (record_of J ns i (run_ops J sha ops c)))"
  using run_ops_keeps(2)[OF assms(2,1,3,4)] by (simp add: extends_def)

theorem record_append_only_witness:
  "prefix (commitments prefix_sha (record_of demo_json ''acme'' ''loan'' demo_db))
    (commitments prefix_sha (record_of demo_json ''acme'' ''loan'' (run_ops demo_json prefix_sha
       [(OpRedact ''acme'' ''loan'' 1 [''content''] ''dpo'', calm 7)] demo_db)))"
  by (rule record_append_only) (simp_all add: room_def)

text \<open>
  C22: a sealed record is final. Once a run is sealed, no operation by anyone changes a byte of
  its record or of its row, erasure included.
\<close>

theorem sealed_record_is_final:
  assumes "json_ok J" and "store_inv J sha c" and "ops_ok J ops" and "room ops c"
    and "run_sealed ns i c"
  shows "record_of J ns i (run_ops J sha ops c) = record_of J ns i c \<and>
    run_of ns i (run_ops J sha ops c) = run_of ns i c"
  using run_ops_keeps(3)[OF assms(2,1,3,4)] assms(5) by (simp add: keeps_sealed_def)

definition demo_sealed :: db where
  "demo_sealed = apply_op demo_json prefix_sha (OpSeal ''acme'' ''loan'') (calm 8) demo_db"

lemma demo_sealed_eq:
  "demo_sealed = (let e = seal_event demo_json prefix_sha (calm 8) ''acme'' ''loan'' demo_db
     in end_run ''acme'' ''loan'' 8 (add_event ''acme'' ''loan'' e demo_db))"
proof -
  obtain r where "run_of ''acme'' ''loan'' demo_db = Some r" "rr_ended_ts r = None"
    using demo_db_views(1) by (cases "run_of ''acme'' ''loan'' demo_db") auto
  then show ?thesis
    by (simp add: demo_sealed_def seal_def seal_tx_eq[OF store_invD(1)[OF demo_db_inv]] Let_def
        seal_event_def del: json_norm.simps of_nat_Suc)
qed

lemma demo_sealed_views [simp]:
  "store_inv demo_json prefix_sha demo_sealed" "run_sealed ''acme'' ''loan'' demo_sealed"
  "length (db_events demo_sealed) = 3"
proof -
  show "store_inv demo_json prefix_sha demo_sealed"
    unfolding demo_sealed_def by (intro store_inv_step) simp_all
  obtain r where "run_of ''acme'' ''loan'' demo_db = Some r"
    using demo_db_views(1) by (cases "run_of ''acme'' ''loan'' demo_db") auto
  then show "run_sealed ''acme'' ''loan'' demo_sealed"
    by (simp add: demo_sealed_eq Let_def run_sealed_def run_of_end_run run_of_add_event)
  show "length (db_events demo_sealed) = 3"
    by (simp add: demo_sealed_eq Let_def)
qed

theorem sealed_record_is_final_witness:
  "record_of demo_json ''acme'' ''loan'' (run_ops demo_json prefix_sha
     [(OpRedact ''acme'' ''loan'' 1 [''content''] ''dpo'', calm 9),
      (OpAppend ''acme'' ''loan'' demo_note None, calm 9)] demo_sealed)
   = record_of demo_json ''acme'' ''loan'' demo_sealed"
  using sealed_record_is_final[of demo_json prefix_sha demo_sealed
      "[(OpRedact ''acme'' ''loan'' 1 [''content''] ''dpo'', calm 9),
        (OpAppend ''acme'' ''loan'' demo_note None, calm 9)]" "''acme''" "''loan''"]
  by (simp add: room_def demo_note_def)

section \<open>Refinement\<close>

definition log_of :: "json_lib \<Rightarrow> db \<Rightarrow> log" where
  "log_of J c = (\<lambda>(ns, i). map_option (\<lambda>r. (record_of J ns i c, rr_ended_ts r \<noteq> None)) (run_of ns i c))"

definition log_append ::
  "string \<times> string \<Rightarrow> (run_event list \<Rightarrow> run_event list) \<Rightarrow> (run_event list \<Rightarrow> run_event) \<Rightarrow> bool
   \<Rightarrow> log \<Rightarrow> append_result store_result \<times> log" where
  "log_append k before next closing L =
     (case L k of
        None \<Rightarrow> (Inl NotFound, L)
      | Some (evs, True) \<Rightarrow> (Inl (Conflict ''run is sealed''), L)
      | Some (evs, False) \<Rightarrow>
          (let e = next (before evs)
           in (Inr (result_of e), L(k \<mapsto> (before evs @ [e], closing)))))"

lemma log_ofI:
  assumes "\<And>ns i. map_option (\<lambda>r. (record_of J ns i c, rr_ended_ts r \<noteq> None)) (run_of ns i c) = L (ns, i)"
  shows "log_of J c = L"
  using assms by (auto simp: log_of_def)

lemma log_of_apply [simp]:
  "log_of J c (ns, i) = map_option (\<lambda>r. (record_of J ns i c, rr_ended_ts r \<noteq> None)) (run_of ns i c)"
  by (simp add: log_of_def)

text \<open>
  C9: \<open>append\<close> refines the log. In a quiet environment, appending without a remembered key to
  a run that does not exist reports \<open>NotFound\<close>, to a sealed one a conflict, and changes
  nothing; otherwise the run's record gains exactly one event, the one \<open>next_event\<close> builds
  from the client's fields, the clock and the record's own head, the result repeats that
  event's number, time and digests, and no other run changes.
\<close>

theorem append_refines:
  assumes "store_inv J sha c" and "small c" and "quiet s" and "prior_of ns i idem c = None"
    and "meta_ok J (ne_metadata ev)"
  shows "(case store_append sha ns i ev idem s c of (res, d) \<Rightarrow> (res, log_of J d))
    = log_append (ns, i) (\<lambda>evs. evs)
        (next_event sha (now_ms s) (ne_kind ev) (ne_role ev) (ne_name ev) (ne_content ev)
           (ne_metadata ev)) False (log_of J c)"
proof (cases "run_of ns i c")
  case None
  then show ?thesis
    by (simp add: append_quiet[OF assms(1-4)] log_append_def)
next
  case (Some r)
  show ?thesis
  proof (cases "rr_ended_ts r")
    case None
    let ?e = "appended J sha s ns i ev c"
    have "log_of J (remember_result ns i idem (result_of ?e) (add_event ns i ?e c))
      = (log_of J c)((ns, i) \<mapsto> (record_of J ns i c @ [?e], False))"
      by (rule log_ofI) (use Some None assms(5) in \<open>auto simp: run_of_add_event appended_def\<close>)
    with Some None show ?thesis
      by (simp add: append_quiet[OF assms(1-4)] log_append_def Let_def appended_def)
  next
    case (Some t)
    with \<open>run_of ns i c = Some r\<close> show ?thesis
      by (simp add: append_quiet[OF assms(1-4)] log_append_def)
  qed
qed

theorem append_refines_witness:
  "(case store_append prefix_sha ''acme'' ''loan'' demo_note None (calm 7) demo_db of
      (res, d) \<Rightarrow> (res, log_of demo_json d))
   = log_append (''acme'', ''loan'') (\<lambda>evs. evs)
       (next_event prefix_sha 7 Message (Some ''user'') None (Some ''score=690'') None) False
       (log_of demo_json demo_db)"
  using append_refines[OF demo_db_inv, of "calm 7" "''acme''" "''loan''" None demo_note]
  by (simp add: prior_of_def demo_note_def)

text \<open>
  \<open>seal\<close> refines the log. Sealing an open run appends one \<open>run_finished\<close> event, whose
  metadata is the JSON of an \<open>event_count\<close> equal to the length of the sealed record, and marks
  the run sealed; a missing or an already sealed run is refused and nothing changes.
\<close>

theorem seal_refines:
  assumes "store_inv J sha c" and "small c" and "quiet s" and "json_ok J"
  shows "(case seal J sha ns i s c of (res, d) \<Rightarrow> (res, log_of J d))
    = log_append (ns, i) (\<lambda>evs. evs)
        (\<lambda>evs. next_event sha (now_ms s) RunFinished None None None
           (Some (json_text J (JObj [(''event_count'', JNum (of_nat (length evs + 1)))]))) evs)
        True (log_of J c)"
proof -
  have norm: "json_norm (JObj [(''event_count'', JNum n)]) = JObj [(''event_count'', JNum n)]" for n
    by (simp add: bt_of_list_def)
  note eq = seal_tx_eq[OF store_invD(1)[OF assms(1)] assms(2), unfolded norm]
  show ?thesis
  proof (cases "run_of ns i c")
    case None
    then show ?thesis
      using assms(3) by (simp add: seal_def eq log_append_def)
  next
    case (Some r)
    show ?thesis
    proof (cases "rr_ended_ts r")
      case None
      let ?e = "next_event sha (now_ms s) RunFinished None None None
        (Some (json_text J (JObj [(''event_count'', JNum (of_nat (Suc (length (record_of J ns i c)))))])))
        (record_of J ns i c)"
      have "log_of J (end_run ns i (now_ms s) (add_event ns i ?e c))
        = (log_of J c)((ns, i) \<mapsto> (record_of J ns i c @ [?e], True))"
        by (rule log_ofI)
          (use Some assms(4) in \<open>auto simp: run_of_end_run run_of_add_event simp del: of_nat_Suc\<close>)
      with Some None show ?thesis
        using assms(3)
        by (simp add: seal_def eq log_append_def Let_def del: of_nat_Suc)
    next
      case (Some t)
      with \<open>run_of ns i c = Some r\<close> show ?thesis
        using assms(3) by (simp add: seal_def eq log_append_def)
    qed
  qed
qed

theorem seal_refines_witness:
  "(case seal demo_json prefix_sha ''acme'' ''loan'' (calm 8) demo_db of
      (res, d) \<Rightarrow> (res, log_of demo_json d))
   = log_append (''acme'', ''loan'') (\<lambda>evs. evs)
       (\<lambda>evs. next_event prefix_sha 8 RunFinished None None None
          (Some (json_text demo_json (JObj [(''event_count'', JNum (of_nat (length evs + 1)))]))) evs)
       True (log_of demo_json demo_db)"
  using seal_refines[OF demo_db_inv, of "calm 8" "''acme''" "''loan''"] by simp

lemma redact_quiet:
  assumes "store_inv J sha c" and "small c" and "json_ok J" and "quiet s"
    and "set fs \<subseteq> set REDACTABLE"
  shows "redact J sha ns i seq fs authority s c =
    (case run_of ns i c of
       None \<Rightarrow> (Inl NotFound, c)
     | Some r \<Rightarrow>
         if \<not> unat seq < length (record_of J ns i c) then (Inl NotFound, c)
         else if rr_ended_ts r \<noteq> None then (Inl (Conflict ''run is sealed''), c)
         else let e = redaction_event J sha s ns i seq fs authority c
              in (Inr (result_of e), add_event ns i e (redact_row J sha ns i seq fs c)))"
proof -
  have find: "find (\<lambda>f. f \<notin> set REDACTABLE) fs = None" using assms(5) by (auto simp: find_None_iff)
  have inv: "run_inv J sha ns i (redact_row J sha ns i seq fs c)"
    using store_inv_redact_row[OF assms(1,3,2)] by (rule store_invD(1))
  have "record_of J ns i c = []" if "run_of ns i c = None"
    using store_invD(1)[OF assms(1), of ns i] that by (simp add: run_inv_def record_of_def)
  then show ?thesis
    using assms(2,4)
    by (auto simp: redact_def find redact_tx_eq[OF assms(1,2)] append_in_tx_eq[OF inv]
        redaction_event_def Let_def split: option.split)
qed

text \<open>
  C14: \<open>redact\<close> refines erasure. In an open run, redacting replaces the target event by its
  erasure (the named fields lose their values and leave their digests, nothing else changes)
  and appends one \<open>redaction\<close> event naming target, fields and authority; it is refused for a
  structural field, a missing run or target, and for a sealed run, and then nothing changes.
\<close>

theorem redact_refines:
  assumes "store_inv J sha c" and "small c" and "json_ok J" and "quiet s"
  shows "(case redact J sha ns i seq fs authority s c of (res, d) \<Rightarrow> (res, log_of J d))
    = (case find (\<lambda>f. f \<notin> set REDACTABLE) fs of
         Some f \<Rightarrow> (Inl (Invalid (f @ '' is structural and cannot be redacted'')), log_of J c)
       | None \<Rightarrow>
           if (case log_of J c (ns, i) of None \<Rightarrow> False | Some (evs, _) \<Rightarrow> unat seq < length evs)
           then log_append (ns, i) (\<lambda>evs. evs[unat seq := erase_event sha fs (evs ! unat seq)])
                  (next_event sha (now_ms s) Redaction None None None
                    (Some (json_text J (redaction_meta seq fs authority)))) False (log_of J c)
           else (Inl NotFound, log_of J c))"
proof (cases "find (\<lambda>f. f \<notin> set REDACTABLE) fs")
  case None
  then have fs: "set fs \<subseteq> set REDACTABLE" by (auto simp: find_None_iff)
  note rec = record_of_redact_row[OF assms(3) store_invD(2)[OF assms(1)] assms(2)
    linked_of_inv[OF store_invD(1)[OF assms(1)]]]
  show ?thesis
  proof (cases "run_of ns i c")
    case (Some r)
    let ?e = "redaction_event J sha s ns i seq fs authority c"
    have "log_of J (add_event ns i ?e (redact_row J sha ns i seq fs c))
      = (log_of J c)((ns, i) \<mapsto> (record_of J ns i (redact_row J sha ns i seq fs c) @ [?e], False))"
      if "rr_ended_ts r = None"
      by (rule log_ofI)
        (use Some that assms(3) in \<open>auto simp: run_of_add_event redaction_event_def rec\<close>)
    with Some None show ?thesis
      by (simp add: redact_quiet[OF assms fs] log_append_def Let_def redaction_event_def rec
          split: option.split)
  qed (simp add: redact_quiet[OF assms fs] None)
next
  case (Some f)
  with assms(4) show ?thesis by (simp add: redact_def)
qed

theorem redact_refines_witness:
  "(case redact demo_json prefix_sha ''acme'' ''loan'' 1 [''content''] ''dpo'' (calm 8) demo_db of
      (res, d) \<Rightarrow> (res, log_of demo_json d))
   = log_append (''acme'', ''loan'') (\<lambda>evs. evs[1 := erase_event prefix_sha [''content''] (evs ! 1)])
       (next_event prefix_sha 8 Redaction None None None
          (Some (json_text demo_json (redaction_meta 1 [''content''] ''dpo'')))) False
       (log_of demo_json demo_db)"
proof -
  obtain r where "run_of ''acme'' ''loan'' demo_db = Some r"
    using demo_db_views(1) by (cases "run_of ''acme'' ''loan'' demo_db") auto
  then show ?thesis
    using redact_refines[where s = "calm 8" and ns = "''acme''" and i = "''loan''" and seq = 1
        and fs = "[''content'']" and authority = "''dpo''", OF demo_db_inv _ demo_json_ok]
    by (simp add: REDACTABLE_def)
qed

text \<open>
  \<open>create_run\<close> opens a record once. In a quiet environment a new run gets the record of
  one \<open>run_started\<close> event whose metadata is the envelope the client declared, and the reply
  repeats it with that event's digest as head; creating a run that exists is a conflict that
  changes nothing.
\<close>

theorem create_run_refines:
  assumes "store_inv J sha c" and "small c" and "json_ok J" and "quiet s"
  shows "(case create_run J sha ns new s c of (res, d) \<Rightarrow> (map_sum (\<lambda>e. e) env_head_hash res, log_of J d))
    = (if log_of J c (ns, nr_run_id new) \<noteq> None
       then (Inl (Conflict (''run '' @ nr_run_id new @ '' already exists'')), log_of J c)
       else let e = next_event sha (now_ms s) RunStarted None None None
                      (Some (json_text J (envelope_meta new))) []
            in (Inr (ev_hash e), (log_of J c)((ns, nr_run_id new) \<mapsto> ([e], False))))"
proof (cases "run_of ns (nr_run_id new) c")
  case None
  have "record_of J ns (nr_run_id new) c = []"
    using store_invD(1)[OF assms(1), of ns "nr_run_id new"] None by (simp add: run_inv_def record_of_def)
  then have "log_of J (open_run J sha (now_ms s) ns new c)
    = (log_of J c)((ns, nr_run_id new) \<mapsto> ([first_event J sha (now_ms s) new], False))"
    by (intro log_ofI)
      (use None in \<open>auto simp: run_of_open_run record_of_open_run[OF assms(3)] run_row_of_def
          split: option.split\<close>)
  with None assms(4) show ?thesis
    by (simp add: create_run_def create_run_tx_eq[OF store_invD(1)[OF assms(1)] assms(2)]
        first_event_def Let_def)
next
  case (Some r)
  with assms(4) show ?thesis
    by (simp add: create_run_def create_run_tx_eq[OF store_invD(1)[OF assms(1)] assms(2)])
qed

theorem create_run_refines_witness:
  "(case create_run demo_json prefix_sha ''acme'' demo_new (calm 5) empty_db of
      (res, d) \<Rightarrow> (map_sum (\<lambda>e. e) env_head_hash res, log_of demo_json d))
   = (let e = next_event prefix_sha 5 RunStarted None None None
                (Some (json_text demo_json (envelope_meta demo_new))) []
      in (Inr (ev_hash e), (log_of demo_json empty_db)((''acme'', ''loan'') \<mapsto> ([e], False))))"
  using create_run_refines[where s = "calm 5" and ns = "''acme''" and new = demo_new
      and sha = prefix_sha, OF store_inv_empty small_empty demo_json_ok]
  by (simp add: demo_new_def)

section \<open>Retries and failures\<close>

lemma prior_remember_result:
  "prior_of ns i (Some key) c = None \<Longrightarrow> db_idem c' = db_idem c \<Longrightarrow>
   prior_of ns i (Some key) (remember_result ns i (Some key) res c') = Some (Inr res)"
  by (auto simp: prior_of_def remember_result_def find_snoc idem_at_def split: option.splits)

lemma append_remembers:
  assumes "store_inv J sha c" and "small c"
    and "store_append sha ns i ev (Some key) s c = (Inr res, d)"
  shows "prior_of ns i (Some key) d = Some (Inr res)"
  using append_cases[OF assms(1,2), of ns i ev "Some key" s] assms(3)
  by (auto simp: Let_def prior_remember_result)

lemma step_of_append: "store_append sha ns i ev key s c = (res, d) \<Longrightarrow> d = apply_op J sha (OpAppend ns i ev key) s c"
  by simp

text \<open>
  a retry appends nothing. Once an append with an idempotency key has succeeded, repeating
  the key on that run at any later time, after any operations (redaction and sealing
  included) and whatever the repeated event says, returns the original result and leaves the
  database as it is.
\<close>

theorem retry_appends_nothing:
  assumes "store_inv J sha c" and "json_ok J" and "meta_ok J (ne_metadata ev)"
    and "store_append sha ns i ev (Some key) s c = (Inr res, d)"
    and "ops_ok J ops" and "room (x # ops) c" and "quiet s'"
  shows "store_append sha ns i ev' (Some key) s' (run_ops J sha ops d)
    = (Inr res, run_ops J sha ops d)"
proof -
  have small: "small c" using assms(6) by (simp add: room_def small_def)
  have "store_inv J sha d" and "room ops d"
    using store_inv_step[OF assms(1) small assms(2), of "OpAppend ns i ev (Some key)" s]
      step_events_length[OF assms(1) small assms(2), of "OpAppend ns i ev (Some key)" s]
      assms(3,4,6) by (simp_all add: room_def)
  then have "prior_of ns i (Some key) (run_ops J sha ops d) = Some (Inr res)"
    using run_ops_keeps(4)[OF _ assms(2,5)] append_remembers[OF assms(1) small assms(4)]
    by (simp add: keeps_keys_def)
  with assms(7) show ?thesis by (simp add: store_append_def)
qed

theorem retry_appends_nothing_witness:
  "store_append prefix_sha ''acme'' ''loan'' demo_note (Some ''k'') (calm 9) demo_db
     = (Inr (result_of (appended demo_json prefix_sha (calm 6) ''acme'' ''loan'' demo_note demo_db1)), demo_db)"
proof -
  have "store_append prefix_sha ''acme'' ''loan'' demo_note (Some ''k'') (calm 6) demo_db1
    = (Inr (result_of (appended demo_json prefix_sha (calm 6) ''acme'' ''loan'' demo_note demo_db1)), demo_db)"
    unfolding demo_db_eq
    by (simp add: append_quiet[OF demo_db1_inv] prior_of_def run_row_of_def Let_def)
  from retry_appends_nothing[OF demo_db1_inv demo_json_ok _ this, of "[]" "(OpGet [] [], calm 0)" "calm 9"]
  show ?thesis
    by (simp add: demo_note_def room_def) (simp add: demo_db1_def)
qed




end
