(* ===== verification/Store_Views.thy ===== *)
theory Store_Views
  imports Store_Props
begin

text \<open>
  What readers of the store see: the window \<open>events\<close> returns, the checkpoint read back, and the
  separation of tenants. \<open>restrict ns\<close> is the database one tenant could know; every operation
  answers from it, changes only it, and commutes with it.
\<close>

section \<open>Windows of a record\<close>

lemma filter_index:
  assumes "\<And>k. k < length xs \<Longrightarrow> P (xs ! k) \<longleftrightarrow> n \<le> k"
  shows "filter P xs = drop n xs"
  using assms
proof (induction xs arbitrary: n)
  case (Cons x xs)
  have "filter P xs = drop (n - 1) xs"
    using Cons.prems[of "Suc k" for k] by (intro Cons.IH) fastforce
  with Cons.prems[of 0] show ?case by (cases n) auto
qed simp

lemma sort_key_sorted: "sorted (map f xs) \<Longrightarrow> sort_key f xs = xs"
  by (induction xs) (auto intro!: insort_is_Cons)

lemma rows_sint:
  assumes "linked sha (record_of J ns i c)" and "small c" and "k < length (rows_of ns i c)"
  shows "sint (er_seq (rows_of ns i c ! k)) = int k"
  using rows_linked_seq[OF assms(1,3)] assms(2,3) length_rows_of[of ns i c]
  by (simp add: small_def sint_of_nat_u64)

definition start_index :: "u64 \<Rightarrow> nat" where
  "start_index start = (if sint start < 0 then 0 else unat start)"

lemma events_rows:
  assumes "linked sha (record_of J ns i c)" and "small c"
  shows "sort_key (\<lambda>r. sint (er_seq r))
      (filter (\<lambda>r. event_at ns i r \<and> sql_le start (er_seq r)) (db_events c))
    = drop (start_index start) (rows_of ns i c)"
proof -
  note k = rows_sint[OF assms]
  have "filter (\<lambda>r. event_at ns i r \<and> sql_le start (er_seq r)) (db_events c)
    = filter (\<lambda>r. sql_le start (er_seq r)) (rows_of ns i c)"
    by (simp add: rows_of_def)
  also have "\<dots> = drop (start_index start) (rows_of ns i c)"
  proof (rule filter_index)
    fix j assume j: "j < length (rows_of ns i c)"
    show "sql_le start (er_seq (rows_of ns i c ! j)) \<longleftrightarrow> start_index start \<le> j"
      using sint_eq_unat[of start] of_nat_le_iff[of "unat start" j, where ?'a = int]
      unfolding sql_le_def k[OF j] start_index_def by auto
  qed
  finally have rows: "filter (\<lambda>r. event_at ns i r \<and> sql_le start (er_seq r)) (db_events c)
    = drop (start_index start) (rows_of ns i c)" .
  have "sorted (map (\<lambda>r. sint (er_seq r)) (rows_of ns i c))"
    by (auto simp: sorted_iff_nth_mono k)
  then have "sorted (drop (start_index start) (map (\<lambda>r. sint (er_seq r)) (rows_of ns i c)))"
    by (rule sorted_wrt_drop)
  then show ?thesis
    unfolding rows by (intro sort_key_sorted) (simp add: drop_map)
qed

lemma store_events_quiet:
  assumes "linked sha (record_of J ns i c)" and "small c" and "quiet s"
  shows "store_events J ns i start limit s c =
    (Inr (take (unat (clamp 1 5000 limit)) (drop (start_index start) (record_of J ns i c))), c)"
  using assms(3)
  by (simp add: store_events_def events_rows[OF assms(1,2)] Let_def record_of_def take_map drop_map)

text \<open>
  \<open>events\<close> returns a window of the record: the events from number \<open>from\<close> on, in order, as
  many as the limit allows, which is raised to 1 and capped at 5000. A \<open>from\<close> of \<open>2^63\<close> or
  more is a negative number to the database and starts at the beginning. Nothing is changed.
\<close>

theorem events_is_a_window:
  assumes "store_inv J sha c" and "small c" and "quiet s"
  shows "store_events J ns i start limit s c =
    (Inr (take (max 1 (min 5000 (unat limit)))
       (drop (if start < 2 ^ 63 then unat start else 0) (record_of J ns i c))), c)"
proof -
  have "unat (clamp 1 5000 limit) = max 1 (min 5000 (unat limit))"
    by (auto simp: clamp_def word_less_nat_alt max_def min_def)
  moreover have "start_index start = (if start < 2 ^ 63 then unat start else 0)"
  proof -
    have "sint start < 0 \<longleftrightarrow> \<not> start < 2 ^ 63"
      using sint_nonneg_iff[of start] by linarith
    then show ?thesis by (simp add: start_index_def)
  qed
  ultimately show ?thesis
    using store_events_quiet[OF linked_of_inv[OF store_invD(1)[OF assms(1)]] assms(2,3)] by simp
qed

theorem events_is_a_window_witness:
  "store_events demo_json ''acme'' ''loan'' 1 0 (calm 9) demo_db
     = (Inr (take 1 (drop 1 (record_of demo_json ''acme'' ''loan'' demo_db))), demo_db)"
  using events_is_a_window[OF demo_db_inv, of "calm 9" "''acme''" "''loan''" 1 0] by simp

section \<open>Tenants\<close>

text \<open>The database as far as one tenant is concerned, and the reply of an operation.\<close>

definition restrict :: "string \<Rightarrow> db \<Rightarrow> db" where
  "restrict ns c =
     \<lparr>db_runs = filter (\<lambda>r. rr_ns r = ns) (db_runs c),
      db_events = filter (\<lambda>r. er_ns r = ns) (db_events c),
      db_idem = filter (\<lambda>r. ir_ns r = ns) (db_idem c),
      db_checkpoints = filter (\<lambda>r. cr_ns r = ns) (db_checkpoints c)\<rparr>"

datatype store_reply =
  ReplyRun "run_envelope store_result"
| ReplyAppend "append_result store_result"
| ReplyUnit "unit store_result"
| ReplyEvents "run_event list store_result"
| ReplyCheckpoint "checkpoint option store_result"

fun op_reply :: "json_lib \<Rightarrow> sha \<Rightarrow> store_op \<Rightarrow> sys \<Rightarrow> db \<Rightarrow> store_reply" where
  "op_reply J sha (OpCreate ns new) s c = ReplyRun (fst (create_run J sha ns new s c))"
| "op_reply J sha (OpAppend ns i ev key) s c = ReplyAppend (fst (store_append sha ns i ev key s c))"
| "op_reply J sha (OpSeal ns i) s c = ReplyAppend (fst (seal J sha ns i s c))"
| "op_reply J sha (OpRedact ns i seq fs a) s c = ReplyAppend (fst (redact J sha ns i seq fs a s c))"
| "op_reply J sha (OpPut ns cp) s c = ReplyUnit (fst (put_checkpoint ns cp s c))"
| "op_reply J sha (OpGet ns i) s c = ReplyRun (fst (get_run J ns i s c))"
| "op_reply J sha (OpEvents ns i start limit) s c =
     ReplyEvents (fst (store_events J ns i start limit s c))"
| "op_reply J sha (OpLatest ns i) s c = ReplyCheckpoint (fst (latest_checkpoint ns i s c))"

fun op_ns :: "store_op \<Rightarrow> string" where
  "op_ns (OpCreate ns new) = ns"
| "op_ns (OpAppend ns i ev key) = ns"
| "op_ns (OpSeal ns i) = ns"
| "op_ns (OpRedact ns i seq fs a) = ns"
| "op_ns (OpPut ns cp) = ns"
| "op_ns (OpGet ns i) = ns"
| "op_ns (OpEvents ns i start limit) = ns"
| "op_ns (OpLatest ns i) = ns"

lemma find_filter: "(\<And>x. P x \<Longrightarrow> Q x) \<Longrightarrow> find P (filter Q xs) = find P xs"
  by (induction xs) auto

lemma list_ex_filter: "(\<And>x. P x \<Longrightarrow> Q x) \<Longrightarrow> list_ex P (filter Q xs) = list_ex P xs"
  by (induction xs) auto

lemma filter_filter_sub: "(\<And>x. P x \<Longrightarrow> Q x) \<Longrightarrow> filter P (filter Q xs) = filter P xs"
  by (induction xs) auto

lemma filter_map_if:
  "(\<And>x. Q (g x) \<longleftrightarrow> Q x) \<Longrightarrow> filter Q (map (\<lambda>x. if P x then g x else x) xs)
     = map (\<lambda>x. if P x then g x else x) (filter Q xs)"
  by (induction xs) auto

lemma filter_map_other:
  "(\<And>x. P x \<Longrightarrow> \<not> Q x \<and> \<not> Q (g x)) \<Longrightarrow> filter Q (map (\<lambda>x. if P x then g x else x) xs) = filter Q xs"
  by (induction xs) auto

lemma restrict_find [simp]:
  "find (run_at ns i) (db_runs (restrict ns c)) = find (run_at ns i) (db_runs c)"
  "list_ex (run_at ns i) (db_runs (restrict ns c)) = list_ex (run_at ns i) (db_runs c)"
  "list_ex (\<lambda>r. event_at ns i r \<and> er_seq r = q) (db_events (restrict ns c))
     = list_ex (\<lambda>r. event_at ns i r \<and> er_seq r = q) (db_events c)"
  "find (\<lambda>r. event_at ns i r \<and> er_seq r = q) (db_events (restrict ns c))
     = find (\<lambda>r. event_at ns i r \<and> er_seq r = q) (db_events c)"
  "find (idem_at ns i key) (db_idem (restrict ns c)) = find (idem_at ns i key) (db_idem c)"
  "list_ex (idem_at ns i key) (db_idem (restrict ns c)) = list_ex (idem_at ns i key) (db_idem c)"
  unfolding restrict_def db.simps
  by (rule find_filter list_ex_filter; simp add: run_at_def event_at_def idem_at_def)+

lemma head_of_restrict [simp]: "head_of ns i (restrict ns c) = head_of ns i c"
  by (simp add: head_of_def)

lemma prior_of_restrict [simp]: "prior_of ns i key (restrict ns c) = prior_of ns i key c"
  by (cases key) (simp_all add: prior_of_def)

text \<open>A computation that stays within a tenant: it commutes with restriction, and others see nothing.\<close>

definition restrict_res :: "string \<Rightarrow> ('a \<times> db) store_result \<Rightarrow> ('a \<times> db) store_result" where
  "restrict_res ns r = map_sum (\<lambda>e. e) (map_prod (\<lambda>a. a) (restrict ns)) r"

definition within :: "string \<Rightarrow> (db \<Rightarrow> ('a \<times> db) store_result) \<Rightarrow> bool" where
  "within ns f \<longleftrightarrow>
     (\<forall>c. f (restrict ns c) = restrict_res ns (f c)) \<and>
     (\<forall>c ns'. ns' \<noteq> ns \<longrightarrow> (case f c of Inl e \<Rightarrow> True | Inr (a, d) \<Rightarrow> restrict ns' d = restrict ns' c))"

lemma withinD:
  assumes "within ns f"
  shows "f (restrict ns c) = restrict_res ns (f c)"
    and "ns' \<noteq> ns \<Longrightarrow> f c = Inr (a, d) \<Longrightarrow> restrict ns' d = restrict ns' c"
proof -
  show "f (restrict ns c) = restrict_res ns (f c)"
    using assms by (simp add: within_def)
  show "restrict ns' d = restrict ns' c" if "ns' \<noteq> ns" "f c = Inr (a, d)"
    using assms[unfolded within_def, THEN conjunct2, rule_format, OF that(1), of c] that(2) by simp
qed

lemma restrict_res_simps [simp]:
  "restrict_res ns (Inl e) = Inl e" "restrict_res ns (Inr (a, d)) = Inr (a, restrict ns d)"
  by (simp_all add: restrict_res_def)

lemma write_event_restrict:
  "write_event ns i q ts k ro n co m p h (restrict ns c)
     = map_sum (\<lambda>e. e) (restrict ns) (write_event ns i q ts k ro n co m p h c)"
  unfolding write_event_def restrict_find
  by (simp add: restrict_def filter_map_if run_at_def)

text \<open>The three updates do not show in another tenant's tables.\<close>

lemma update_runs_other:
  assumes "\<And>r. rr_ns (g r) = rr_ns r" and "ns' \<noteq> ns"
  shows "filter (\<lambda>r. rr_ns r = ns') (map (\<lambda>r. if run_at ns i r then g r else r) rs)
    = filter (\<lambda>r. rr_ns r = ns') rs"
  using assms by (intro filter_map_other) (auto simp: run_at_def)

lemma write_event_other:
  assumes "ns' \<noteq> ns" and "write_event ns i q ts k ro n co m p h c = Inr d"
  shows "restrict ns' d = restrict ns' c"
proof -
  show ?thesis
    using assms update_runs_other[of "\<lambda>r. r\<lparr>rr_head_seq := q, rr_head_hash := blob h\<rparr>" ns' ns i]
    by (auto simp: write_event_def restrict_def split: if_splits)
qed

lemma append_in_tx_within: "within ns (append_in_tx sha s ns i k ro n co m)"
  unfolding within_def append_in_tx_def head_of_restrict write_event_restrict
  by (auto simp: Let_def write_event_other split: sum.split)

lemma withinI:
  assumes "\<And>c. f (restrict ns c) = restrict_res ns (f c)"
    and "\<And>c ns' a d. ns' \<noteq> ns \<Longrightarrow> f c = Inr (a, d) \<Longrightarrow> restrict ns' d = restrict ns' c"
  shows "within ns f"
  using assms by (auto simp: within_def split: sum.split)

lemma create_run_tx_within: "within ns (create_run_tx J sha s ns new)"
proof (rule withinI)
  have snoc: "(restrict ns c)\<lparr>db_runs := db_runs (restrict ns c) @ [r]\<rparr>
    = restrict ns (c\<lparr>db_runs := db_runs c @ [r]\<rparr>)" if "rr_ns r = ns" for c r
    using that by (simp add: restrict_def)
  show "create_run_tx J sha s ns new (restrict ns c) = restrict_res ns (create_run_tx J sha s ns new c)" for c
    by (simp add: create_run_tx_def Let_def snoc write_event_restrict split: sum.split)
next
  fix c ns' a d
  assume "ns' \<noteq> ns" and "create_run_tx J sha s ns new c = Inr (a, d)"
  then show "restrict ns' d = restrict ns' c"
    by (auto simp: create_run_tx_def Let_def dest!: write_event_other[rotated]
        split: if_splits sum.splits) (simp_all add: restrict_def)
qed

lemma remember_restrict:
  "remember ns i key res (restrict ns c) = map_sum (\<lambda>e. e) (restrict ns) (remember ns i key res c)"
  by (cases key) (simp_all add: remember_def, simp add: restrict_def)

lemma remember_other:
  "ns' \<noteq> ns \<Longrightarrow> remember ns i key res c = Inr d \<Longrightarrow> restrict ns' d = restrict ns' c"
  by (auto simp: remember_def restrict_def split: option.splits if_splits)

lemma append_tx_within: "within ns (append_tx sha s ns i ev key)"
proof (rule withinI)
  show "append_tx sha s ns i ev key (restrict ns c) = restrict_res ns (append_tx sha s ns i ev key c)" for c
    unfolding append_tx_def withinD(1)[OF append_in_tx_within]
    by (auto simp: remember_restrict split: sum.split)
next
  fix c ns' a d
  assume "ns' \<noteq> ns" and "append_tx sha s ns i ev key c = Inr (a, d)"
  then show "restrict ns' d = restrict ns' c"
    by (auto simp: append_tx_def dest!: remember_other[rotated] withinD(2)[OF append_in_tx_within, rotated]
        split: sum.splits)
qed

lemma seal_tx_within: "within ns (seal_tx J sha s ns i)"
proof (rule withinI)
  have upd: "restrict ns (c\<lparr>db_runs := map (\<lambda>r. if run_at ns i r then r\<lparr>rr_ended_ts := t\<rparr> else r) (db_runs c)\<rparr>)
    = (restrict ns c)\<lparr>db_runs := map (\<lambda>r. if run_at ns i r then r\<lparr>rr_ended_ts := t\<rparr> else r) (db_runs (restrict ns c))\<rparr>" for c t
    by (simp add: restrict_def filter_map_if)
  show "seal_tx J sha s ns i (restrict ns c) = restrict_res ns (seal_tx J sha s ns i c)" for c
    unfolding seal_tx_def head_of_restrict withinD(1)[OF append_in_tx_within]
    by (auto simp: upd Let_def split: sum.split)
next
  fix c ns' a d
  assume ns: "ns' \<noteq> ns" and "seal_tx J sha s ns i c = Inr (a, d)"
  then obtain d' t where "append_in_tx sha s ns i RunFinished None None None
      (Some (json_text J (json_norm (JObj [(''event_count'', JNum (fst (projr (head_of ns i c)) + 2))])))) c = Inr (a, d')"
    and d: "d = d'\<lparr>db_runs := map (\<lambda>r. if run_at ns i r then r\<lparr>rr_ended_ts := Some t\<rparr> else r) (db_runs d')\<rparr>"
    by (auto simp: seal_tx_def Let_def split: sum.splits)
  from withinD(2)[OF append_in_tx_within ns this(1)] show "restrict ns' d = restrict ns' c"
    using update_runs_other[of "\<lambda>r. r\<lparr>rr_ended_ts := Some t\<rparr>" ns' ns i] ns
    unfolding d by (simp add: restrict_def)
qed

lemma update_event_restrict:
  "(\<And>r. er_ns (g r) = er_ns r) \<Longrightarrow> update_event ns i q g (restrict ns c) = restrict ns (update_event ns i q g c)"
  by (simp add: update_event_def restrict_def filter_map_if)

lemma update_event_other:
  assumes "\<And>r. er_ns (g r) = er_ns r" and "ns' \<noteq> ns"
  shows "restrict ns' (update_event ns i q g c) = restrict ns' c"
proof -
  have "filter (\<lambda>r. er_ns r = ns') (map (\<lambda>r. if event_at ns i r \<and> er_seq r = q then g r else r) rs)
    = filter (\<lambda>r. er_ns r = ns') rs" for rs
    using assms by (intro filter_map_other) (auto simp: event_at_def)
  then show ?thesis by (simp add: update_event_def restrict_def)
qed

lemma clear_columns_ns [simp]: "er_ns (clear_columns row fs r) = er_ns r"
  unfolding clear_columns_def
  by (induction fs arbitrary: r) (auto simp: clear_column_def)

lemma redact_tx_within: "within ns (redact_tx J sha s ns i q fs a)"
proof (rule withinI)
  show "redact_tx J sha s ns i q fs a (restrict ns c) = restrict_res ns (redact_tx J sha s ns i q fs a c)" for c
    by (simp add: redact_tx_def redact_loop update_event_restrict withinD(1)[OF append_in_tx_within]
        split: option.split)
next
  fix c ns' x d
  assume ns: "ns' \<noteq> ns" and "redact_tx J sha s ns i q fs a c = Inr (x, d)"
  then show "restrict ns' d = restrict ns' c"
    by (auto simp: redact_tx_def redact_loop Let_def update_event_other
        dest!: withinD(2)[OF append_in_tx_within ns] split: option.splits)
qed

lemma end_tx_within:
  assumes "within ns f"
  shows "end_tx s (restrict ns c) (f (restrict ns c)) = map_prod (\<lambda>r. r) (restrict ns) (end_tx s c (f c))"
  unfolding withinD(1)[OF assms]
  by (cases "f c"; cases "sys_fault s") (auto simp: end_tx_def)

lemma end_tx_other:
  assumes "within ns f" and "ns' \<noteq> ns"
  shows "restrict ns' (snd (end_tx s c (f c))) = restrict ns' c"
proof (cases "f c")
  case (Inr r)
  with withinD(2)[OF assms, of c "fst r" "snd r"] show ?thesis
    by (cases r; cases "sys_fault s") (auto simp: end_tx_def)
qed (simp add: end_tx_def)

lemma tx_call_within:
  assumes "within ns f"
  shows "with_conn (tx_immediate f s) s (restrict ns c)
      = map_prod (\<lambda>r. r) (restrict ns) (with_conn (tx_immediate f s) s c)"
  using end_tx_within[OF assms, of s c]
  by (cases "sys_fault s") (auto simp: with_conn_def tx_immediate_def begin_stmt_def)

lemma tx_call_other:
  assumes "within ns f" and "ns' \<noteq> ns"
  shows "restrict ns' (snd (with_conn (tx_immediate f s) s c)) = restrict ns' c"
  using end_tx_other[OF assms, of s c]
  by (cases "sys_fault s") (auto simp: with_conn_def tx_immediate_def begin_stmt_def)

lemma put_within: "within ns (\<lambda>c. Inr ((), c\<lparr>db_checkpoints :=
    filter (\<lambda>r. \<not> (cp_at ns i r \<and> cr_seq r = q)) (db_checkpoints c) @
    [\<lparr>cr_ns = ns, cr_run_id = i, cr_seq = q, cr_head_hash = h, cr_ts = t, cr_key_id = k, cr_sig = g\<rparr>]\<rparr>))"
proof (rule withinI)
  have "filter (\<lambda>r. cr_ns r = ns') (filter (\<lambda>r. \<not> (cp_at ns i r \<and> cr_seq r = q)) rs)
    = filter (\<lambda>r. cr_ns r = ns') rs" if "ns' \<noteq> ns" for ns' rs
    using that by (induction rs) (auto simp: cp_at_def)
  then show "restrict ns' d = restrict ns' c"
    if "ns' \<noteq> ns" "Inr ((), c\<lparr>db_checkpoints :=
      filter (\<lambda>r. \<not> (cp_at ns i r \<and> cr_seq r = q)) (db_checkpoints c) @
      [\<lparr>cr_ns = ns, cr_run_id = i, cr_seq = q, cr_head_hash = h, cr_ts = t, cr_key_id = k, cr_sig = g\<rparr>]\<rparr>)
      = Inr (a, d)" for c ns' a d
    using that by (auto simp: restrict_def)
qed (simp add: restrict_def conj_commute)

lemma tenant_call:
  assumes "within ns f"
  shows "fst (with_conn (tx_immediate f s) s (restrict ns c)) = fst (with_conn (tx_immediate f s) s c)"
    "snd (with_conn (tx_immediate f s) s (restrict ns c)) = restrict ns (snd (with_conn (tx_immediate f s) s c))"
  by (simp_all add: tx_call_within[OF assms])

lemma append_tenant:
  "store_append sha ns i ev key s (restrict ns c)
     = map_prod (\<lambda>r. r) (restrict ns) (store_append sha ns i ev key s c)"
  "ns' \<noteq> ns \<Longrightarrow> restrict ns' (snd (store_append sha ns i ev key s c)) = restrict ns' c"
  using end_tx_within[OF append_tx_within, of s ns c sha s i ev key]
    end_tx_other[OF append_tx_within, of ns' ns s c sha s i ev key]
  by (cases "sys_fault s"; cases "prior_of ns i key c";
      auto simp: store_append_def with_conn_def begin_stmt_def)+

lemma redact_tenant:
  "redact J sha ns i q fs a s (restrict ns c)
     = map_prod (\<lambda>r. r) (restrict ns) (redact J sha ns i q fs a s c)"
  "ns' \<noteq> ns \<Longrightarrow> restrict ns' (snd (redact J sha ns i q fs a s c)) = restrict ns' c"
  using tx_call_within[OF redact_tx_within, of J sha s ns i q fs a s c]
    tx_call_other[OF redact_tx_within, of ns' ns J sha s i q fs a s c]
  by (cases "find (\<lambda>f. f \<notin> set REDACTABLE) fs"; cases "sys_fault s"; auto simp: redact_def with_conn_def)+

lemma put_tenant:
  "put_checkpoint ns cp s (restrict ns c) = map_prod (\<lambda>r. r) (restrict ns) (put_checkpoint ns cp s c)"
  "ns' \<noteq> ns \<Longrightarrow> restrict ns' (snd (put_checkpoint ns cp s c)) = restrict ns' c"
  unfolding put_checkpoint_def by (rule tx_call_within[OF put_within], rule tx_call_other[OF put_within])

lemma reads_tenant:
  "fst (get_run J ns i s (restrict ns c)) = fst (get_run J ns i s c)"
  "fst (store_events J ns i start limit s (restrict ns c)) = fst (store_events J ns i start limit s c)"
  "fst (latest_checkpoint ns i s (restrict ns c)) = fst (latest_checkpoint ns i s c)"
proof -
  have "filter (\<lambda>r. event_at ns i r \<and> P r) (db_events (restrict ns c))
    = filter (\<lambda>r. event_at ns i r \<and> P r) (db_events c)" for P
    by (simp add: restrict_def) (rule filter_cong; auto simp: event_at_def)
  moreover have "filter (cp_at ns i) (db_checkpoints (restrict ns c)) = filter (cp_at ns i) (db_checkpoints c)"
    by (simp add: restrict_def) (rule filter_cong; auto simp: cp_at_def)
  ultimately show "fst (get_run J ns i s (restrict ns c)) = fst (get_run J ns i s c)"
    "fst (store_events J ns i start limit s (restrict ns c)) = fst (store_events J ns i start limit s c)"
    "fst (latest_checkpoint ns i s (restrict ns c)) = fst (latest_checkpoint ns i s c)"
    by (cases "sys_fault s";
        simp add: get_run_def store_events_def latest_checkpoint_def with_conn_def query_def begin_stmt_def)+
qed

lemma op_tenant:
  "op_reply J sha op s (restrict (op_ns op) c) = op_reply J sha op s c \<and>
   apply_op J sha op s (restrict (op_ns op) c) = restrict (op_ns op) (apply_op J sha op s c) \<and>
   (\<forall>ns'. ns' \<noteq> op_ns op \<longrightarrow> restrict ns' (apply_op J sha op s c) = restrict ns' c)"
proof (cases op)
  case (OpCreate ns new)
  then show ?thesis
    by (simp add: create_run_def tenant_call[OF create_run_tx_within] tx_call_other[OF create_run_tx_within])
next
  case (OpAppend ns i ev key)
  then show ?thesis by (simp add: append_tenant)
next
  case (OpSeal ns i)
  then show ?thesis
    by (simp add: seal_def tenant_call[OF seal_tx_within] tx_call_other[OF seal_tx_within])
next
  case (OpRedact ns i q fs a)
  then show ?thesis by (simp add: redact_tenant)
next
  case (OpPut ns cp)
  then show ?thesis
    by (simp add: put_tenant)
qed (simp_all add: reads_tenant)

text \<open>
  tenants are separate. An operation answers from the rows of its own namespace alone, what
  it leaves there depends on nothing else, and every other namespace is left as it was; under
  any clock and any faults.
\<close>

theorem tenants_are_separate:
  "op_reply J sha op s (restrict (op_ns op) c) = op_reply J sha op s c \<and>
   apply_op J sha op s (restrict (op_ns op) c) = restrict (op_ns op) (apply_op J sha op s c) \<and>
   (\<forall>ns'. ns' \<noteq> op_ns op \<longrightarrow> restrict ns' (apply_op J sha op s c) = restrict ns' c)"
  by (rule op_tenant)

theorem tenants_are_separate_witness:
  "restrict ''globex'' (apply_op demo_json prefix_sha (OpSeal ''acme'' ''loan'') (calm 8) demo_db)
     = restrict ''globex'' demo_db"
  using tenants_are_separate[of demo_json prefix_sha "OpSeal ''acme'' ''loan''" "calm 8" demo_db]
  by simp

section \<open>Checkpoints read back\<close>

lemma hd_sort_key_min:
  assumes "\<forall>y \<in> set xs. f x < f y"
  shows "\<exists>ys. sort_key f (xs @ [x]) = x # ys"
proof (cases "sort_key f (xs @ [x])")
  case Nil
  then have "set (sort_key f (xs @ [x])) = {}" by simp
  then show ?thesis by simp
next
  case (Cons y ys)
  then have y: "y \<in> set (xs @ [x])" "x \<in> set (y # ys)" by (metis list.set_intros(1) set_sort, metis Cons Un_iff list.set_intros(1) set_append set_sort)
  have "sorted (map f (y # ys))" using sorted_sort_key[of f "xs @ [x]"] Cons by simp
  with y have "f y \<le> f x" by auto
  with y assms have "y = x" by (auto dest: leD)
  with Cons show ?thesis by simp
qed

lemma put_then_latest:
  assumes "quiet s" and "quiet s'"
    and "list_all (\<lambda>r. cp_at ns (cp_run_id cp) r \<longrightarrow> sql_le (cr_seq r) (cp_seq cp)) (db_checkpoints c)"
  shows "fst (latest_checkpoint ns (cp_run_id cp) s' (snd (put_checkpoint ns cp s c))) = Inr (Some cp)"
proof -
  let ?row = "\<lparr>cr_ns = ns, cr_run_id = cp_run_id cp, cr_seq = cp_seq cp,
    cr_head_hash = blob (cp_head_hash cp), cr_ts = cp_ts cp, cr_key_id = cp_key_id cp,
    cr_sig = cp_sig cp\<rparr>"
  let ?old = "filter (cp_at ns (cp_run_id cp))
    (filter (\<lambda>r. \<not> (cp_at ns (cp_run_id cp) r \<and> cr_seq r = cp_seq cp)) (db_checkpoints c))"
  have "\<forall>r \<in> set ?old. - sint (cr_seq ?row) < - sint (cr_seq r)"
    using assms(3) by (auto simp: list_all_iff sql_le_def order.strict_iff_order dest: signed_word_eqI)
  then obtain rs where "sort_key (\<lambda>r. - sint (cr_seq r)) (?old @ [?row]) = ?row # rs"
    using hd_sort_key_min[of ?old "\<lambda>r. - sint (cr_seq r)" ?row] by blast
  moreover have "filter (cp_at ns (cp_run_id cp)) (db_checkpoints (snd (put_checkpoint ns cp s c))) = ?old @ [?row]"
    using assms(1) by (simp add: put_checkpoint_def cp_at_def)
  ultimately show ?thesis
    using assms(2) by (simp add: latest_checkpoint_def)
qed

text \<open>
  the newest checkpoint reads back as it was signed. After a checkpoint is stored whose
  sequence number is at least that of every checkpoint of its run, \<open>latest_checkpoint\<close> of the
  run returns exactly that checkpoint, replacing an older one for the same number.
\<close>

theorem checkpoint_reads_back:
  assumes "quiet s" and "quiet s'"
    and "list_all (\<lambda>r. cp_at ns (cp_run_id cp) r \<longrightarrow> sql_le (cr_seq r) (cp_seq cp)) (db_checkpoints c)"
  shows "fst (latest_checkpoint ns (cp_run_id cp) s' (snd (put_checkpoint ns cp s c))) = Inr (Some cp)"
  using assms by (rule put_then_latest)

theorem checkpoint_reads_back_witness:
  "fst (latest_checkpoint ''acme'' ''loan-4821'' (calm 2) (snd (put_checkpoint ''acme'' demo_cp (calm 1) empty_db)))
     = Inr (Some demo_cp)"
  using checkpoint_reads_back[of "calm 1" "calm 2" "''acme''" demo_cp empty_db]
  by (simp add: demo_cp_def empty_db_def)

end
