(* ===== verification/Approvals.thy ===== *)
theory Approvals
  imports Store
begin

text \<open>
  Approval gates, \<open>crates/tideline-server/src/tlr/approvals.rs\<close>: decisions, the projection of a
  record to its gates, and the operations that open, decide and expire them through the
  storage interface. The lemmas give the projection's meaning: a gate is decided by the first
  decision that names it, and a decided gate never changes.
\<close>

definition REQUESTED :: string where
  "REQUESTED = ''approval_requested''"

definition RESOLVED :: string where
  "RESOLVED = ''approval_resolved''"

datatype decision = Approved | Rejected | Expired

fun decision_str :: "decision \<Rightarrow> string" where
  "decision_str Approved = ''approved''"
| "decision_str Rejected = ''rejected''"
| "decision_str Expired = ''expired''"

definition decision_parse :: "string \<Rightarrow> decision option" where
  "decision_parse s =
     (if s = ''approved'' \<or> s = ''approve'' then Some Approved
      else if s = ''rejected'' \<or> s = ''reject'' then Some Rejected
      else if s = ''expired'' then Some Expired
      else None)"

datatype approval_state = Pending | Resolved decision

record gate =
  g_seq :: u64
  g_action :: string
  g_expires_at :: u64
  g_state :: approval_state
  g_reviewer :: "string option"
  g_reviewer_principal :: "string option"
  g_attested :: bool
  g_note :: "string option"

definition event_meta :: "json_lib \<Rightarrow> run_event \<Rightarrow> json" where
  "event_meta J e =
     (case Option.bind (metadata_raw e) (json_parse J) of None \<Rightarrow> JNull | Some v \<Rightarrow> v)"

section \<open>The projection\<close>

definition open_gate :: "json_lib \<Rightarrow> run_event \<Rightarrow> gate" where
  "open_gate J e =
     (let m = event_meta J e
      in \<lparr>g_seq = ev_seq e,
          g_action = (case as_str (json_at m ''action'') of None \<Rightarrow> '''' | Some s \<Rightarrow> s),
          g_expires_at = (case as_u64 (json_at m ''expires_at'') of None \<Rightarrow> 0 | Some n \<Rightarrow> n),
          g_state = Pending, g_reviewer = None, g_reviewer_principal = None,
          g_attested = False, g_note = None\<rparr>)"

definition decide_gate :: "json \<Rightarrow> decision \<Rightarrow> gate \<Rightarrow> gate" where
  "decide_gate m d g = g
     \<lparr>g_state := Resolved d,
      g_reviewer := as_str (json_at m ''reviewer''),
      g_reviewer_principal := as_str (json_at m ''reviewer_principal''),
      g_attested := (case as_bool (json_at m ''attested'') of None \<Rightarrow> False | Some b \<Rightarrow> b),
      g_note := as_str (json_at m ''note'')\<rparr>"

text \<open>\<open>iter_mut().find(p)\<close>, then an assignment through the reference.\<close>

fun update_first :: "('a \<Rightarrow> bool) \<Rightarrow> ('a \<Rightarrow> 'a) \<Rightarrow> 'a list \<Rightarrow> 'a list" where
  "update_first P f [] = []"
| "update_first P f (x # xs) = (if P x then f x # xs else x # update_first P f xs)"

definition project_step :: "json_lib \<Rightarrow> gate list \<Rightarrow> run_event \<Rightarrow> gate list" where
  "project_step J gates e =
     (if ev_kind e \<noteq> Decision then gates
      else if ev_name e = Some REQUESTED then gates @ [open_gate J e]
      else if ev_name e = Some RESOLVED then
        (let m = event_meta J e
         in case as_u64 (json_at m ''target_seq'') of
              None \<Rightarrow> gates
            | Some target \<Rightarrow>
                (case Option.bind (as_str (json_at m ''decision'')) decision_parse of
                   None \<Rightarrow> gates
                 | Some decision \<Rightarrow>
                     update_first (\<lambda>g. g_seq g = target \<and> g_state g = Pending)
                       (decide_gate m decision) gates))
      else gates)"

definition project :: "json_lib \<Rightarrow> run_event list \<Rightarrow> gate list" where
  "project J events = foldl (project_step J) [] events"

section \<open>The operations\<close>

definition decision_event :: "json_lib \<Rightarrow> string \<Rightarrow> json \<Rightarrow> new_event store_result" where
  "decision_event J name metadata =
     (let s = json_text J (json_norm metadata)
      in case raw_value J s of
           None \<Rightarrow> Inl (Backend (json_error J s))
         | Some raw \<Rightarrow> Inr \<lparr>ne_kind = Decision, ne_role = None, ne_name = Some name,
                            ne_content = None, ne_metadata = Some raw\<rparr>)"

text \<open>\<open>store.append(..).await?.seq\<close>\<close>

definition append_seq ::
  "'s tlr_store \<Rightarrow> string \<Rightarrow> string \<Rightarrow> new_event store_result \<Rightarrow> 's world
   \<Rightarrow> u64 store_result \<times> 's world" where
  "append_seq S ns run_id ev w =
     (case ev of
        Inl e \<Rightarrow> (Inl e, w)
      | Inr ev \<Rightarrow>
          (case st_append S ns run_id ev None w of
             (Inl e, w) \<Rightarrow> (Inl e, w)
           | (Inr r, w) \<Rightarrow> (Inr (ar_seq r), w)))"

definition request_meta :: "string \<Rightarrow> u64 \<Rightarrow> json" where
  "request_meta action expires_at =
     JObj [(''action'', JStr action), (''expires_at'', JNum expires_at)]"

definition request ::
  "json_lib \<Rightarrow> 's tlr_store \<Rightarrow> string \<Rightarrow> string \<Rightarrow> string \<Rightarrow> u64 \<Rightarrow> 's world
   \<Rightarrow> u64 store_result \<times> 's world" where
  "request J S ns run_id action expires_at w =
     append_seq S ns run_id (decision_event J REQUESTED (request_meta action expires_at)) w"

definition resolve_meta ::
  "u64 \<Rightarrow> decision \<Rightarrow> string option \<Rightarrow> string option \<Rightarrow> bool \<Rightarrow> string option \<Rightarrow> json" where
  "resolve_meta target_seq decision reviewer reviewer_principal attested note = JObj
     [(''target_seq'', JNum target_seq), (''decision'', JStr (decision_str decision)),
      (''reviewer'', json_of_opt reviewer), (''reviewer_principal'', json_of_opt reviewer_principal),
      (''attested'', JBool attested), (''note'', json_of_opt note)]"

definition resolve ::
  "json_lib \<Rightarrow> 's tlr_store \<Rightarrow> string \<Rightarrow> string \<Rightarrow> u64 \<Rightarrow> decision \<Rightarrow> string option
   \<Rightarrow> string option \<Rightarrow> bool \<Rightarrow> string option \<Rightarrow> 's world \<Rightarrow> u64 store_result \<times> 's world" where
  "resolve J S ns run_id target_seq decision reviewer reviewer_principal attested note w =
     (case st_events S ns run_id 0 5000 w of
        (Inl e, w) \<Rightarrow> (Inl e, w)
      | (Inr events, w) \<Rightarrow>
          (case find (\<lambda>g. g_seq g = target_seq) (project J events) of
             None \<Rightarrow> (Inl NotFound, w)
           | Some g \<Rightarrow>
               if g_state g \<noteq> Pending
               then (Inl (Conflict (''gate '' @ dec target_seq @ '' is already resolved'')), w)
               else append_seq S ns run_id (decision_event J RESOLVED
                      (resolve_meta target_seq decision reviewer reviewer_principal attested note)) w))"

fun expire_loop ::
  "json_lib \<Rightarrow> 's tlr_store \<Rightarrow> string \<Rightarrow> string \<Rightarrow> u64 list \<Rightarrow> nat \<Rightarrow> 's world
   \<Rightarrow> nat store_result \<times> 's world" where
  "expire_loop J S ns run_id [] n w = (Inr n, w)"
| "expire_loop J S ns run_id (seq # lapsed) n w =
     (case resolve J S ns run_id seq Expired None None False (Some ''no decision before expiry'') w of
        (Inl e, w) \<Rightarrow> (Inl e, w)
      | (Inr _, w) \<Rightarrow> expire_loop J S ns run_id lapsed (n + 1) w)"

definition lapsed_gates :: "json_lib \<Rightarrow> run_event list \<Rightarrow> u64 \<Rightarrow> u64 list" where
  "lapsed_gates J events now =
     map g_seq (filter (\<lambda>g. g_state g = Pending \<and> g_expires_at g \<le> now) (project J events))"

definition expire_lapsed_in ::
  "json_lib \<Rightarrow> 's tlr_store \<Rightarrow> string \<Rightarrow> string \<Rightarrow> run_event list \<Rightarrow> u64 \<Rightarrow> 's world
   \<Rightarrow> nat store_result \<times> 's world" where
  "expire_lapsed_in J S ns run_id events now w =
     (let lapsed = lapsed_gates J events now
      in if lapsed = [] then (Inr 0, w) else expire_loop J S ns run_id lapsed 0 w)"

definition expire_lapsed ::
  "json_lib \<Rightarrow> 's tlr_store \<Rightarrow> string \<Rightarrow> string \<Rightarrow> u64 \<Rightarrow> 's world \<Rightarrow> nat store_result \<times> 's world" where
  "expire_lapsed J S ns run_id now w =
     (case st_events S ns run_id 0 5000 w of
        (Inl e, w) \<Rightarrow> (Inl e, w)
      | (Inr events, w) \<Rightarrow> expire_lapsed_in J S ns run_id events now w)"

section \<open>What the projection means\<close>

text \<open>An event read as a request, or as a decision on a gate.\<close>

definition is_request :: "run_event \<Rightarrow> bool" where
  "is_request e \<longleftrightarrow> ev_kind e = Decision \<and> ev_name e = Some REQUESTED"

definition decides :: "json_lib \<Rightarrow> run_event \<Rightarrow> (u64 \<times> decision) option" where
  "decides J e =
     (if ev_kind e = Decision \<and> ev_name e = Some RESOLVED
      then case (as_u64 (json_at (event_meta J e) ''target_seq''),
                 Option.bind (as_str (json_at (event_meta J e) ''decision'')) decision_parse) of
             (Some t, Some d) \<Rightarrow> Some (t, d)
           | _ \<Rightarrow> None
      else None)"

lemma REQUESTED_neq_RESOLVED [simp]: "REQUESTED \<noteq> RESOLVED" "RESOLVED \<noteq> REQUESTED"
  by (simp_all add: REQUESTED_def RESOLVED_def)

lemma project_step_eq:
  "project_step J gates e =
     (if is_request e then gates @ [open_gate J e]
      else case decides J e of
             None \<Rightarrow> gates
           | Some (t, d) \<Rightarrow> update_first (\<lambda>g. g_seq g = t \<and> g_state g = Pending)
                              (decide_gate (event_meta J e) d) gates)"
  by (auto simp: project_step_def is_request_def decides_def Let_def split: option.splits)

lemma project_snoc [simp]: "project J (evs @ [e]) = project_step J (project J evs) e"
  by (simp add: project_def)

lemma project_Nil [simp]: "project J [] = []"
  by (simp add: project_def)

lemma update_first_map:
  "(\<And>x. h (f x) = h x) \<Longrightarrow> map h (update_first P f xs) = map h xs"
  by (induction xs) simp_all

lemma length_update_first [simp]: "length (update_first P f xs) = length xs"
  by (induction xs) simp_all

lemma update_first_nth: "i < length xs \<Longrightarrow> \<not> P (xs ! i) \<Longrightarrow> update_first P f xs ! i = xs ! i"
  by (induction xs arbitrary: i) (auto simp: nth_Cons split: nat.splits)

lemma update_first_distinct:
  "distinct (map h xs) \<Longrightarrow> update_first (\<lambda>x. h x = k \<and> Q x) f xs = map (\<lambda>x. if h x = k \<and> Q x then f x else x) xs"
proof (induction xs)
  case (Cons x xs)
  have "map (\<lambda>x. if h x = k \<and> Q x then f x else x) xs = xs" if "h x = k"
    using Cons.prems that by (intro map_idI) (auto simp: image_iff)
  with Cons show ?case by auto
qed simp

lemma g_seq_decide [simp]: "g_seq (decide_gate m d g) = g_seq g"
  by (simp add: decide_gate_def)

text \<open>The gates are the requests, in order.\<close>

lemma project_seqs: "map g_seq (project J evs) = map ev_seq (filter is_request evs)"
  by (induction evs rule: rev_induct)
    (auto simp: project_step_eq update_first_map open_gate_def Let_def split: option.split)

lemma step_final:
  assumes "i < length gates" and "g_state (gates ! i) \<noteq> Pending"
  shows "i < length (project_step J gates e) \<and> project_step J gates e ! i = gates ! i"
  using assms by (auto simp: project_step_eq nth_append update_first_nth split: option.split)

lemma decided_stays:
  assumes "i < length (project J evs)" and "g_state (project J evs ! i) \<noteq> Pending"
  shows "i < length (project J (evs @ es)) \<and> project J (evs @ es) ! i = project J evs ! i"
proof (induction es rule: rev_induct)
  case (snoc e es)
  then show ?case
    using step_final[of i "project J (evs @ es)" J e] assms(2)
    by (simp flip: append_assoc)
qed (simp add: assms(1))

text \<open>
  A gate as a function of its request and what follows: pending until the first event that
  decides it.
\<close>

fun gate_after :: "json_lib \<Rightarrow> gate \<Rightarrow> run_event list \<Rightarrow> gate" where
  "gate_after J g [] = g"
| "gate_after J g (e # es) =
     (case decides J e of
        None \<Rightarrow> gate_after J g es
      | Some (t, d) \<Rightarrow> if t = g_seq g then decide_gate (event_meta J e) d g else gate_after J g es)"

fun gates_of :: "json_lib \<Rightarrow> run_event list \<Rightarrow> gate list" where
  "gates_of J [] = []"
| "gates_of J (e # es) =
     (if is_request e then gate_after J (open_gate J e) es # gates_of J es else gates_of J es)"

definition gate_next :: "json_lib \<Rightarrow> run_event \<Rightarrow> gate \<Rightarrow> gate" where
  "gate_next J e g = (if g_state g = Pending then gate_after J g [e] else g)"

lemma gate_after_snoc:
  "g_state g = Pending \<Longrightarrow> gate_after J g (es @ [e]) = gate_next J e (gate_after J g es)"
  by (induction es) (auto simp: gate_next_def decide_gate_def split: option.splits)

lemma open_gate_simps [simp]:
  "g_state (open_gate J e) = Pending" "g_seq (open_gate J e) = ev_seq e"
  by (simp_all add: open_gate_def Let_def)

lemma gates_of_snoc:
  "gates_of J (evs @ [e])
     = map (gate_next J e) (gates_of J evs) @ (if is_request e then [open_gate J e] else [])"
  by (induction evs) (simp_all add: gate_after_snoc)

lemma request_not_decides: "is_request e \<Longrightarrow> decides J e = None"
  by (simp add: is_request_def decides_def)

lemma gate_next_eq:
  "gate_next J e = (case decides J e of
      None \<Rightarrow> (\<lambda>g. g)
    | Some (t, d) \<Rightarrow> (\<lambda>g. if g_seq g = t \<and> g_state g = Pending
                        then decide_gate (event_meta J e) d g else g))"
  by (rule ext) (auto simp: gate_next_def split: option.split)

lemma project_step_map:
  assumes "distinct (map g_seq gates)"
  shows "project_step J gates e
    = map (gate_next J e) gates @ (if is_request e then [open_gate J e] else [])"
  using update_first_distinct[OF assms]
  by (auto simp: project_step_eq gate_next_eq request_not_decides split: option.split)

lemma project_gates_of:
  assumes "distinct (map ev_seq evs)"
  shows "project J evs = gates_of J evs"
  using assms
proof (induction evs rule: rev_induct)
  case (snoc e evs)
  have "distinct (map g_seq (project J evs))"
    unfolding project_seqs using snoc.prems by (simp add: distinct_map_filter)
  with snoc show ?case by (simp add: project_step_map gates_of_snoc)
qed simp

text \<open>
  a gate is decided by the first decision that names it. In a record whose sequence
  numbers are distinct, the projection lists the requests in order, each with the state its
  own request opens and the first later event that is a well-formed decision on its number;
  later decisions on the same gate, decisions without a readable target or outcome, and all
  other events change nothing.
\<close>

theorem first_decision_wins:
  assumes "distinct (map ev_seq evs)"
  shows "project J evs = gates_of J evs"
  using assms by (rule project_gates_of)

text \<open>
  C25: a decided gate is final. Whatever is appended to a record, well-formed or not, by
  whatever race, a gate the record decides keeps its place, outcome, reviewer, attestation
  and note.
\<close>

theorem decided_gate_is_final:
  assumes "i < length (project J evs)" and "g_state (project J evs ! i) \<noteq> Pending"
  shows "i < length (project J (evs @ es)) \<and> project J (evs @ es) ! i = project J evs ! i"
  using assms by (rule decided_stays)

text \<open>A request and two decisions on it.\<close>

definition demo_request :: run_event where
  "demo_request = default_event\<lparr>ev_kind := Decision, ev_name := Some REQUESTED,
     ev_metadata := Some (json_text demo_json (request_meta ''approve_loan'' 9))\<rparr>"

definition demo_decide :: "u64 \<Rightarrow> decision \<Rightarrow> run_event" where
  "demo_decide seq d = default_event\<lparr>ev_seq := seq, ev_kind := Decision, ev_name := Some RESOLVED,
     ev_metadata := Some (json_text demo_json (resolve_meta 0 d (Some ''ann'') None False None))\<rparr>"

lemma json_plain_gate [simp]:
  "json_plain (request_meta a x)" "json_plain (resolve_meta t d r p b n)"
  by (simp_all add: request_meta_def resolve_meta_def)

lemma demo_decides:
  "decides demo_json (demo_decide seq d) = Some (0, d)" "is_request (demo_decide seq d) = False"
  "is_request demo_request" "ev_seq demo_request = 0" "ev_seq (demo_decide seq d) = seq"
  by (cases d; simp add: decides_def is_request_def demo_decide_def demo_request_def event_meta_def
      metadata_raw_def default_event_def resolve_meta_def bt_of_list_def decision_parse_def)+

theorem first_decision_wins_witness:
  "map g_state (project demo_json [demo_request, demo_decide 1 Rejected, demo_decide 2 Approved])
     = [Resolved Rejected]"
  using first_decision_wins[of "[demo_request, demo_decide 1 Rejected, demo_decide 2 Approved]" demo_json]
  by (simp add: demo_decides decide_gate_def)

theorem decided_gate_is_final_witness:
  "g_state (project demo_json ([demo_request, demo_decide 1 Rejected] @ [demo_decide 2 Approved]) ! 0)
     = Resolved Rejected"
proof -
  have "project demo_json [demo_request, demo_decide 1 Rejected]
    = [decide_gate (event_meta demo_json (demo_decide 1 Rejected)) Rejected (open_gate demo_json demo_request)]"
    by (simp add: project_gates_of demo_decides)
  with decided_gate_is_final[of 0 demo_json "[demo_request, demo_decide 1 Rejected]" "[demo_decide 2 Approved]"]
  show ?thesis by (simp add: decide_gate_def)
qed

section \<open>Erased decisions\<close>

lemma foldl_list_update:
  "i < length xs \<Longrightarrow> foldl f a (xs[i := x]) = foldl f (f (foldl f a (take i xs)) x) (drop (Suc i) xs)"
  by (simp add: upd_conv_take_nth_drop)

lemma erased_decides: "''metadata'' \<in> set fs \<or> ''name'' \<in> set fs \<Longrightarrow> decides J (erase_event sha fs e) = None"
  by (auto simp: decides_def erase_event_def event_meta_def metadata_raw_def)

text \<open>
  C39: erasing a decision reopens its gate. When the metadata of the event that decided a gate
  is redacted, the projection of the record is that of the record without the event: the gate
  is pending again, although the record still verifies and still holds the event. The next
  decision is accepted as if it were the first.
\<close>

theorem erased_decision_reopens:
  assumes "i < length evs" and "ev_name (evs ! i) = Some RESOLVED" and "''metadata'' \<in> set fs"
  shows "project J (evs[i := erase_event sha fs (evs ! i)]) = project J (take i evs @ drop (Suc i) evs)"
proof -
  have "\<not> is_request (erase_event sha fs (evs ! i))"
    using assms(2) by (simp add: is_request_def erase_event_def)
  then have "project_step J gates (erase_event sha fs (evs ! i)) = gates" for gates
    using assms(3) by (simp add: project_step_eq erased_decides)
  with assms(1) show ?thesis by (simp add: project_def foldl_list_update)
qed

theorem erased_decision_reopens_witness:
  "map g_state (project demo_json [demo_request,
       erase_event prefix_sha [''metadata''] (demo_decide 1 Rejected), demo_decide 2 Approved])
     = [Resolved Approved]"
proof -
  let ?evs = "[demo_request, demo_decide 1 Rejected, demo_decide 2 Approved]"
  have "project demo_json (?evs[1 := erase_event prefix_sha [''metadata''] (?evs ! 1)])
    = project demo_json (take 1 ?evs @ drop (Suc 1) ?evs)"
    by (rule erased_decision_reopens) (simp_all add: demo_decide_def)
  then show ?thesis
    by (simp add: project_gates_of demo_decides decide_gate_def)
qed

end
