(* ===== verification/Gates.thy ===== *)
theory Gates
  imports Approvals Record_Log
begin

text \<open>
  Gates over a store: what \<open>request\<close>, \<open>resolve\<close> and \<open>expire_lapsed\<close> of \<open>Approvals\<close> do to the
  gates of a run, proved once for every store that keeps the contract \<open>record_log\<close>.
\<close>

section \<open>The events the operations append\<close>

lemma decision_parse_str [simp]: "decision_parse (decision_str d) = Some d"
  by (cases d) (simp_all add: decision_parse_def)

definition gate_new_event :: "json_lib \<Rightarrow> string \<Rightarrow> json \<Rightarrow> new_event" where
  "gate_new_event J name m = \<lparr>ne_kind = Decision, ne_role = None, ne_name = Some name,
     ne_content = None, ne_metadata = Some (json_text J (json_norm m))\<rparr>"

lemma decision_event_eq:
  "json_ok J \<Longrightarrow> json_plain m \<Longrightarrow> decision_event J name m = Inr (gate_new_event J name m)"
  by (simp add: decision_event_def gate_new_event_def Let_def)

lemma gate_event_simps [simp]:
  "ev_kind (event_for sha s (gate_new_event J name m) evs) = Decision"
  "ev_name (event_for sha s (gate_new_event J name m) evs) = Some name"
  "ev_seq (event_for sha s ev evs) = of_nat (length evs)"
  by (simp_all add: event_for_def gate_new_event_def)

lemma gate_event_meta [simp]:
  "json_ok J \<Longrightarrow> json_plain m \<Longrightarrow>
   event_meta J (event_for sha s (gate_new_event J name m) evs) = json_norm m"
  by (simp add: event_meta_def event_for_def gate_new_event_def metadata_raw_def)

lemma resolve_meta_at [simp]:
  "json_at (json_norm (resolve_meta t d r p b n)) ''target_seq'' = JNum t"
  "json_at (json_norm (resolve_meta t d r p b n)) ''decision'' = JStr (decision_str d)"
  "json_at (json_norm (resolve_meta t d r p b n)) ''reviewer'' = json_of_opt r"
  "json_at (json_norm (resolve_meta t d r p b n)) ''reviewer_principal'' = json_of_opt p"
  "json_at (json_norm (resolve_meta t d r p b n)) ''attested'' = JBool b"
  "json_at (json_norm (resolve_meta t d r p b n)) ''note'' = json_of_opt n"
  unfolding resolve_meta_def json_at_norm_obj by simp_all

lemma request_meta_at [simp]:
  "json_at (json_norm (request_meta a x)) ''action'' = JStr a"
  "json_at (json_norm (request_meta a x)) ''expires_at'' = JNum x"
  unfolding request_meta_def json_at_norm_obj by simp_all

text \<open>The gate as decided by \<open>resolve\<close>.\<close>

definition decided ::
  "decision \<Rightarrow> string option \<Rightarrow> string option \<Rightarrow> bool \<Rightarrow> string option \<Rightarrow> gate \<Rightarrow> gate" where
  "decided d reviewer who attested note g = g
     \<lparr>g_state := Resolved d, g_reviewer := reviewer, g_reviewer_principal := who,
      g_attested := attested, g_note := note\<rparr>"

definition requested :: "u64 \<Rightarrow> string \<Rightarrow> u64 \<Rightarrow> gate" where
  "requested seq action expires_at =
     \<lparr>g_seq = seq, g_action = action, g_expires_at = expires_at, g_state = Pending,
      g_reviewer = None, g_reviewer_principal = None, g_attested = False, g_note = None\<rparr>"

lemma project_resolve:
  assumes "json_ok J" and "distinct (map ev_seq evs)"
  shows "project J (evs @ [event_for sha s (gate_new_event J RESOLVED (resolve_meta t d r p b n)) evs])
    = map (\<lambda>g. if g_seq g = t \<and> g_state g = Pending then decided d r p b n g else g) (project J evs)"
proof -
  let ?e = "event_for sha s (gate_new_event J RESOLVED (resolve_meta t d r p b n)) evs"
  have "distinct (map g_seq (project J evs))"
    unfolding project_seqs using assms(2) by (simp add: distinct_map_filter)
  moreover have "decides J ?e = Some (t, d)" "\<not> is_request ?e"
    using assms(1) by (simp_all add: decides_def is_request_def)
  ultimately show ?thesis
    using assms(1)
    by (simp add: project_step_map gate_next_eq decide_gate_def decided_def cong: if_cong)
qed

lemma project_request:
  assumes "json_ok J"
  shows "project J (evs @ [event_for sha s (gate_new_event J REQUESTED (request_meta a x)) evs])
    = project J evs @ [requested (of_nat (length evs)) a x]"
proof -
  let ?e = "event_for sha s (gate_new_event J REQUESTED (request_meta a x)) evs"
  have "is_request ?e" by (simp add: is_request_def)
  with assms show ?thesis
    by (simp add: project_step_eq open_gate_def requested_def Let_def)
qed

section \<open>The operations on the gates of a run\<close>

definition gates_in :: "json_lib \<Rightarrow> log \<Rightarrow> string \<times> string \<Rightarrow> gate list" where
  "gates_in J L k = project J (events_in L k)"

text \<open>Expiring the gates whose time has come.\<close>

definition expired :: "gate \<Rightarrow> gate" where
  "expired g = decided Expired None None False (Some ''no decision before expiry'') g"

definition is_lapsed :: "u64 \<Rightarrow> gate \<Rightarrow> bool" where
  "is_lapsed now g \<longleftrightarrow> g_state g = Pending \<and> g_expires_at g \<le> now"

lemma lapsed_gates_eq: "lapsed_gates J evs now = map g_seq (filter (is_lapsed now) (project J evs))"
  by (simp add: lapsed_gates_def is_lapsed_def[abs_def])

context record_log
begin

lemma distinct_gates: "good n s \<Longrightarrow> distinct (map g_seq (gates_in J (log s) k))"
  unfolding gates_in_def project_seqs
  using distinct_seqs[of n s k] by (simp add: distinct_map_filter)

lemma short_events:
  assumes "good n (w_state w)" and "quiet (w_now w)"
    and "length (events_in (log (w_state w)) (ns, i)) \<le> 5000"
  shows "st_events S ns i 0 5000 w = (Inr (events_in (log (w_state w)) (ns, i)), tick w)"
  using events_quiet[OF assms(1,2), of ns i] events_law[OF assms(1), of ns i] assms(3)
  by (simp add: prod_eq_iff)

lemma request_opens:
  assumes "good (Suc n) (w_state w)" and "calm_world w"
    and "log (w_state w) (ns, i) = Some (evs, False)"
    and "request J S ns i action expires_at w = (res, w')"
  shows "res = Inr (of_nat (length evs)) \<and> good n (w_state w') \<and> calm_world w' \<and>
    (\<exists>e. log (w_state w') = (log (w_state w))((ns, i) \<mapsto> (evs @ [e], False))) \<and>
    gates_in J (log (w_state w')) (ns, i)
      = gates_in J (log (w_state w)) (ns, i) @ [requested (of_nat (length evs)) action expires_at]"
proof -
  let ?ev = "gate_new_event J REQUESTED (request_meta action expires_at)"
  have "meta_ok J (ne_metadata ?ev)" using json[OF assms(1)] by (simp add: gate_new_event_def)
  from append_open[OF assms(1) calm_now[OF assms(2)] this assms(3)] obtain s where
    "st_append S ns i ?ev None w = (Inr (result_of (event_for sha (w_now w) ?ev evs)), (tick w)\<lparr>w_state := s\<rparr>)"
    "good n s" "log s = (log (w_state w))((ns, i) \<mapsto> (evs @ [event_for sha (w_now w) ?ev evs], False))"
    by blast
  with assms(2-4) json[OF assms(1)] show ?thesis
    by (auto simp: request_def append_seq_def decision_event_eq gates_in_def events_in_def
        project_request calm_world_def simp del: project_snoc)
qed

lemma resolve_finds:
  assumes "good (Suc n) (w_state w)" and "calm_world w"
    and "length (events_in (log (w_state w)) (ns, i)) \<le> 5000"
  shows "resolve J S ns i t d r p b note w =
    (case find (\<lambda>g. g_seq g = t) (gates_in J (log (w_state w)) (ns, i)) of
       None \<Rightarrow> (Inl NotFound, tick w)
     | Some g \<Rightarrow>
         if g_state g \<noteq> Pending
         then (Inl (Conflict (''gate '' @ dec t @ '' is already resolved'')), tick w)
         else append_seq S ns i (Inr (gate_new_event J RESOLVED (resolve_meta t d r p b note))) (tick w))"
  using short_events[OF assms(1) calm_now[OF assms(2)] assms(3)] json[OF assms(1)]
  by (simp add: resolve_def gates_in_def decision_event_eq split: option.split)

lemma resolve_decides:
  assumes "good (Suc n) (w_state w)" and "calm_world w"
    and "log (w_state w) (ns, i) = Some (evs, False)" and "length evs \<le> 5000"
    and "g \<in> set (gates_in J (log (w_state w)) (ns, i))" and "g_state g = Pending"
    and "resolve J S ns i (g_seq g) d r p b note w = (res, w')"
  shows "res = Inr (of_nat (length evs)) \<and> good n (w_state w') \<and> calm_world w' \<and>
    (\<exists>e. log (w_state w') = (log (w_state w))((ns, i) \<mapsto> (evs @ [e], False))) \<and>
    gates_in J (log (w_state w')) (ns, i)
      = map (\<lambda>h. if g_seq h = g_seq g then decided d r p b note h else h)
          (gates_in J (log (w_state w)) (ns, i))"
proof -
  let ?ev = "gate_new_event J RESOLVED (resolve_meta (g_seq g) d r p b note)"
  have uniq: "h = g" if "h \<in> set (gates_in J (log (w_state w)) (ns, i))" "g_seq h = g_seq g" for h
    using distinct_gates[OF assms(1), of "(ns, i)"] that assms(5)
    by (auto simp: distinct_map dest: inj_onD)
  have "find (\<lambda>h. g_seq h = g_seq g) (gates_in J (log (w_state w)) (ns, i)) = Some g"
  proof (cases "find (\<lambda>h. g_seq h = g_seq g) (gates_in J (log (w_state w)) (ns, i))")
    case None
    with assms(5) show ?thesis by (auto simp: find_None_iff)
  next
    case (Some h)
    then show ?thesis using uniq[of h] by (auto simp: find_Some_iff)
  qed
  then have app: "resolve J S ns i (g_seq g) d r p b note w = append_seq S ns i (Inr ?ev) (tick w)"
    using resolve_finds[OF assms(1,2)] assms(3,4,6) by (simp add: events_in_def)
  have "meta_ok J (ne_metadata ?ev)" using json[OF assms(1)] by (simp add: gate_new_event_def)
  from append_open[of n "tick w", OF _ _ this] assms(1-3) obtain s where s:
    "st_append S ns i ?ev None (tick w)
      = (Inr (result_of (event_for sha (w_now (tick w)) ?ev evs)), (tick (tick w))\<lparr>w_state := s\<rparr>)"
    "good n s"
    "log s = (log (w_state w))((ns, i) \<mapsto> (evs @ [event_for sha (w_now (tick w)) ?ev evs], False))"
    by (metis calm_now tick_simps(1) tick_simps(3))
  have dist: "distinct (map ev_seq evs)"
    using distinct_seqs[OF assms(1), of "(ns, i)"] assms(3) by (simp add: events_in_def)
  have "map (\<lambda>h. if g_seq h = g_seq g \<and> g_state h = Pending then decided d r p b note h else h)
      (gates_in J (log (w_state w)) (ns, i))
    = map (\<lambda>h. if g_seq h = g_seq g then decided d r p b note h else h)
      (gates_in J (log (w_state w)) (ns, i))"
    using uniq assms(6) by (intro map_cong) auto
  with s assms(2,3,7) show ?thesis
    unfolding app
    by (auto simp: append_seq_def gates_in_def events_in_def calm_world_def
        project_resolve[OF json[OF assms(1)] dist] simp del: project_snoc)
qed

lemma resolve_sealed:
  assumes "good (Suc n) (w_state w)" and "calm_world w"
    and "log (w_state w) (ns, i) = Some (evs, True)" and "length evs \<le> 5000"
    and "find (\<lambda>h. g_seq h = t) (gates_in J (log (w_state w)) (ns, i)) = Some g"
    and "g_state g = Pending"
  shows "resolve J S ns i t d r p b note w = (Inl (Conflict ''run is sealed''), tick (tick w))"
  using resolve_finds[OF assms(1,2)] append_sealed[of n "tick w" ns i evs] assms
  by (simp add: append_seq_def events_in_def)

text \<open>Requests beyond the window the operation reads do not exist for it.\<close>

lemma resolve_late:
  assumes "good n (w_state w)" and "calm_world w" and "5000 \<le> unat t"
  shows "resolve J S ns i t d r p b note w = (Inl NotFound, tick w)"
proof -
  let ?evs = "events_in (log (w_state w)) (ns, i)"
  have "ev_seq e \<noteq> t" if e: "e \<in> set (take 5000 ?evs)" for e
  proof -
    obtain j where j: "j < 5000" "j < length ?evs" "e = ?evs ! j"
      using e by (auto simp: in_set_conv_nth)
    have "ev_seq e = of_nat j"
      using event_soundD(1)[OF linked_nth[OF linked_log[OF assms(1)] j(2)]] j(3) by simp
    with j(1) assms(3) show ?thesis by auto
  qed
  then have "t \<notin> set (map g_seq (project J (take 5000 ?evs)))"
    unfolding project_seqs by auto
  then have "find (\<lambda>g. g_seq g = t) (project J (take 5000 ?evs)) = None"
    by (auto simp: find_None_iff)
  with events_quiet[OF assms(1) calm_now[OF assms(2)], of ns i] events_law[OF assms(1), of ns i]
  show ?thesis
    by (cases "st_events S ns i 0 5000 w") (simp add: resolve_def)
qed

lemma expire_loop_expires:
  assumes "good (length ss + n) (w_state w)" and "calm_world w"
    and "log (w_state w) (ns, i) = Some (evs, False)" and "length evs + length ss \<le> 5000"
    and "distinct ss" and "set ss \<subseteq> g_seq ` {g \<in> set (gates_in J (log (w_state w)) (ns, i)). g_state g = Pending}"
  shows "\<exists>w'. expire_loop J S ns i ss k w = (Inr (k + length ss), w') \<and> good n (w_state w') \<and>
    calm_world w' \<and> (\<exists>es. log (w_state w') (ns, i) = Some (evs @ es, False) \<and> length es = length ss) \<and>
    gates_in J (log (w_state w')) (ns, i)
      = map (\<lambda>g. if g_seq g \<in> set ss then expired g else g) (gates_in J (log (w_state w)) (ns, i))"
  using assms
proof (induction ss arbitrary: w evs k)
  case (Cons t ss)
  let ?gates = "gates_in J (log (w_state w)) (ns, i)"
  obtain g where g: "g \<in> set ?gates" "g_state g = Pending" "g_seq g = t" using Cons.prems(6) by auto
  obtain res w1 where call:
    "resolve J S ns i t Expired None None False (Some ''no decision before expiry'') w = (res, w1)"
    by (cases "resolve J S ns i t Expired None None False (Some ''no decision before expiry'') w")
  have "good (Suc (length ss + n)) (w_state w)" "length evs \<le> 5000"
    using Cons.prems(1,4) by simp_all
  from resolve_decides[OF this(1) Cons.prems(2,3) this(2) g(1,2)] call obtain e where one:
    "res = Inr (of_nat (length evs))" "good (length ss + n) (w_state w1)" "calm_world w1"
    "log (w_state w1) (ns, i) = Some (evs @ [e], False)"
    "gates_in J (log (w_state w1)) (ns, i) = map (\<lambda>h. if g_seq h = t then expired h else h) ?gates"
    unfolding g(3) expired_def[abs_def] by fastforce
  have "set ss \<subseteq> g_seq ` {g \<in> set (gates_in J (log (w_state w1)) (ns, i)). g_state g = Pending}"
  proof
    fix u assume u: "u \<in> set ss"
    then obtain h where "h \<in> set ?gates" "g_state h = Pending" "g_seq h = u"
      using Cons.prems(6) by auto
    with u Cons.prems(5) show "u \<in> g_seq ` {g \<in> set (gates_in J (log (w_state w1)) (ns, i)). g_state g = Pending}"
      unfolding one(5) by (intro image_eqI[of _ _ h]) auto
  qed
  with Cons.IH[OF one(2-4), of "Suc k"] Cons.prems(4,5) obtain w' where
    "expire_loop J S ns i ss (Suc k) w1 = (Inr (Suc k + length ss), w')" "good n (w_state w')"
    "calm_world w'" "\<exists>es. log (w_state w') (ns, i) = Some ((evs @ [e]) @ es, False) \<and> length es = length ss"
    "gates_in J (log (w_state w')) (ns, i)
      = map (\<lambda>g. if g_seq g \<in> set ss then expired g else g) (gates_in J (log (w_state w1)) (ns, i))"
    by auto
  moreover from this(4) have "\<exists>es. log (w_state w') (ns, i) = Some (evs @ es, False) \<and> length es = length (t # ss)"
    by fastforce
  moreover from \<open>gates_in J (log (w_state w')) (ns, i) = _\<close> have "gates_in J (log (w_state w')) (ns, i)
      = map (\<lambda>g. if g_seq g \<in> set (t # ss) then expired g else g) ?gates"
    using Cons.prems(5) unfolding one(5) by (auto simp: expired_def decided_def)
  ultimately show ?case using call one(1) by auto
qed auto

lemma expire_lapsed_in_expires:
  assumes "good (length evs) (w_state w)" and "calm_world w"
    and "log (w_state w) (ns, i) = Some (evs, False)"
    and "length evs + length (filter (is_lapsed now) (gates_in J (log (w_state w)) (ns, i))) \<le> 5000"
  shows "\<exists>w' m evs'. expire_lapsed_in J S ns i evs now w
      = (Inr (length (filter (is_lapsed now) (gates_in J (log (w_state w)) (ns, i)))), w') \<and>
    good m (w_state w') \<and> calm_world w' \<and>
    log (w_state w') (ns, i) = Some (evs', False) \<and> length evs' \<le> 5000 \<and>
    (filter (is_lapsed now) (gates_in J (log (w_state w)) (ns, i)) = [] \<longrightarrow> w' = w) \<and>
    gates_in J (log (w_state w')) (ns, i)
      = map (\<lambda>g. if is_lapsed now g then expired g else g) (gates_in J (log (w_state w)) (ns, i))"
proof -
  let ?gates = "gates_in J (log (w_state w)) (ns, i)"
  let ?ss = "map g_seq (filter (is_lapsed now) ?gates)"
  have evs: "events_in (log (w_state w)) (ns, i) = evs" using assms(3) by (simp add: events_in_def)
  have dist: "distinct (map g_seq ?gates)" using distinct_gates[OF assms(1)] .
  have "length (filter (is_lapsed now) ?gates) \<le> length ?gates" by (rule length_filter_le)
  also have "length ?gates \<le> length evs"
    using arg_cong[OF project_seqs[of J evs], of length] by (simp add: gates_in_def evs)
  finally obtain n where "length evs = length ?ss + n" using le_Suc_ex by fastforce
  with assms(1) have good: "good (length ?ss + n) (w_state w)" by simp
  have lapsed: "lapsed_gates J evs now = ?ss"
    by (simp add: lapsed_gates_eq gates_in_def evs)
  have exp: "expire_lapsed_in J S ns i evs now w
      = (if ?ss = [] then (Inr 0, w) else expire_loop J S ns i ?ss 0 w)"
    by (simp add: expire_lapsed_in_def lapsed)
  have "distinct ?ss" using dist by (simp add: distinct_map_filter)
  moreover have "set ?ss \<subseteq> g_seq ` {g \<in> set ?gates. g_state g = Pending}"
    by (auto simp: is_lapsed_def)
  ultimately obtain w2 es where w2: "expire_loop J S ns i ?ss 0 w = (Inr (length ?ss), w2)"
    "good n (w_state w2)" "calm_world w2"
    "log (w_state w2) (ns, i) = Some (evs @ es, False)" "length es = length ?ss"
    "gates_in J (log (w_state w2)) (ns, i) = map (\<lambda>g. if g_seq g \<in> set ?ss then expired g else g) ?gates"
    using expire_loop_expires[OF good, of ns i evs 0] assms(2-4) by auto
  have "g_seq g \<in> set ?ss \<longleftrightarrow> is_lapsed now g" if "g \<in> set ?gates" for g
    using dist that by (auto simp: distinct_map dest: inj_onD)
  then have all: "map (\<lambda>g. if g_seq g \<in> set ?ss then expired g else g) ?gates
    = map (\<lambda>g. if is_lapsed now g then expired g else g) ?gates"
    by (intro map_cong) auto
  have none: "map (\<lambda>g. if is_lapsed now g then expired g else g) ?gates = ?gates" if "?ss = []"
    using that by (intro map_idI) (auto simp: filter_empty_conv)
  show ?thesis
  proof (cases "?ss = []")
    case True
    with exp assms none show ?thesis by (intro exI[of _ w] exI[of _ "length evs"] exI[of _ evs]) simp
  next
    case False
    with exp w2 all \<open>length evs = length ?ss + n\<close> assms(4) show ?thesis
      by (intro exI[of _ w2] exI[of _ n] exI[of _ "evs @ es"]) simp
  qed
qed

lemma expire_lapsed_expires:
  assumes "good (length evs) (w_state w)" and "calm_world w"
    and "log (w_state w) (ns, i) = Some (evs, False)"
    and "length evs + length (filter (is_lapsed now) (gates_in J (log (w_state w)) (ns, i))) \<le> 5000"
    and "expire_lapsed J S ns i now w = (res, w')"
  shows "res = Inr (length (filter (is_lapsed now) (gates_in J (log (w_state w)) (ns, i)))) \<and>
    (\<exists>m. good m (w_state w')) \<and>
    gates_in J (log (w_state w')) (ns, i)
      = map (\<lambda>g. if is_lapsed now g then expired g else g) (gates_in J (log (w_state w)) (ns, i))"
proof -
  have "events_in (log (w_state w)) (ns, i) = evs" using assms(3) by (simp add: events_in_def)
  then have "st_events S ns i 0 5000 w = (Inr evs, tick w)"
    using short_events[OF assms(1) calm_now[OF assms(2)], of ns i] assms(4) by simp
  moreover have "calm_world (tick w)" "w_state (tick w) = w_state w" using assms(2) by simp_all
  ultimately show ?thesis
    using expire_lapsed_in_expires[of evs "tick w" ns i now] assms
    by (auto simp: expire_lapsed_def)
qed

end

end
