(* ===== verification/Sqlite_Store.thy ===== *)
theory Sqlite_Store
  imports Store_Views Gates
begin

text \<open>
  The SQLite store keeps the contract \<open>record_log\<close>, so the gates of \<open>Gates\<close> work on it. The
  properties at the end are those lemmas for the store of this repository.
\<close>

definition db_good :: "json_lib \<Rightarrow> sha \<Rightarrow> nat \<Rightarrow> db \<Rightarrow> bool" where
  "db_good J sha n c \<longleftrightarrow> json_ok J \<and> store_inv J sha c \<and> length (db_events c) + n < 2 ^ 63 - 1"

lemma db_goodD:
  "db_good J sha n c \<Longrightarrow> store_inv J sha c" "db_good J sha n c \<Longrightarrow> small c"
  by (simp_all add: db_good_def small_def)

lemma call_quiet: "call op w = (fst (op (w_now w) (w_state w)), (tick w)\<lparr>w_state := snd (op (w_now w) (w_state w))\<rparr>)"
  by (cases w) (simp add: call_def tick_def w_now_def case_prod_unfold Let_def)

lemma world_state_id [simp]: "(tick w)\<lparr>w_state := w_state w\<rparr> = tick w"
  by (cases w) (simp add: tick_def)

lemma events_in_log: "store_inv J sha c \<Longrightarrow> events_in (log_of J c) (ns, i) = record_of J ns i c"
  using store_invD(1)[of J sha c ns i]
  by (auto simp: events_in_def run_inv_def record_of_def split: option.splits)

lemma prior_None [simp]: "prior_of ns i None c = None"
  by (simp add: prior_of_def)

lemma sqlite_append_sealed:
  assumes "db_good J sha (Suc n) (w_state w)" and "quiet (w_now w)"
    and "log_of J (w_state w) (ns, i) = Some (evs, True)"
  shows "st_append (sqlite_store J sha X) ns i ev None w = (Inl (Conflict ''run is sealed''), tick w)"
proof -
  obtain r where "run_of ns i (w_state w) = Some r" "rr_ended_ts r \<noteq> None"
    using assms(3) by (auto simp: log_of_def)
  then show ?thesis
    by (simp add: sqlite_store_def call_quiet
        append_quiet[OF db_goodD[OF assms(1)] assms(2) prior_None])
qed

lemma sqlite_append_open:
  assumes "db_good J sha (Suc n) (w_state w)" and "quiet (w_now w)" and "meta_ok J (ne_metadata ev)"
    and "log_of J (w_state w) (ns, i) = Some (evs, False)"
  shows "\<exists>s. st_append (sqlite_store J sha X) ns i ev None w
        = (Inr (result_of (event_for sha (w_now w) ev evs)), (tick w)\<lparr>w_state := s\<rparr>) \<and>
      db_good J sha n s \<and>
      log_of J s = (log_of J (w_state w))((ns, i) \<mapsto> (evs @ [event_for sha (w_now w) ev evs], False))"
proof -
  let ?c = "w_state w"
  let ?e = "appended J sha (w_now w) ns i ev ?c"
  let ?d = "remember_result ns i None (result_of ?e) (add_event ns i ?e ?c)"
  note inv = db_goodD[OF assms(1)]
  obtain r where r: "run_of ns i ?c = Some r" "rr_ended_ts r = None" "record_of J ns i ?c = evs"
    using assms(4) by (auto simp: log_of_def)
  then have e: "?e = event_for sha (w_now w) ev evs" by (simp add: appended_def event_for_def)
  have call: "store_append sha ns i ev None (w_now w) ?c = (Inr (result_of ?e), ?d)"
    using r by (simp add: append_quiet[OF inv assms(2) prior_None] Let_def)
  have "store_inv J sha ?d"
    using store_inv_step[OF inv, of "OpAppend ns i ev None" "w_now w"] assms(1,3) call
    by (simp add: db_good_def)
  then have "db_good J sha n ?d" using assms(1) by (simp add: db_good_def)
  moreover have "log_of J ?d = (log_of J ?c)((ns, i) \<mapsto> (evs @ [?e], False))"
    by (rule log_ofI) (use r assms(3) in \<open>auto simp: run_of_add_event appended_def\<close>)
  ultimately show ?thesis
    using call by (intro exI[of _ ?d]) (simp add: sqlite_store_def call_quiet e)
qed

interpretation sq: record_log J sha "sqlite_store J sha X" "log_of J" "db_good J sha"
  for J sha X
proof
  show "json_ok J" if "db_good J sha n s" for n s
    using that by (simp add: db_good_def)
next
  show "db_good J sha n s" if "db_good J sha (Suc n) s" for n s
    using that by (simp add: db_good_def)
next
  show "linked sha evs \<and> length evs < 2 ^ 63"
    if "db_good J sha n s" "log_of J s k = Some (evs, b)" for n s k evs b
  proof -
    obtain ns i where k: "k = (ns, i)" by (cases k)
    have "record_of J ns i s = evs" using that(2) unfolding k by (auto simp: log_of_def)
    then show ?thesis
      using linked_of_inv[OF store_invD(1)[OF db_goodD(1)[OF that(1)]], of ns i]
        length_record_of[of J ns i s] that(1) by (auto simp: db_good_def)
  qed
next
  show "snd (st_events (sqlite_store J sha X) ns i 0 5000 w) = tick w"
    if "db_good J sha n (w_state w)" for n ns i w
    by (simp add: sqlite_store_def call_quiet)
next
  show "fst (st_events (sqlite_store J sha X) ns i 0 5000 w)
      = Inr (take 5000 (events_in (log_of J (w_state w)) (ns, i)))"
    if "db_good J sha n (w_state w)" "quiet (w_now w)" for n ns i w
    using store_events_quiet[OF linked_of_inv[OF store_invD(1)[OF db_goodD(1)[OF that(1)]]]
        db_goodD(2)[OF that(1)] that(2), of ns i 0 5000]
    by (simp add: sqlite_store_def call_quiet events_in_log[OF db_goodD(1)[OF that(1)]]
        start_index_def clamp_def)
next
  show "st_append (sqlite_store J sha X) ns i ev None w = (Inl (Conflict ''run is sealed''), tick w)"
    if "db_good J sha (Suc n) (w_state w)" "quiet (w_now w)"
      "log_of J (w_state w) (ns, i) = Some (evs, True)" for n w ns i evs ev
    using that by (rule sqlite_append_sealed)
next
  show "\<exists>s. st_append (sqlite_store J sha X) ns i ev None w
        = (Inr (result_of (event_for sha (w_now w) ev evs)), (tick w)\<lparr>w_state := s\<rparr>) \<and>
      db_good J sha n s \<and>
      log_of J s = (log_of J (w_state w))((ns, i) \<mapsto> (evs @ [event_for sha (w_now w) ev evs], False))"
    if "db_good J sha (Suc n) (w_state w)" "quiet (w_now w)" "meta_ok J (ne_metadata ev)"
      "log_of J (w_state w) (ns, i) = Some (evs, False)" for n w ev ns i evs
    using that by (rule sqlite_append_open)
qed

section \<open>Gates on the store\<close>

text \<open>The gates of a run of the database.\<close>

definition run_gates :: "json_lib \<Rightarrow> string \<Rightarrow> string \<Rightarrow> db \<Rightarrow> gate list" where
  "run_gates J ns i c = project J (record_of J ns i c)"

lemma gates_in_log: "store_inv J sha c \<Longrightarrow> gates_in J (log_of J c) (ns, i) = run_gates J ns i c"
  by (simp add: gates_in_def run_gates_def events_in_log)

definition run_open :: "string \<Rightarrow> string \<Rightarrow> db \<Rightarrow> bool" where
  "run_open ns i c \<longleftrightarrow> map_option rr_ended_ts (run_of ns i c) = Some None"

lemma log_of_open: "run_open ns i c \<Longrightarrow> log_of J c (ns, i) = Some (record_of J ns i c, False)"
  by (auto simp: run_open_def)

lemma log_of_sealed: "run_sealed ns i c \<Longrightarrow> log_of J c (ns, i) = Some (record_of J ns i c, True)"
  by (auto simp: run_sealed_def split: option.splits)

text \<open>
  opening a gate. In an open run, \<open>request\<close> returns the number of the event it appends,
  and the run's gates gain, at the end, one pending gate with that number, the action asked
  for and its expiry; no other gate changes.
\<close>

theorem request_opens_gate:
  assumes "db_good J sha (Suc n) (w_state w)" and "calm_world w" and "run_open ns i (w_state w)"
    and "request J (sqlite_store J sha X) ns i action expires_at w = (res, w')"
  shows "res = Inr (of_nat (length (record_of J ns i (w_state w)))) \<and>
    run_gates J ns i (w_state w') = run_gates J ns i (w_state w) @
      [requested (of_nat (length (record_of J ns i (w_state w)))) action expires_at]"
  using sq.request_opens[OF assms(1,2) log_of_open[OF assms(3)] assms(4)]
    gates_in_log[OF db_goodD(1), of J sha] assms(1) by metis

definition demo_world :: "db \<Rightarrow> db world" where
  "demo_world c = \<lparr>w_state = c, w_sys = (\<lambda>t. calm (10 + t)), w_tick = 0\<rparr>"

lemma demo_world_simps [simp]: "w_state (demo_world c) = c" "calm_world (demo_world c)"
  by (simp_all add: demo_world_def calm_world_def)

lemma demo_db_good [simp]: "db_good demo_json prefix_sha 9 demo_db"
  by (simp add: db_good_def)

lemma demo_db_open [simp]: "run_open ''acme'' ''loan'' demo_db"
  by (simp add: run_open_def)

definition no_extract :: json_extract where
  "no_extract t path = None"

definition demo_gate_world :: "db world" where
  "demo_gate_world = snd (request demo_json (sqlite_store demo_json prefix_sha no_extract)
     ''acme'' ''loan'' ''approve_loan'' 5 (demo_world demo_db))"

theorem request_opens_gate_witness:
  "fst (request demo_json (sqlite_store demo_json prefix_sha no_extract)
     ''acme'' ''loan'' ''approve_loan'' 5 (demo_world demo_db)) = Inr 2"
  using request_opens_gate[of demo_json prefix_sha 8 "demo_world demo_db" "''acme''" "''loan''"
      no_extract "''approve_loan''" 5]
  by (cases "request demo_json (sqlite_store demo_json prefix_sha no_extract)
     ''acme'' ''loan'' ''approve_loan'' 5 (demo_world demo_db)") simp

text \<open>
  C24: deciding a gate. In an open run of at most 5000 events, \<open>resolve\<close> of a pending gate
  returns the number of the decision it appends, and in the run's gates exactly that gate
  changes: it is resolved with the given outcome, reviewer, principal, attestation and note.
\<close>

theorem resolve_decides_gate:
  assumes "db_good J sha (Suc n) (w_state w)" and "calm_world w" and "run_open ns i (w_state w)"
    and "length (record_of J ns i (w_state w)) \<le> 5000"
    and "g \<in> set (run_gates J ns i (w_state w))" and "g_state g = Pending"
    and "resolve J (sqlite_store J sha X) ns i (g_seq g) d reviewer who attested note w = (res, w')"
  shows "res = Inr (of_nat (length (record_of J ns i (w_state w)))) \<and>
    run_gates J ns i (w_state w') =
      map (\<lambda>h. if g_seq h = g_seq g then decided d reviewer who attested note h else h)
        (run_gates J ns i (w_state w))"
proof -
  note old = gates_in_log[OF db_goodD(1)[OF assms(1)], of ns i]
  note dec = sq.resolve_decides[OF assms(1,2) log_of_open[OF assms(3)] assms(4) _ assms(6,7),
      unfolded old, OF assms(5)]
  then have "store_inv J sha (w_state w')" by (blast dest: db_goodD(1))
  with dec show ?thesis by (simp add: gates_in_log)
qed

lemma demo_record: "record_of demo_json ''acme'' ''loan'' demo_db =
    [first_event demo_json prefix_sha 5 demo_new,
     next_event prefix_sha 6 Message (Some ''user'') None (Some ''score=690'') None
       [first_event demo_json prefix_sha 5 demo_new]]"
  by (simp add: demo_db_eq Let_def appended_def demo_note_def)

lemma demo_no_gates: "run_gates demo_json ''acme'' ''loan'' demo_db = []"
  unfolding run_gates_def demo_record
  by (simp add: project_def project_step_def)

lemma demo_gate_facts:
  "db_good demo_json prefix_sha 8 (w_state demo_gate_world)" "calm_world demo_gate_world"
  "run_open ''acme'' ''loan'' (w_state demo_gate_world)"
  "length (record_of demo_json ''acme'' ''loan'' (w_state demo_gate_world)) = 3"
  "run_gates demo_json ''acme'' ''loan'' (w_state demo_gate_world) = [requested 2 ''approve_loan'' 5]"
proof -
  let ?w = "demo_world demo_db"
  obtain res where call: "request demo_json (sqlite_store demo_json prefix_sha no_extract)
     ''acme'' ''loan'' ''approve_loan'' 5 ?w = (res, demo_gate_world)"
    by (simp add: demo_gate_world_def prod_eq_iff)
  have good: "db_good demo_json prefix_sha (Suc 8) (w_state ?w)" by simp
  note opens = sq.request_opens[OF good _ log_of_open call]
  then show g: "db_good demo_json prefix_sha 8 (w_state demo_gate_world)"
    and "calm_world demo_gate_world" by simp_all
  from opens obtain e where upd: "log_of demo_json (w_state demo_gate_world)
      = (log_of demo_json demo_db)((''acme'', ''loan'')
          \<mapsto> (record_of demo_json ''acme'' ''loan'' demo_db @ [e], False))" by auto
  have "log_of demo_json (w_state demo_gate_world) (''acme'', ''loan'')
      = Some (record_of demo_json ''acme'' ''loan'' demo_db @ [e], False)"
    unfolding upd by simp
  then show "run_open ''acme'' ''loan'' (w_state demo_gate_world)"
    "length (record_of demo_json ''acme'' ''loan'' (w_state demo_gate_world)) = 3"
    by (auto simp: run_open_def)
  show "run_gates demo_json ''acme'' ''loan'' (w_state demo_gate_world) = [requested 2 ''approve_loan'' 5]"
    using opens gates_in_log[OF db_goodD(1)[OF g]] gates_in_log[OF demo_db_inv]
    by (simp add: demo_no_gates)
qed

theorem resolve_decides_gate_witness:
  "fst (resolve demo_json (sqlite_store demo_json prefix_sha no_extract)
     ''acme'' ''loan'' 2 Approved (Some ''ann'') None False None demo_gate_world) = Inr 3"
  using resolve_decides_gate[of demo_json prefix_sha 7 demo_gate_world "''acme''" "''loan''"
      "requested 2 ''approve_loan'' 5" no_extract Approved "Some ''ann''" None False None]
    demo_gate_facts
  by (cases "resolve demo_json (sqlite_store demo_json prefix_sha no_extract)
     ''acme'' ''loan'' 2 Approved (Some ''ann'') None False None demo_gate_world")
    (simp add: requested_def)

text \<open>
  refusing a decision. \<open>resolve\<close> of a number that is no gate of the run returns
  \<open>NotFound\<close>, and of a gate already decided a conflict that names it; either way the database
  is left as it is, so no decision is recorded.
\<close>

theorem resolve_refuses:
  assumes "db_good J sha (Suc n) (w_state w)" and "calm_world w"
    and "length (record_of J ns i (w_state w)) \<le> 5000"
    and "list_all (\<lambda>g. g_seq g = t \<longrightarrow> g_state g \<noteq> Pending) (run_gates J ns i (w_state w))"
  shows "resolve J (sqlite_store J sha X) ns i t d reviewer who attested note w =
    (Inl (if list_ex (\<lambda>g. g_seq g = t) (run_gates J ns i (w_state w))
          then Conflict (''gate '' @ dec t @ '' is already resolved'') else NotFound), tick w)"
proof -
  note inv = db_goodD(1)[OF assms(1)]
  have "resolve J (sqlite_store J sha X) ns i t d reviewer who attested note w =
    (case find (\<lambda>g. g_seq g = t) (run_gates J ns i (w_state w)) of
       None \<Rightarrow> (Inl NotFound, tick w)
     | Some g \<Rightarrow> if g_state g \<noteq> Pending
         then (Inl (Conflict (''gate '' @ dec t @ '' is already resolved'')), tick w)
         else append_seq (sqlite_store J sha X) ns i
                (Inr (gate_new_event J RESOLVED (resolve_meta t d reviewer who attested note))) (tick w))"
    using sq.resolve_finds[OF assms(1,2), of ns i] assms(3)
    by (simp add: events_in_log[OF inv] gates_in_log[OF inv])
  moreover note find_None_list_ex[of "\<lambda>g. g_seq g = t" "run_gates J ns i (w_state w)"]
  moreover have "g_state g \<noteq> Pending" if "find (\<lambda>g. g_seq g = t) (run_gates J ns i (w_state w)) = Some g" for g
    using find_SomeD[OF that] assms(4) by (simp add: list_all_iff)
  ultimately show ?thesis
    by (cases "find (\<lambda>g. g_seq g = t) (run_gates J ns i (w_state w))") auto
qed

theorem resolve_refuses_witness:
  "resolve demo_json (sqlite_store demo_json prefix_sha no_extract)
     ''acme'' ''loan'' 1 Approved None None False None demo_gate_world = (Inl NotFound, tick demo_gate_world)"
  using resolve_refuses[of demo_json prefix_sha 7 demo_gate_world "''acme''" "''loan''" 1
      no_extract Approved None None False None] demo_gate_facts
  by (simp add: requested_def)

text \<open>
  expiry on read. In an open run with room for the decisions below event 5000,
  \<open>expire_lapsed\<close> at a time decides exactly the pending gates whose expiry is not after that
  time, each as expired with the fixed note and without a reviewer, and returns how many they
  were.
\<close>

theorem expire_lapsed_decides:
  assumes "db_good J sha (length (record_of J ns i (w_state w))) (w_state w)" and "calm_world w"
    and "run_open ns i (w_state w)"
    and "length (record_of J ns i (w_state w))
      + length (filter (is_lapsed now) (run_gates J ns i (w_state w))) \<le> 5000"
    and "expire_lapsed J (sqlite_store J sha X) ns i now w = (res, w')"
  shows "res = Inr (length (filter (is_lapsed now) (run_gates J ns i (w_state w)))) \<and>
    run_gates J ns i (w_state w')
      = map (\<lambda>g. if is_lapsed now g then expired g else g) (run_gates J ns i (w_state w))"
proof -
  note old = gates_in_log[OF db_goodD(1)[OF assms(1)], of ns i]
  note exp = sq.expire_lapsed_expires[OF assms(1,2) log_of_open[OF assms(3)] _ assms(5),
      unfolded old, OF assms(4)]
  then have "store_inv J sha (w_state w')" by (blast dest: db_goodD(1))
  with exp show ?thesis by (simp add: gates_in_log)
qed

theorem expire_lapsed_decides_witness:
  "fst (expire_lapsed demo_json (sqlite_store demo_json prefix_sha no_extract)
     ''acme'' ''loan'' 5 demo_gate_world) = Inr 1"
proof -
  have "db_good demo_json prefix_sha 3 (w_state demo_gate_world)"
    using demo_gate_facts(1) by (simp add: db_good_def)
  with expire_lapsed_decides[of demo_json prefix_sha "''acme''" "''loan''" demo_gate_world 5 no_extract]
    demo_gate_facts
  show ?thesis
    by (cases "expire_lapsed demo_json (sqlite_store demo_json prefix_sha no_extract)
      ''acme'' ''loan'' 5 demo_gate_world") (simp add: is_lapsed_def requested_def)
qed

text \<open>
  gates past the window cannot be decided. A gate whose request is event 5000 or later is
  listed by the projection of the record but does not exist for \<open>resolve\<close>, which reads the
  first 5000 events only: every decision on it is refused with \<open>NotFound\<close>, expiry included.
\<close>

theorem late_gate_is_undecidable:
  assumes "db_good J sha n (w_state w)" and "calm_world w" and "5000 \<le> unat t"
  shows "resolve J (sqlite_store J sha X) ns i t d reviewer who attested note w = (Inl NotFound, tick w)"
  using assms by (rule sq.resolve_late)

theorem late_gate_is_undecidable_witness:
  "resolve demo_json (sqlite_store demo_json prefix_sha no_extract)
     ''acme'' ''loan'' 5000 Approved None None False None (demo_world demo_db)
   = (Inl NotFound, tick (demo_world demo_db))"
  using late_gate_is_undecidable[of demo_json prefix_sha 9 "demo_world demo_db" 5000] by simp

text \<open>
  a gate left pending in a sealed run can never be closed. Deciding it, by a reviewer or
  by expiry, is refused as an append to a sealed run, for ever.
\<close>

theorem sealed_gate_stays_pending:
  assumes "db_good J sha (Suc n) (w_state w)" and "calm_world w" and "run_sealed ns i (w_state w)"
    and "length (record_of J ns i (w_state w)) \<le> 5000"
    and "g \<in> set (run_gates J ns i (w_state w))" and "g_state g = Pending"
  shows "resolve J (sqlite_store J sha X) ns i (g_seq g) d reviewer who attested note w
    = (Inl (Conflict ''run is sealed''), tick (tick w))"
proof -
  note old = gates_in_log[OF db_goodD(1)[OF assms(1)], of ns i]
  have dist: "distinct (map g_seq (run_gates J ns i (w_state w)))"
    using sq.distinct_gates[OF assms(1), of "(ns, i)"] by (simp add: old)
  obtain h where h: "find (\<lambda>h. g_seq h = g_seq g) (run_gates J ns i (w_state w)) = Some h"
    using assms(5) find_None_list_ex[of "\<lambda>h. g_seq h = g_seq g" "run_gates J ns i (w_state w)"]
    by (cases "find (\<lambda>h. g_seq h = g_seq g) (run_gates J ns i (w_state w))") (auto simp: list_ex_iff)
  then have "h = g" using find_SomeD[OF h] dist assms(5) by (auto simp: distinct_map dest: inj_onD)
  with h assms(6) show ?thesis
    using sq.resolve_sealed[OF assms(1,2) log_of_sealed[OF assms(3)] assms(4)] by (simp add: old)
qed

text \<open>The example run, sealed while its gate is pending.\<close>

definition demo_stuck :: "db world" where
  "demo_stuck = demo_world (apply_op demo_json prefix_sha (OpSeal ''acme'' ''loan'') (calm 20)
     (w_state demo_gate_world))"

theorem sealed_gate_stays_pending_witness:
  "resolve demo_json (sqlite_store demo_json prefix_sha no_extract) ''acme'' ''loan'' 2 Expired
     None None False None demo_stuck = (Inl (Conflict ''run is sealed''), tick (tick demo_stuck))"
proof -
  let ?c = "w_state demo_gate_world"
  let ?e = "seal_event demo_json prefix_sha (calm 20) ''acme'' ''loan'' ?c"
  note inv = db_goodD[OF demo_gate_facts(1)]
  obtain r where r: "run_of ''acme'' ''loan'' ?c = Some r" "rr_ended_ts r = None"
    using demo_gate_facts(3) by (auto simp: run_open_def)
  then have d: "w_state demo_stuck = end_run ''acme'' ''loan'' 20 (add_event ''acme'' ''loan'' ?e ?c)"
    by (simp add: demo_stuck_def seal_def seal_tx_eq[OF store_invD(1)[OF inv(1)] inv(2)] Let_def
        seal_event_def del: json_norm.simps of_nat_Suc)
  have rec: "record_of demo_json ''acme'' ''loan'' (w_state demo_stuck)
    = record_of demo_json ''acme'' ''loan'' ?c @ [?e]"
    unfolding d by (simp add: seal_event_def del: json_norm.simps of_nat_Suc)
  have "store_inv demo_json prefix_sha (w_state demo_stuck)"
    using store_inv_step[OF inv demo_json_ok, of "OpSeal ''acme'' ''loan''"] by (simp add: demo_stuck_def)
  then have "db_good demo_json prefix_sha (Suc 0) (w_state demo_stuck)"
    using demo_gate_facts(1) by (simp add: db_good_def d)
  moreover have "run_sealed ''acme'' ''loan'' (w_state demo_stuck)"
    unfolding d by (simp add: run_sealed_def run_of_end_run run_of_add_event r)
  moreover have "run_gates demo_json ''acme'' ''loan'' (w_state demo_stuck) = [requested 2 ''approve_loan'' 5]"
    using demo_gate_facts(5)
    by (simp add: run_gates_def rec project_step_def seal_event_def del: json_norm.simps of_nat_Suc)
  ultimately show ?thesis
    using sealed_gate_stays_pending[of demo_json prefix_sha 0 demo_stuck "''acme''" "''loan''"
        "requested 2 ''approve_loan'' 5" no_extract Expired None None False None] demo_gate_facts(4)
    by (simp add: rec requested_def) (simp add: demo_stuck_def)
qed

end
