(* ===== verification/Auth.thy ===== *)
theory Auth
  imports Store
begin

text \<open>
  Access to the record, \<open>crates/tideline-server/src/tlr/auth.rs\<close>: the configured credentials and
  the decision for a read and for a write. The namespace is a function of the credential.
\<close>

datatype access = Granted string | Denied

record auth_mode =
  am_publish_token :: "string option"
  am_subscribe_token :: "string option"
  am_cloud_verify :: bool

definition wide_open :: "auth_mode \<Rightarrow> bool" where
  "wide_open m \<longleftrightarrow> am_publish_token m = None \<and> am_subscribe_token m = None \<and> \<not> am_cloud_verify m"

definition token_matches :: "string option \<Rightarrow> string option \<Rightarrow> bool" where
  "token_matches want presented =
     (case (want, presented) of (Some w, Some p) \<Rightarrow> w = p | _ \<Rightarrow> False)"

definition resolve_read :: "auth_mode \<Rightarrow> string option \<Rightarrow> string option \<Rightarrow> access" where
  "resolve_read m presented tenant_ns =
     (case tenant_ns of
        Some ns \<Rightarrow> Granted ns
      | None \<Rightarrow>
          if wide_open m \<or> token_matches (am_subscribe_token m) presented
             \<or> token_matches (am_publish_token m) presented
          then Granted '''' else Denied)"

definition resolve_write :: "auth_mode \<Rightarrow> string option \<Rightarrow> access" where
  "resolve_write m presented =
     (if token_matches (am_publish_token m) presented \<or> wide_open m then Granted '''' else Denied)"

text \<open>The headers a handler reads, each absent or not text as \<open>None\<close>.\<close>

record headers =
  h_authorization :: "string option"
  h_idempotency_key :: "string option"

definition strip_bearer :: "string \<Rightarrow> string" where
  "strip_bearer h = (if take 7 h = ''Bearer '' then drop 7 h else h)"

definition bearer :: "headers \<Rightarrow> string option" where
  "bearer h = map_option strip_bearer (h_authorization h)"

text \<open>The tenant a Cloud key belongs to, asked only when a control plane is configured.\<close>

definition tenant_of :: "auth_mode \<Rightarrow> (string \<Rightarrow> string option) \<Rightarrow> string option \<Rightarrow> string option" where
  "tenant_of m tenants presented =
     (case presented of Some tok \<Rightarrow> if am_cloud_verify m then tenants tok else None | None \<Rightarrow> None)"

definition access_for ::
  "auth_mode \<Rightarrow> (string \<Rightarrow> string option) \<Rightarrow> headers \<Rightarrow> bool \<Rightarrow> access" where
  "access_for m tenants h write =
     (let presented = bearer h;
          tenant = tenant_of m tenants presented
      in if write
         then (case tenant of Some ns \<Rightarrow> Granted ns | None \<Rightarrow> resolve_write m presented)
         else resolve_read m presented tenant)"

lemma token_matches_iff: "token_matches want p \<longleftrightarrow> want \<noteq> None \<and> want = p"
  by (auto simp: token_matches_def split: option.splits)

lemma access_for_iff:
  "access_for m tenants h write = Granted ns \<longleftrightarrow>
     (case tenant_of m tenants (bearer h) of
        Some t \<Rightarrow> ns = t
      | None \<Rightarrow> ns = '''' \<and>
          (wide_open m \<or> (am_publish_token m \<noteq> None \<and> am_publish_token m = bearer h) \<or>
           (\<not> write \<and> am_subscribe_token m \<noteq> None \<and> am_subscribe_token m = bearer h)))"
  by (auto simp: access_for_def Let_def resolve_read_def resolve_write_def token_matches_iff
      split: option.splits)

text \<open>
  access is granted by a credential, and the namespace is the credential's. A request is
  granted namespace \<open>ns\<close> exactly when a configured control plane says the presented key
  belongs to tenant \<open>ns\<close>, or, no tenant being known, \<open>ns\<close> is the shared namespace and either
  no credential of any kind is configured, or the presented token is the publish token, or
  the request is a read and it is the subscribe token. In particular an unset token never
  matches, and a subscribe token never writes.
\<close>

theorem access_granted_iff:
  "access_for m tenants h write = Granted ns \<longleftrightarrow>
     (case tenant_of m tenants (bearer h) of
        Some t \<Rightarrow> ns = t
      | None \<Rightarrow> ns = '''' \<and>
          (wide_open m \<or> (am_publish_token m \<noteq> None \<and> am_publish_token m = bearer h) \<or>
           (\<not> write \<and> am_subscribe_token m \<noteq> None \<and> am_subscribe_token m = bearer h)))"
  by (rule access_for_iff)

end
