(* ===== verification/Routes.thy ===== *)
theory Routes
  imports Auth Approvals
begin

text \<open>
  The \<open>/v1\<close> handlers, \<open>crates/tideline-server/src/tlr/routes.rs\<close>, with the counters of
  \<open>metrics.rs\<close> and the key ring of \<open>keys.rs\<close>. A handler takes the configuration, the request's
  parts and the server, and returns a response with the server left behind. The server is the
  store's world, the calls made on the streaming backend, in order, and the counters. Decoding
  a body and printing an event are derived by the serialiser and are parameters.
\<close>

section \<open>Counters and keys\<close>

record tlr_metrics =
  m_runs_created :: u64
  m_runs_sealed :: u64
  m_events_appended :: u64
  m_append_failures :: u64
  m_gates_opened :: u64
  m_gates_approved :: u64
  m_gates_rejected :: u64
  m_gates_expired :: u64
  m_redactions :: u64
  m_checkpoints_written :: u64
  m_last_checkpoint_ms :: u64

record keyring =
  kr_key :: signing_key
  kr_key_id :: string

text \<open>The key id is derived from the public key: the first 16 digits of its digest.\<close>

definition from_seed :: "sha \<Rightarrow> sig_lib \<Rightarrow> u8 list \<Rightarrow> keyring" where
  "from_seed sha S seed = \<lparr>kr_key = seed, kr_key_id = take 16 (to_hex (sha (ed_public S seed)))\<rparr>"

definition from_seed_b64 :: "sha \<Rightarrow> sig_lib \<Rightarrow> string \<Rightarrow> keyring option" where
  "from_seed_b64 sha S s =
     (case b64_decode S s of
        None \<Rightarrow> None
      | Some raw \<Rightarrow> if length raw = 32 then Some (from_seed sha S raw) else None)"

definition to_seed_b64 :: "sig_lib \<Rightarrow> keyring \<Rightarrow> string" where
  "to_seed_b64 S k = b64_encode S (kr_key k)"

definition sign_head :: "sha \<Rightarrow> sig_lib \<Rightarrow> keyring \<Rightarrow> string \<Rightarrow> u64 \<Rightarrow> hash \<Rightarrow> u64 \<Rightarrow> checkpoint" where
  "sign_head sha S k run_id seq head ts = cp_sign sha S run_id seq head ts (kr_key_id k) (kr_key k)"

definition well_known :: "sig_lib \<Rightarrow> keyring \<Rightarrow> json" where
  "well_known S k = json_norm (JObj
     [(''protocol_versions'', JArr [JNum 1]),
      (''capabilities'', JArr (map JStr
         [''runs'', ''events'', ''approvals'', ''redaction'', ''checkpoints'', ''watch''])),
      (''keys'', JArr [JObj
         [(''id'', JStr (kr_key_id k)), (''alg'', JStr ''ed25519''),
          (''public_key'', JStr (b64_encode S (ed_public S (kr_key k))))]])])"

section \<open>State, requests and responses\<close>

record create_approval_body =
  ca_action :: string
  ca_expires_at :: "u64 option"
  ca_expires_in :: "u64 option"

record resolve_approval_body =
  ra_decision :: string
  ra_reviewer :: "string option"
  ra_note :: "string option"

record redact_body =
  rb_target_seq :: u64
  rb_fields :: "string list"
  rb_authority :: string

text \<open>\<open>serde_json::from_str\<close> into the body types; an error carries its message.\<close>

record decoders =
  de_new_run :: "string \<Rightarrow> string + new_run"
  de_new_event :: "string \<Rightarrow> string + new_event"
  de_create_approval :: "string \<Rightarrow> create_approval_body option"
  de_resolve_approval :: "string \<Rightarrow> resolve_approval_body option"
  de_redact :: "string \<Rightarrow> redact_body option"
  en_event :: "run_event \<Rightarrow> string option"

record 's tlr_state =
  tl_store :: "'s tlr_store"
  tl_keys :: keyring
  tl_mode :: auth_mode
  tl_tenants :: "string \<Rightarrow> string option"
  tl_checkpoint_every :: u64
  tl_json :: json_lib
  tl_sha :: sha
  tl_sig :: sig_lib
  tl_codec :: decoders

datatype spine_call = Publish string string | Complete string | Subscribe string u64

record 's server =
  sv_world :: "'s world"
  sv_spine :: "spine_call list"
  sv_metrics :: tlr_metrics

datatype body =
  Text string
| RunBody run_envelope
| PageBody run_page
| ResultBody append_result
| EventsBody "run_event list"
| CheckpointBody checkpoint
| GatesBody "gate list"
| GateBody gate
| JsonBody json

record response =
  rs_status :: nat
  rs_body :: body

definition respond :: "nat \<Rightarrow> body \<Rightarrow> response" where
  "respond n b = \<lparr>rs_status = n, rs_body = b\<rparr>"

text \<open>A call on the store, the clock, a counter and the spine, each through the server.\<close>

definition on_store :: "('s world \<Rightarrow> 'r \<times> 's world) \<Rightarrow> 's server \<Rightarrow> 'r \<times> 's server" where
  "on_store op sv = (let (r, w) = op (sv_world sv) in (r, sv\<lparr>sv_world := w\<rparr>))"

definition read_clock :: "'s world \<Rightarrow> u64 \<times> 's world" where
  "read_clock w = (now_ms (w_sys w (w_tick w)), w\<lparr>w_tick := Suc (w_tick w)\<rparr>)"

definition incr :: "((u64 \<Rightarrow> u64) \<Rightarrow> tlr_metrics \<Rightarrow> tlr_metrics) \<Rightarrow> 's server \<Rightarrow> 's server" where
  "incr upd sv = sv\<lparr>sv_metrics := upd (\<lambda>n. n + 1) (sv_metrics sv)\<rparr>"

definition spine :: "spine_call \<Rightarrow> 's server \<Rightarrow> 's server" where
  "spine c sv = sv\<lparr>sv_spine := sv_spine sv @ [c]\<rparr>"

section \<open>Errors, ids and names\<close>

fun err :: "store_error \<Rightarrow> response" where
  "err NotFound = respond 404 (Text ''not found'')"
| "err (Conflict m) = respond 409 (Text m)"
| "err (Invalid m) = respond 400 (Text m)"
| "err (Backend m) = respond 500 (Text ''storage failure'')"

text \<open>A message of the source with its single quotes, which \<open>@\<close> stands for.\<close>

definition quoted :: "string \<Rightarrow> string" where
  "quoted s = map (\<lambda>c. if c = CHR ''@'' then CHR 0x27 else c) s"

definition bad :: "string \<Rightarrow> response" where
  "bad msg = respond 400 (Text msg)"

definition id_char :: "char \<Rightarrow> bool" where
  "id_char c \<longleftrightarrow> (let n = of_char c :: nat in
     (48 \<le> n \<and> n \<le> 57) \<or> (65 \<le> n \<and> n \<le> 90) \<or> (97 \<le> n \<and> n \<le> 122)
     \<or> c = CHR ''-'' \<or> c = CHR ''_'' \<or> c = CHR ''.'' \<or> c = CHR '':'')"

definition valid_id :: "string \<Rightarrow> bool" where
  "valid_id i \<longleftrightarrow> i \<noteq> [] \<and> length i \<le> 128 \<and> list_all id_char i"

definition authorize :: "'s tlr_state \<Rightarrow> headers \<Rightarrow> bool \<Rightarrow> response + string" where
  "authorize st h write =
     (case access_for (tl_mode st) (tl_tenants st) h write of
        Granted ns \<Rightarrow> Inr ns
      | Denied \<Rightarrow> Inl (respond 401 (Text ''unauthorized'')))"

definition stream_name :: "string \<Rightarrow> string \<Rightarrow> string" where
  "stream_name ns run_id =
     (if ns = '''' then ''tlr.'' @ run_id else ''tlr.'' @ ns @ ''.'' @ run_id)"

text \<open>\<open>s.trim().is_empty()\<close>: nothing but white space, in UTF-8.\<close>

fun blank_bytes :: "nat list \<Rightarrow> bool" where
  "blank_bytes [] = True"
| "blank_bytes (b # bs) =
     ((b = 32 \<or> (9 \<le> b \<and> b \<le> 13)) \<and> blank_bytes bs
      \<or> (case bs of
           [] \<Rightarrow> False
         | b2 # bs2 \<Rightarrow>
             (b = 0xC2 \<and> (b2 = 0x85 \<or> b2 = 0xA0) \<and> blank_bytes bs2)
             \<or> (case bs2 of
                  [] \<Rightarrow> False
                | b3 # bs3 \<Rightarrow>
                    ((b = 0xE1 \<and> b2 = 0x9A \<and> b3 = 0x80)
                     \<or> (b = 0xE2 \<and> b2 = 0x80 \<and>
                          (b3 \<le> 0x8A \<and> 0x80 \<le> b3 \<or> b3 = 0xA8 \<or> b3 = 0xA9 \<or> b3 = 0xAF))
                     \<or> (b = 0xE2 \<and> b2 = 0x81 \<and> b3 = 0x9F)
                     \<or> (b = 0xE3 \<and> b2 = 0x80 \<and> b3 = 0x80)) \<and> blank_bytes bs3)))"

definition blank :: "string \<Rightarrow> bool" where
  "blank s = blank_bytes (map of_char s)"

section \<open>Plumbing\<close>

definition publish_head :: "'s tlr_state \<Rightarrow> string \<Rightarrow> string \<Rightarrow> u64 \<Rightarrow> 's server \<Rightarrow> 's server" where
  "publish_head st ns run_id seq sv =
     (case on_store (st_events (tl_store st) ns run_id seq 1) sv of
        (Inl e, sv) \<Rightarrow> sv
      | (Inr events, sv) \<Rightarrow>
          (case events of
             [] \<Rightarrow> sv
           | event # _ \<Rightarrow>
               (case en_event (tl_codec st) event of
                  None \<Rightarrow> sv
                | Some json \<Rightarrow> spine (Publish (stream_name ns run_id) json) sv)))"

definition write_checkpoint ::
  "'s tlr_state \<Rightarrow> string \<Rightarrow> string \<Rightarrow> u64 \<Rightarrow> hash \<Rightarrow> 's server \<Rightarrow> unit store_result \<times> 's server" where
  "write_checkpoint st ns run_id seq head sv =
     (let (now, sv) = on_store read_clock sv;
          cp = sign_head (tl_sha st) (tl_sig st) (tl_keys st) run_id seq head now
      in case on_store (st_put_checkpoint (tl_store st) ns cp) sv of
           (Inl e, sv) \<Rightarrow> (Inl e, sv)
         | (Inr _, sv) \<Rightarrow>
             (let sv = incr m_checkpoints_written_update sv
              in (Inr (), sv\<lparr>sv_metrics := (sv_metrics sv)\<lparr>m_last_checkpoint_ms := cp_ts cp\<rparr>\<rparr>)))"

definition maybe_checkpoint ::
  "'s tlr_state \<Rightarrow> string \<Rightarrow> string \<Rightarrow> u64 \<Rightarrow> hash \<Rightarrow> 's server \<Rightarrow> 's server" where
  "maybe_checkpoint st ns run_id seq head sv =
     (if 0 < tl_checkpoint_every st \<and> seq mod tl_checkpoint_every st = 0
      then snd (write_checkpoint st ns run_id seq head sv) else sv)"

section \<open>Handlers\<close>

definition h_create_run :: "'s tlr_state \<Rightarrow> headers \<Rightarrow> string \<Rightarrow> 's server \<Rightarrow> response \<times> 's server" where
  "h_create_run st h body sv =
     (case authorize st h True of
        Inl r \<Rightarrow> (r, sv)
      | Inr ns \<Rightarrow>
          (case de_new_run (tl_codec st) body of
             Inl e \<Rightarrow> (bad (''invalid run: '' @ e), sv)
           | Inr new \<Rightarrow>
               if \<not> valid_id (nr_run_id new) then (bad ''invalid run id'', sv)
               else (case on_store (st_create_run (tl_store st) ns new) sv of
                       (Inr env, sv) \<Rightarrow>
                         (let sv = incr m_runs_created_update sv;
                              sv = publish_head st ns (env_run_id env) 0 sv
                          in (respond 200 (RunBody env), sv))
                     | (Inl e, sv) \<Rightarrow> (err e, sv))))"

definition h_list_runs :: "'s tlr_state \<Rightarrow> run_query \<Rightarrow> headers \<Rightarrow> 's server \<Rightarrow> response \<times> 's server" where
  "h_list_runs st q h sv =
     (case authorize st h False of
        Inl r \<Rightarrow> (r, sv)
      | Inr ns \<Rightarrow>
          (case on_store (st_list_runs (tl_store st) ns q) sv of
             (Inr page, sv) \<Rightarrow> (respond 200 (PageBody page), sv)
           | (Inl e, sv) \<Rightarrow> (err e, sv)))"

definition h_get_run :: "'s tlr_state \<Rightarrow> string \<Rightarrow> headers \<Rightarrow> 's server \<Rightarrow> response \<times> 's server" where
  "h_get_run st i h sv =
     (case authorize st h False of
        Inl r \<Rightarrow> (r, sv)
      | Inr ns \<Rightarrow>
          if \<not> valid_id i then (bad ''invalid run id'', sv)
          else (case on_store (st_get_run (tl_store st) ns i) sv of
                  (Inr env, sv) \<Rightarrow> (respond 200 (RunBody env), sv)
                | (Inl e, sv) \<Rightarrow> (err e, sv)))"

definition structural :: "event_kind \<Rightarrow> bool" where
  "structural k \<longleftrightarrow> k = RunStarted \<or> k = RunFinished \<or> k = Redaction"

definition h_append_event ::
  "'s tlr_state \<Rightarrow> string \<Rightarrow> headers \<Rightarrow> string \<Rightarrow> 's server \<Rightarrow> response \<times> 's server" where
  "h_append_event st i h body sv =
     (case authorize st h True of
        Inl r \<Rightarrow> (r, sv)
      | Inr ns \<Rightarrow>
          if \<not> valid_id i then (bad ''invalid run id'', sv)
          else (case de_new_event (tl_codec st) body of
             Inl e \<Rightarrow> (bad (''invalid event: '' @ e), sv)
           | Inr event \<Rightarrow>
               if structural (ne_kind event)
               then (bad (kind_str (ne_kind event)
                       @ '' is written by its own route, not by appending''), sv)
               else (case on_store (st_append (tl_store st) ns i event (h_idempotency_key h)) sv of
                       (Inr res, sv) \<Rightarrow>
                         (let sv = incr m_events_appended_update sv;
                              sv = publish_head st ns i (ar_seq res) sv;
                              sv = maybe_checkpoint st ns i (ar_seq res) (ar_hash res) sv
                          in (respond 200 (ResultBody res), sv))
                     | (Inl e, sv) \<Rightarrow> (err e, incr m_append_failures_update sv))))"

record events_query =
  eq_from :: "u64 option"
  eq_limit :: "u32 option"

definition h_list_events ::
  "'s tlr_state \<Rightarrow> string \<Rightarrow> events_query \<Rightarrow> headers \<Rightarrow> 's server \<Rightarrow> response \<times> 's server" where
  "h_list_events st i q h sv =
     (case authorize st h False of
        Inl r \<Rightarrow> (r, sv)
      | Inr ns \<Rightarrow>
          if \<not> valid_id i then (bad ''invalid run id'', sv)
          else (case on_store (st_events (tl_store st) ns i
                        (case eq_from q of None \<Rightarrow> 0 | Some n \<Rightarrow> n)
                        (case eq_limit q of None \<Rightarrow> 1000 | Some n \<Rightarrow> n)) sv of
                  (Inr events, sv) \<Rightarrow> (respond 200 (EventsBody events), sv)
                | (Inl e, sv) \<Rightarrow> (err e, sv)))"

definition h_complete_run :: "'s tlr_state \<Rightarrow> string \<Rightarrow> headers \<Rightarrow> 's server \<Rightarrow> response \<times> 's server" where
  "h_complete_run st i h sv =
     (case authorize st h True of
        Inl r \<Rightarrow> (r, sv)
      | Inr ns \<Rightarrow>
          if \<not> valid_id i then (bad ''invalid run id'', sv)
          else (case on_store (st_seal (tl_store st) ns i) sv of
             (Inr res, sv) \<Rightarrow>
               (let sv = incr m_runs_sealed_update sv;
                    sv = publish_head st ns i (ar_seq res) sv
                in case write_checkpoint st ns i (ar_seq res) (ar_hash res) sv of
                     (Inl e, sv) \<Rightarrow> (err e, sv)
                   | (Inr _, sv) \<Rightarrow>
                       (respond 200 (ResultBody res), spine (Complete (stream_name ns i)) sv))
           | (Inl (Conflict msg), sv) \<Rightarrow>
               (case on_store (st_latest_checkpoint (tl_store st) ns i) sv of
                  (Inr None, sv) \<Rightarrow>
                    (case on_store (st_get_run (tl_store st) ns i) sv of
                       (Inr env, sv) \<Rightarrow>
                         (case write_checkpoint st ns i (env_head_seq env) (env_head_hash env) sv of
                            (Inl e, sv) \<Rightarrow> (err e, sv)
                          | (Inr _, sv) \<Rightarrow>
                              (respond 200 (JsonBody (json_norm (JObj
                                 [(''seq'', JNum (env_head_seq env)),
                                  (''hash'', JStr (to_hex (env_head_hash env))),
                                  (''repaired'', JBool True)]))), sv))
                     | (Inl e, sv) \<Rightarrow> (err e, sv))
                | (Inr (Some _), sv) \<Rightarrow> (err (Conflict msg), sv)
                | (Inl e, sv) \<Rightarrow> (err e, sv))
           | (Inl e, sv) \<Rightarrow> (err e, sv)))"

definition h_get_checkpoint :: "'s tlr_state \<Rightarrow> string \<Rightarrow> headers \<Rightarrow> 's server \<Rightarrow> response \<times> 's server" where
  "h_get_checkpoint st i h sv =
     (case authorize st h False of
        Inl r \<Rightarrow> (r, sv)
      | Inr ns \<Rightarrow>
          if \<not> valid_id i then (bad ''invalid run id'', sv)
          else (case on_store (st_latest_checkpoint (tl_store st) ns i) sv of
                  (Inr (Some cp), sv) \<Rightarrow> (respond 200 (CheckpointBody cp), sv)
                | (Inr None, sv) \<Rightarrow> (respond 404 (Text ''no checkpoint yet''), sv)
                | (Inl e, sv) \<Rightarrow> (err e, sv)))"

section \<open>Handlers of gates and redactions\<close>

text \<open>The clock is read only where the body names no absolute expiry; sums wrap.\<close>

definition expiry_of :: "create_approval_body \<Rightarrow> 's server \<Rightarrow> u64 \<times> 's server" where
  "expiry_of req sv =
     (case ca_expires_at req of
        Some t \<Rightarrow> (t, sv)
      | None \<Rightarrow>
          (let (now, sv) = on_store read_clock sv
           in case ca_expires_in req of
                Some s \<Rightarrow> (now + s * 1000, sv)
              | None \<Rightarrow> (now + 86400000, sv)))"

definition h_create_approval ::
  "'s tlr_state \<Rightarrow> string \<Rightarrow> headers \<Rightarrow> string \<Rightarrow> 's server \<Rightarrow> response \<times> 's server" where
  "h_create_approval st i h body sv =
     (case authorize st h True of
        Inl r \<Rightarrow> (r, sv)
      | Inr ns \<Rightarrow>
          if \<not> valid_id i then (bad ''invalid run id'', sv)
          else (case de_create_approval (tl_codec st) body of
             None \<Rightarrow> (bad ''expected {\"action\": ...}'', sv)
           | Some req \<Rightarrow>
               (let (expires_at, sv) = expiry_of req sv
                in case on_store (request (tl_json st) (tl_store st) ns i (ca_action req) expires_at) sv of
                     (Inr seq, sv) \<Rightarrow>
                       (let sv = incr m_gates_opened_update sv;
                            sv = publish_head st ns i seq sv
                        in (respond 200 (JsonBody (json_norm (JObj
                              [(''seq'', JNum seq), (''expires_at'', JNum expires_at)]))), sv))
                   | (Inl e, sv) \<Rightarrow> (err e, sv))))"

definition expire_then_read ::
  "'s tlr_state \<Rightarrow> string \<Rightarrow> string \<Rightarrow> 's server \<Rightarrow> run_event list store_result \<times> 's server" where
  "expire_then_read st ns i sv =
     (case on_store (st_events (tl_store st) ns i 0 5000) sv of
        (Inl e, sv) \<Rightarrow> (Inl e, sv)
      | (Inr events, sv) \<Rightarrow>
          (let (now, sv) = on_store read_clock sv
           in case on_store (expire_lapsed_in (tl_json st) (tl_store st) ns i events now) sv of
                (Inl e, sv) \<Rightarrow> (Inl e, sv)
              | (Inr lapsed, sv) \<Rightarrow>
                  if lapsed = 0 then (Inr events, sv)
                  else on_store (st_events (tl_store st) ns i 0 5000)
                         ((incr m_gates_expired_update ^^ lapsed) sv)))"

definition h_list_approvals :: "'s tlr_state \<Rightarrow> string \<Rightarrow> headers \<Rightarrow> 's server \<Rightarrow> response \<times> 's server" where
  "h_list_approvals st i h sv =
     (case authorize st h False of
        Inl r \<Rightarrow> (r, sv)
      | Inr ns \<Rightarrow>
          if \<not> valid_id i then (bad ''invalid run id'', sv)
          else (case expire_then_read st ns i sv of
                  (Inr events, sv) \<Rightarrow>
                    (respond 200 (GatesBody
                       (filter (\<lambda>g. g_state g = Pending) (project (tl_json st) events))), sv)
                | (Inl e, sv) \<Rightarrow> (err e, sv)))"

definition h_get_approval ::
  "'s tlr_state \<Rightarrow> string \<Rightarrow> u64 \<Rightarrow> headers \<Rightarrow> 's server \<Rightarrow> response \<times> 's server" where
  "h_get_approval st i seq h sv =
     (case authorize st h False of
        Inl r \<Rightarrow> (r, sv)
      | Inr ns \<Rightarrow>
          if \<not> valid_id i then (bad ''invalid run id'', sv)
          else (case expire_then_read st ns i sv of
                  (Inr events, sv) \<Rightarrow>
                    (case find (\<lambda>g. g_seq g = seq) (project (tl_json st) events) of
                       Some g \<Rightarrow> (respond 200 (GateBody g), sv)
                     | None \<Rightarrow> (respond 404 (Text ''no such approval''), sv))
                | (Inl e, sv) \<Rightarrow> (err e, sv)))"

text \<open>The principal the server authenticated, if it has one.\<close>

definition reviewer_principal_of :: "'s tlr_state \<Rightarrow> headers \<Rightarrow> string option" where
  "reviewer_principal_of st h =
     (case (am_cloud_verify (tl_mode st), bearer h) of
        (True, Some tok) \<Rightarrow> map_option (\<lambda>ns. ''tenant:'' @ ns) (tl_tenants st tok)
      | _ \<Rightarrow> None)"

definition h_resolve_approval ::
  "'s tlr_state \<Rightarrow> string \<Rightarrow> u64 \<Rightarrow> headers \<Rightarrow> string \<Rightarrow> 's server \<Rightarrow> response \<times> 's server" where
  "h_resolve_approval st i seq h body sv =
     (case authorize st h True of
        Inl r \<Rightarrow> (r, sv)
      | Inr ns \<Rightarrow>
          if \<not> valid_id i then (bad ''invalid run id'', sv)
          else (case de_resolve_approval (tl_codec st) body of
             None \<Rightarrow> (bad ''invalid resolve body'', sv)
           | Some req \<Rightarrow>
               (case decision_parse (ra_decision req) of
                  None \<Rightarrow> (bad (quoted ''decision must be @approved@ or @rejected@''), sv)
                | Some decision \<Rightarrow>
                    if decision = Expired
                    then (bad (quoted ''@expired@ is written by the server, not a reviewer''), sv)
                    else
                      (let who = reviewer_principal_of st h;
                           attested = (who \<noteq> None)
                       in case on_store (resolve (tl_json st) (tl_store st) ns i seq decision
                                  (ra_reviewer req) who attested (ra_note req)) sv of
                            (Inr written, sv) \<Rightarrow>
                              (let sv = (case decision of
                                     Approved \<Rightarrow> incr m_gates_approved_update sv
                                   | Rejected \<Rightarrow> incr m_gates_rejected_update sv
                                   | Expired \<Rightarrow> incr m_gates_expired_update sv);
                                   sv = publish_head st ns i written sv
                               in (respond 200 (JsonBody (json_norm (JObj
                                     [(''seq'', JNum written), (''target_seq'', JNum seq),
                                      (''decision'', JStr (decision_str decision)),
                                      (''attested'', JBool attested)]))), sv))
                          | (Inl e, sv) \<Rightarrow> (err e, sv)))))"

definition h_redact ::
  "'s tlr_state \<Rightarrow> string \<Rightarrow> headers \<Rightarrow> string \<Rightarrow> 's server \<Rightarrow> response \<times> 's server" where
  "h_redact st i h body sv =
     (case authorize st h True of
        Inl r \<Rightarrow> (r, sv)
      | Inr ns \<Rightarrow>
          if \<not> valid_id i then (bad ''invalid run id'', sv)
          else (case de_redact (tl_codec st) body of
             None \<Rightarrow> (bad ''expected {target_seq, fields, authority}'', sv)
           | Some req \<Rightarrow>
               if blank (rb_authority req) then (bad ''authority is required'', sv)
               else (case on_store (st_redact (tl_store st) ns i (rb_target_seq req)
                             (rb_fields req) (rb_authority req)) sv of
                       (Inr res, sv) \<Rightarrow>
                         (let sv = incr m_redactions_update sv;
                              sv = publish_head st ns i (ar_seq res) sv
                          in (respond 200 (ResultBody res), sv))
                     | (Inl e, sv) \<Rightarrow> (err e, sv))))"

end
