(* ===== verification/Server_Inv.thy ===== *)
theory Server_Inv
  imports Sqlite_Store Routes
begin

text \<open>
  What the whole server keeps true of its database: the store's invariant, the shape the
  protocol demands of a record (\<open>run_started\<close> first and only first, \<open>run_finished\<close> last and
  only in a sealed run), and that every stored checkpoint is the server's own signature over
  the digest its record has at that number. Each handler of \<open>Routes\<close> is shown to keep it.
\<close>

section \<open>The shape of a record\<close>

definition inner_kind :: "event_kind \<Rightarrow> bool" where
  "inner_kind k \<longleftrightarrow> k \<noteq> RunStarted \<and> k \<noteq> RunFinished"

definition well_shaped :: "event_kind list \<Rightarrow> bool \<Rightarrow> bool" where
  "well_shaped ks sealed \<longleftrightarrow>
     (case ks of
        [] \<Rightarrow> False
      | k # rest \<Rightarrow> k = RunStarted \<and>
          (if sealed then rest \<noteq> [] \<and> last rest = RunFinished \<and> list_all inner_kind (butlast rest)
           else list_all inner_kind rest))"

definition run_shape :: "json_lib \<Rightarrow> string \<Rightarrow> string \<Rightarrow> db \<Rightarrow> (event_kind list \<times> bool) option" where
  "run_shape J ns i c =
     map_option (\<lambda>r. (map ev_kind (record_of J ns i c), rr_ended_ts r \<noteq> None)) (run_of ns i c)"

definition shapes_ok :: "json_lib \<Rightarrow> db \<Rightarrow> bool" where
  "shapes_ok J c \<longleftrightarrow>
     (\<forall>ns i ks sealed. run_shape J ns i c = Some (ks, sealed) \<longrightarrow> well_shaped ks sealed)"

text \<open>What one operation does to the shape of a run.\<close>

definition shape_next :: "(event_kind list \<times> bool) option \<Rightarrow> (event_kind list \<times> bool) option \<Rightarrow> bool" where
  "shape_next a b \<longleftrightarrow> b = a \<or> (a = None \<and> b = Some ([RunStarted], False)) \<or>
     (\<exists>ks k. a = Some (ks, False) \<and> inner_kind k \<and> b = Some (ks @ [k], False)) \<or>
     (\<exists>ks. a = Some (ks, False) \<and> b = Some (ks @ [RunFinished], True))"

lemma shape_nextI:
  "shape_next a a" "shape_next None (Some ([RunStarted], False))"
  "inner_kind k \<Longrightarrow> shape_next (Some (ks, False)) (Some (ks @ [k], False))"
  "shape_next (Some (ks, False)) (Some (ks @ [RunFinished], True))"
  by (simp_all add: shape_next_def)

lemma well_shaped_snoc:
  "well_shaped ks False \<Longrightarrow> inner_kind k \<Longrightarrow> well_shaped (ks @ [k]) False"
  "well_shaped ks False \<Longrightarrow> well_shaped (ks @ [RunFinished]) True"
  "well_shaped [RunStarted] False"
  by (cases ks; simp add: well_shaped_def)+

lemma well_shaped_next:
  assumes "shape_next a b" and "\<And>ks s. a = Some (ks, s) \<Longrightarrow> well_shaped ks s" and "b = Some (ks, s)"
  shows "well_shaped ks s"
  using assms(1,3) assms(2)[of _ False] assms(2)[of ks s] unfolding shape_next_def
  by (auto simp: well_shaped_snoc)

definition op_inner :: "store_op \<Rightarrow> bool" where
  "op_inner op \<longleftrightarrow> (case op of OpAppend ns i ev key \<Rightarrow> inner_kind (ne_kind ev) | _ \<Rightarrow> True)"

lemma map_kind_erase [simp]:
  "map ev_kind (evs[k := erase_event sha fs (evs ! k)]) = map ev_kind evs"
  by (rule nth_equalityI) (simp_all add: nth_update_same[of ev_kind])

lemma run_shape_add:
  assumes "run_of ns i c = Some r" and "rr_ended_ts r = None"
    and "meta_ok J (ev_metadata e)" and "ev_redacted e = None"
  shows "run_shape J ns' i' (add_event ns i e c) =
    (if ns' = ns \<and> i' = i then Some (map ev_kind (record_of J ns i c) @ [ev_kind e], False)
     else run_shape J ns' i' c)"
  using assms by (simp add: run_shape_def run_of_add_event)

lemma run_shape_open: "run_of ns i c = Some r \<Longrightarrow> rr_ended_ts r = None \<Longrightarrow>
  run_shape J ns i c = Some (map ev_kind (record_of J ns i c), False)"
  by (simp add: run_shape_def)

lemma shape_add_event:
  assumes "run_of ns i c = Some r" and "rr_ended_ts r = None"
    and "meta_ok J (ev_metadata e)" and "ev_redacted e = None" and "inner_kind (ev_kind e)"
  shows "shape_next (run_shape J ns' i' c) (run_shape J ns' i' (add_event ns i e c))"
  using assms(5) run_shape_open[OF assms(1,2), of J]
  by (simp add: run_shape_add[OF assms(1-4)] shape_nextI)

lemma shape_end_run:
  assumes "run_of ns i c = Some r" and "rr_ended_ts r = None"
    and "meta_ok J (ev_metadata e)" and "ev_redacted e = None" and "ev_kind e = RunFinished"
  shows "shape_next (run_shape J ns' i' c) (run_shape J ns' i' (end_run ns i ts (add_event ns i e c)))"
proof -
  have "run_shape J ns' i' (end_run ns i ts (add_event ns i e c)) =
    (if ns' = ns \<and> i' = i then Some (map ev_kind (record_of J ns i c) @ [RunFinished], True)
     else run_shape J ns' i' c)"
    using assms by (simp add: run_shape_def run_of_end_run run_of_add_event)
  with run_shape_open[OF assms(1,2), of J] show ?thesis
    by (simp add: shape_nextI)
qed

lemma shape_open_run:
  assumes "store_inv J sha c" and "json_ok J" and "run_of ns (nr_run_id new) c = None"
  shows "shape_next (run_shape J ns' i' c) (run_shape J ns' i' (open_run J sha ts ns new c))"
proof -
  have "record_of J ns (nr_run_id new) c = []"
    using store_invD(1)[OF assms(1), of ns "nr_run_id new"] assms(3)
    by (simp add: run_inv_def record_of_def)
  with assms(3) have "run_shape J ns' i' (open_run J sha ts ns new c) =
    (if ns' = ns \<and> i' = nr_run_id new then Some ([RunStarted], False) else run_shape J ns' i' c)"
    by (auto simp: run_shape_def run_of_open_run record_of_open_run[OF assms(2)] run_row_of_def
        split: option.split)
  with assms(3) show ?thesis
    by (simp add: shape_nextI) (simp add: run_shape_def shape_nextI)
qed

lemma run_shape_redact_row:
  assumes "store_inv J sha c" and "json_ok J" and "small c"
  shows "run_shape J ns' i' (redact_row J sha ns i seq fs c) = run_shape J ns' i' c"
  by (simp add: run_shape_def record_of_redact_row[OF assms(2) store_invD(2)[OF assms(1)] assms(3)
      linked_of_inv[OF store_invD(1)[OF assms(1)]]])

lemma run_shape_frame [simp]:
  "run_shape J ns' i' (remember_result ns i key res c) = run_shape J ns' i' c"
  "run_shape J ns' i' (c\<lparr>db_checkpoints := rows\<rparr>) = run_shape J ns' i' c"
  by (simp_all add: run_shape_def) (simp add: run_of_def record_of_def rows_of_def)

lemma shape_step:
  assumes "store_inv J sha c" and "small c" and "json_ok J" and "op_ok J op" and "op_inner op"
  shows "shape_next (run_shape J ns' i' c) (run_shape J ns' i' (apply_op J sha op s c))"
proof (cases op)
  case (OpCreate ns new)
  with create_run_cases[OF assms(1,2), of ns new s] shape_open_run[OF assms(1,3)]
  show ?thesis by (auto simp: shape_nextI(1))
next
  case (OpAppend ns i ev key)
  have "shape_next (run_shape J ns' i' c) (run_shape J ns' i' (add_event ns i (appended J sha s ns i ev c) c))"
    if "run_of ns i c = Some r" "rr_ended_ts r = None" for r
    using that assms(4,5) OpAppend by (intro shape_add_event) (simp_all add: appended_def op_inner_def)
  with OpAppend append_cases[OF assms(1,2), of ns i ev key s]
  show ?thesis by (auto simp: Let_def shape_nextI(1))
next
  case (OpSeal ns i)
  have "shape_next (run_shape J ns' i' c)
      (run_shape J ns' i' (end_run ns i ts (add_event ns i (seal_event J sha s ns i c) c)))"
    if "run_of ns i c = Some r" "rr_ended_ts r = None" for r ts
    using that assms(3) by (intro shape_end_run) (simp_all add: seal_event_def del: json_norm.simps)
  with OpSeal seal_cases[OF assms(1,2), of ns i s] show ?thesis
    by (auto simp: Let_def shape_nextI(1))
next
  case (OpRedact ns i seq fs a)
  let ?c = "redact_row J sha ns i seq fs c"
  have "shape_next (run_shape J ns' i' ?c)
      (run_shape J ns' i' (add_event ns i (redaction_event J sha s ns i seq fs a c) ?c))"
    if "run_of ns i c = Some r" "rr_ended_ts r = None" for r
    using that assms(3)
    by (intro shape_add_event) (simp_all add: redaction_event_def inner_kind_def)
  with OpRedact redact_cases[OF assms(1-3), of ns i seq fs a s] show ?thesis
    by (auto simp: Let_def shape_nextI(1) run_shape_redact_row[OF assms(1,3,2)])
next
  case (OpPut ns cp)
  with put_cases[of ns cp s c] show ?thesis
    by (auto simp: shape_nextI(1))
qed (simp_all add: shape_nextI(1))

section \<open>The checkpoints of a record\<close>

definition cp_row_of :: "string \<Rightarrow> checkpoint \<Rightarrow> cp_row" where
  "cp_row_of ns cp = \<lparr>cr_ns = ns, cr_run_id = cp_run_id cp, cr_seq = cp_seq cp,
     cr_head_hash = blob (cp_head_hash cp), cr_ts = cp_ts cp, cr_key_id = cp_key_id cp,
     cr_sig = cp_sig cp\<rparr>"

text \<open>The checkpoint the server signs at number \<open>seq\<close> of a record.\<close>

definition commits_to :: "run_event list \<Rightarrow> u64 \<Rightarrow> hash \<Rightarrow> bool" where
  "commits_to evs seq h \<longleftrightarrow> unat seq < length evs \<and> ev_hash (evs ! unat seq) = h"

definition cps_ok :: "json_lib \<Rightarrow> sha \<Rightarrow> sig_lib \<Rightarrow> keyring \<Rightarrow> db \<Rightarrow> bool" where
  "cps_ok J sha S kr c \<longleftrightarrow> (\<forall>r \<in> set (db_checkpoints c). \<exists>ns i seq h ts.
     r = cp_row_of ns (sign_head sha S kr i seq h ts) \<and> commits_to (record_of J ns i c) seq h)"

lemma commits_to_iff:
  "commits_to evs seq h \<longleftrightarrow>
     unat seq < length (commitments sha evs) \<and> snd (commitments sha evs ! unat seq) = h"
  by (auto simp: commits_to_def commitments_def)

lemma commits_to_extends:
  assumes "extends J sha c d" and "commits_to (record_of J ns i c) seq h"
  shows "commits_to (record_of J ns i d) seq h"
proof -
  from assms(1) obtain zs where "commitments sha (record_of J ns i d) = commitments sha (record_of J ns i c) @ zs"
    unfolding extends_def prefix_def by metis
  with assms(2) show ?thesis
    unfolding commits_to_iff[where sha = sha] by (simp add: nth_append)
qed

lemma cps_ok_extends:
  "cps_ok J sha S kr c \<Longrightarrow> extends J sha c d \<Longrightarrow> db_checkpoints d = db_checkpoints c \<Longrightarrow> cps_ok J sha S kr d"
  unfolding cps_ok_def using commits_to_extends by fastforce

lemma checkpoints_step:
  assumes "store_inv J sha c" and "small c" and "json_ok J" and "\<And>ns cp. op \<noteq> OpPut ns cp"
  shows "db_checkpoints (apply_op J sha op s c) = db_checkpoints c"
proof (cases op)
  case (OpCreate ns new)
  with create_run_cases[OF assms(1,2), of ns new s] show ?thesis by auto
next
  case (OpAppend ns i ev key)
  with append_cases[OF assms(1,2), of ns i ev key s] show ?thesis by (auto simp: Let_def)
next
  case (OpSeal ns i)
  with seal_cases[OF assms(1,2), of ns i s] show ?thesis by (auto simp: Let_def)
next
  case (OpRedact ns i seq fs a)
  with redact_cases[OF assms(1-3), of ns i seq fs a s] show ?thesis by (auto simp: Let_def)
qed (use assms(4) in simp_all)

section \<open>The invariant of the server\<close>

text \<open>\<open>B\<close> is the database at an earlier moment, which this one extends.\<close>

definition server_ok ::
  "json_lib \<Rightarrow> sha \<Rightarrow> sig_lib \<Rightarrow> keyring \<Rightarrow> db \<Rightarrow> nat \<Rightarrow> db \<Rightarrow> bool" where
  "server_ok J sha S kr B n c \<longleftrightarrow>
     db_good J sha n c \<and> shapes_ok J c \<and> cps_ok J sha S kr c \<and> extends J sha B c"

lemma server_okD:
  assumes "server_ok J sha S kr B n c"
  shows "db_good J sha n c" "json_ok J" "store_inv J sha c" "small c" "shapes_ok J c"
    "cps_ok J sha S kr c" "extends J sha B c"
  using assms by (auto simp: server_ok_def db_good_def small_def)

lemma server_ok_less: "server_ok J sha S kr B m c \<Longrightarrow> n \<le> m \<Longrightarrow> server_ok J sha S kr B n c"
  by (simp add: server_ok_def db_good_def)

lemma server_ok_step:
  assumes "server_ok J sha S kr B (Suc n) c" and "op_ok J op" and "op_inner op"
    and "\<And>ns cp. op \<noteq> OpPut ns cp"
  shows "server_ok J sha S kr B n (apply_op J sha op s c)"
proof -
  note inv = server_okD[OF assms(1)]
  have "shapes_ok J (apply_op J sha op s c)"
    using inv(5) well_shaped_next[OF shape_step[OF inv(3,4,2) assms(2,3)]]
    unfolding shapes_ok_def by metis
  moreover have "cps_ok J sha S kr (apply_op J sha op s c)"
    by (rule cps_ok_extends[OF inv(6) extends_step[OF inv(3,4,2) assms(2)]
          checkpoints_step[OF inv(3,4,2) assms(4)]])
  moreover have "extends J sha B (apply_op J sha op s c)"
    by (rule extends_trans[OF inv(7) extends_step[OF inv(3,4,2) assms(2)]])
  ultimately show ?thesis
    using store_inv_step[OF inv(3,4,2) assms(2), of s] step_events_length[OF inv(3,4,2), of op s]
      inv(1) by (simp add: server_ok_def db_good_def)
qed

lemma put_rows:
  "(\<exists>e. put_checkpoint ns cp s c = (Inl e, c)) \<or>
   put_checkpoint ns cp s c = (Inr (), c\<lparr>db_checkpoints :=
     filter (\<lambda>r. \<not> (cp_at ns (cp_run_id cp) r \<and> cr_seq r = cp_seq cp)) (db_checkpoints c)
     @ [cp_row_of ns cp]\<rparr>)"
  using tx_call_cases[of "\<lambda>c. Inr ((), c\<lparr>db_checkpoints := _ c\<rparr>)" s c]
  unfolding put_checkpoint_def cp_row_of_def by fastforce

lemma cp_run_id_sign_head [simp]:
  "cp_run_id (sign_head sha S kr i seq h ts) = i" "cp_seq (sign_head sha S kr i seq h ts) = seq"
  "cp_head_hash (sign_head sha S kr i seq h ts) = h" "cp_ts (sign_head sha S kr i seq h ts) = ts"
  by (simp_all add: sign_head_def)

lemma record_of_checkpoints:
  "record_of J ns i (c\<lparr>db_checkpoints := rows\<rparr>) = record_of J ns i c"
  by (simp add: record_of_def rows_of_def)

lemma server_ok_put:
  assumes "server_ok J sha S kr B n c" and "commits_to (record_of J ns i c) seq h"
  shows "server_ok J sha S kr B n (snd (put_checkpoint ns (sign_head sha S kr i seq h ts) s c))"
proof -
  let ?cp = "sign_head sha S kr i seq h ts"
  note inv = server_okD[OF assms(1)]
  have "server_ok J sha S kr B n (c\<lparr>db_checkpoints := rows\<rparr>)"
    if "set rows \<subseteq> insert (cp_row_of ns ?cp) (set (db_checkpoints c))"
      "store_inv J sha (c\<lparr>db_checkpoints := rows\<rparr>)" for rows
  proof -
    have "cps_ok J sha S kr (c\<lparr>db_checkpoints := rows\<rparr>)"
      unfolding cps_ok_def
    proof
      fix r assume "r \<in> set (db_checkpoints (c\<lparr>db_checkpoints := rows\<rparr>))"
      then have "r = cp_row_of ns ?cp \<or> r \<in> set (db_checkpoints c)" using that(1) by auto
      then show "\<exists>ns i seq h ts. r = cp_row_of ns (sign_head sha S kr i seq h ts) \<and>
          commits_to (record_of J ns i (c\<lparr>db_checkpoints := rows\<rparr>)) seq h"
        using inv(6) assms(2) unfolding cps_ok_def record_of_checkpoints by blast
    qed
    with that(2) assms(1) show ?thesis
      by (simp add: server_ok_def db_good_def shapes_ok_def extends_def record_of_checkpoints)
  qed
  note keep = this
  show ?thesis
  proof (cases "\<exists>e. put_checkpoint ns ?cp s c = (Inl e, c)")
    case False
    define rows where "rows = filter (\<lambda>r. \<not> (cp_at ns i r \<and> cr_seq r = seq)) (db_checkpoints c)
      @ [cp_row_of ns ?cp]"
    have eq: "put_checkpoint ns ?cp s c = (Inr (), c\<lparr>db_checkpoints := rows\<rparr>)"
      using put_rows[of ns ?cp s c] False by (simp add: rows_def)
    have "store_inv J sha (c\<lparr>db_checkpoints := rows\<rparr>)"
      using store_inv_step[OF inv(3,4,2), of "OpPut ns ?cp" s] eq by simp
    moreover have "set rows \<subseteq> insert (cp_row_of ns ?cp) (set (db_checkpoints c))"
      by (auto simp: rows_def)
    ultimately show ?thesis by (simp add: eq keep)
  next
    case True
    with assms(1) show ?thesis by auto
  qed
qed

section \<open>The server on the SQLite store\<close>

definition sdb :: "db server \<Rightarrow> db" where
  "sdb sv = w_state (sv_world sv)"

definition snow :: "db server \<Rightarrow> sys" where
  "snow sv = w_now (sv_world sv)"

definition sqlite_backed :: "json_extract \<Rightarrow> db tlr_state \<Rightarrow> bool" where
  "sqlite_backed X st \<longleftrightarrow> tl_store st = sqlite_store (tl_json st) (tl_sha st) X"

text \<open>\<open>RawValue\<close> accepts JSON text only, so decoded metadata is JSON text.\<close>

definition codec_ok :: "db tlr_state \<Rightarrow> bool" where
  "codec_ok st \<longleftrightarrow> (\<forall>body ev. de_new_event (tl_codec st) body = Inr ev \<longrightarrow>
     meta_ok (tl_json st) (ne_metadata ev))"

definition sv_ok :: "db tlr_state \<Rightarrow> db \<Rightarrow> nat \<Rightarrow> db server \<Rightarrow> bool" where
  "sv_ok st B n sv \<longleftrightarrow> server_ok (tl_json st) (tl_sha st) (tl_sig st) (tl_keys st) B n (sdb sv)"

definition srecord :: "db tlr_state \<Rightarrow> string \<Rightarrow> string \<Rightarrow> db server \<Rightarrow> run_event list" where
  "srecord st ns i sv = record_of (tl_json st) ns i (sdb sv)"

lemma sdb_simps [simp]:
  "sdb (incr upd sv) = sdb sv" "sdb (spine c sv) = sdb sv" "sdb (sv\<lparr>sv_metrics := m\<rparr>) = sdb sv"
  "sdb (snd (on_store read_clock sv)) = sdb sv"
  by (simp_all add: sdb_def incr_def spine_def on_store_def read_clock_def)

lemma sdb_incrs [simp]: "sdb ((incr upd ^^ n) sv) = sdb sv"
  by (induction n) simp_all

lemma on_store_call:
  "fst (on_store (call op) sv) = fst (op (snow sv) (sdb sv))"
  "sdb (snd (on_store (call op) sv)) = snd (op (snow sv) (sdb sv))"
  by (simp_all add: on_store_def call_quiet sdb_def snow_def Let_def)

text \<open>Each store operation of a handler, through the server.\<close>

lemma sqlite_calls:
  assumes "sqlite_backed X st"
  shows "st_create_run (tl_store st) ns new = call (create_run (tl_json st) (tl_sha st) ns new)"
    "st_get_run (tl_store st) ns i = call (get_run (tl_json st) ns i)"
    "st_list_runs (tl_store st) ns q = call (list_runs (tl_json st) X ns q)"
    "st_append (tl_store st) ns i ev key = call (store_append (tl_sha st) ns i ev key)"
    "st_events (tl_store st) ns i start limit = call (store_events (tl_json st) ns i start limit)"
    "st_seal (tl_store st) ns i = call (seal (tl_json st) (tl_sha st) ns i)"
    "st_redact (tl_store st) ns i seq fs a = call (redact (tl_json st) (tl_sha st) ns i seq fs a)"
    "st_latest_checkpoint (tl_store st) ns i = call (latest_checkpoint ns i)"
    "st_put_checkpoint (tl_store st) ns cp = call (put_checkpoint ns cp)"
  using assms by (simp_all add: sqlite_backed_def sqlite_store_def)

lemma list_runs_keeps [simp]: "snd (list_runs J X ns q s c) = c"
  by (simp add: list_runs_def with_conn_def query_def Let_def split: fault.split sum.split)

lemma reads_keep_sdb:
  assumes "sqlite_backed X st"
  shows "sdb (snd (on_store (st_get_run (tl_store st) ns i) sv)) = sdb sv"
    "sdb (snd (on_store (st_list_runs (tl_store st) ns q) sv)) = sdb sv"
    "sdb (snd (on_store (st_events (tl_store st) ns i start limit) sv)) = sdb sv"
    "sdb (snd (on_store (st_latest_checkpoint (tl_store st) ns i) sv)) = sdb sv"
  by (simp_all add: sqlite_calls[OF assms] on_store_call)

lemma sdb_publish_head [simp]:
  assumes "sqlite_backed X st"
  shows "sdb (publish_head st ns i seq sv) = sdb sv"
  using reads_keep_sdb(3)[OF assms, of ns i seq 1 sv]
  by (auto simp: publish_head_def split: prod.split sum.split list.split option.split)

end
