(* ===== verification/Server.thy ===== *)
theory Server
  imports Server_Inv
begin

text \<open>
  The handlers keep the invariant of the server, for any request, clock and faults; then every
  sequence of requests does. \<open>http_request\<close> and \<open>serve\<close> name the routes of the router.
\<close>

section \<open>Results point into the record\<close>

lemma commits_to_nth:
  assumes "linked sha evs" and "length evs < 2 ^ 63" and "k < length evs"
  shows "commits_to evs (ev_seq (evs ! k)) (ev_hash (evs ! k))"
  using assms linked_seq_nth[OF assms(1,3)]
  by (simp add: commits_to_def unat_of_nat_u64)

lemma length_record_ok: "server_ok J sha S kr B n c \<Longrightarrow> length (record_of J ns i c) < 2 ^ 63"
  using length_record_of[of J ns i c] server_okD(4)[of J sha S kr B n c] by (simp add: small_def)

lemma linked_ok: "server_ok J sha S kr B n c \<Longrightarrow> linked sha (record_of J ns i c)"
  by (intro linked_of_inv store_invD server_okD(3))

lemma commits_to_member:
  assumes "server_ok J sha S kr B n c" and "e \<in> set (record_of J ns i c)"
  shows "commits_to (record_of J ns i c) (ev_seq e) (ev_hash e)"
  using commits_to_nth[OF linked_ok[OF assms(1)] length_record_ok[OF assms(1)]] assms(2)
  by (auto simp: in_set_conv_nth)

lemma prior_commits:
  assumes "server_ok J sha S kr B n c" and "prior_of ns i idem c = Some (Inr res)"
  shows "commits_to (record_of J ns i c) (ar_seq res) (ar_hash res)"
proof -
  obtain key r where r: "find (idem_at ns i key) (db_idem c) = Some r"
    "unblob (ir_hash r) = Inr (ar_hash res)" "ir_seq r = ar_seq res"
    using assms(2) by (auto simp: prior_of_def split: option.splits result_splits)
  from find_SomeD[OF r(1)] have "r \<in> set (db_idem c)" "ir_ns r = ns" "ir_run_id r = i"
    by (auto simp: idem_at_def)
  then obtain e where e: "e \<in> set (record_of J ns i c)" "idem_points r e"
    using store_invD(3)[OF server_okD(3)[OF assms(1)]] by (auto simp: idem_inv_def list_ex_iff)
  then have "ev_seq e = ar_seq res" and "ev_hash e = ar_hash res"
    using r(2,3) by (simp_all add: idem_points_def)
  with commits_to_member[OF assms(1) e(1)] show ?thesis by simp
qed

lemma append_commits:
  assumes "server_ok J sha S kr B (Suc n) c" and "meta_ok J (ne_metadata ev)" and "inner_kind (ne_kind ev)"
    and "store_append sha ns i ev key s c = (Inr res, d)"
  shows "commits_to (record_of J ns i d) (ar_seq res) (ar_hash res)"
proof -
  note inv = server_okD[OF assms(1)]
  have ok: "server_ok J sha S kr B n d"
    using server_ok_step[OF assms(1), of "OpAppend ns i ev key" s] assms(2-4) by (simp add: op_inner_def)
  from append_cases[OF inv(3,4), of ns i ev key s] assms(4)
  consider (prior) "prior_of ns i key c = Some (Inr res)" "d = c"
    | (new) "res = result_of (appended J sha s ns i ev c)"
      "d = remember_result ns i key res (add_event ns i (appended J sha s ns i ev c) c)"
    by (auto simp: Let_def)
  then show ?thesis
  proof cases
    case prior
    with prior_commits[OF assms(1)] show ?thesis by simp
  next
    case new
    then have "appended J sha s ns i ev c \<in> set (record_of J ns i d)"
      using assms(2) by (simp add: appended_def)
    with new(1) commits_to_member[OF ok] show ?thesis by auto
  qed
qed

lemma seal_commits:
  assumes "server_ok J sha S kr B (Suc n) c" and "seal J sha ns i s c = (Inr res, d)"
  shows "commits_to (record_of J ns i d) (ar_seq res) (ar_hash res)"
    and "run_sealed ns i d" and "Suc (unat (ar_seq res)) = length (record_of J ns i d)"
proof -
  let ?e = "seal_event J sha s ns i c"
  note inv = server_okD[OF assms(1)]
  have ok: "server_ok J sha S kr B n d"
    using server_ok_step[OF assms(1), of "OpSeal ns i" s] assms(2) by (simp add: op_inner_def)
  from seal_cases[OF inv(3,4), of ns i s] assms(2) obtain r
    where r: "run_of ns i c = Some r" and res: "res = result_of ?e"
      and d: "d = end_run ns i (now_ms s) (add_event ns i ?e c)"
    by (auto simp: Let_def)
  have rec: "record_of J ns i d = record_of J ns i c @ [?e]"
    using inv(2) by (simp add: d seal_event_def del: json_norm.simps)
  with commits_to_member[OF ok, of ?e ns i] res
  show "commits_to (record_of J ns i d) (ar_seq res) (ar_hash res)" by simp
  show "run_sealed ns i d"
    using r by (simp add: run_sealed_def d run_of_end_run run_of_add_event)
  have "ev_seq ?e = of_nat (length (record_of J ns i c))"
    by (simp add: seal_event_def del: json_norm.simps)
  then show "Suc (unat (ar_seq res)) = length (record_of J ns i d)"
    using rec length_record_ok[OF assms(1), of ns i] by (simp add: res unat_of_nat_u64)
qed

lemma get_run_commits:
  assumes "server_ok J sha S kr B n c" and "get_run J ns i s c = (Inr env, d)"
  shows "commits_to (record_of J ns i c) (env_head_seq env) (env_head_hash env)"
    and "d = c" and "Suc (unat (env_head_seq env)) = length (record_of J ns i c)"
proof -
  note inv = server_okD[OF assms(1)]
  let ?evs = "record_of J ns i c"
  obtain r where r: "run_of ns i c = Some r" and env: "row_to_envelope J r = Inr env" and d: "d = c"
    using query_call_cases[of "\<lambda>c. case find (run_at ns i) (db_runs c) of
        None \<Rightarrow> Inl NotFound | Some r \<Rightarrow> row_to_envelope J r" s c] assms(2)
    unfolding get_run_def run_of_def by (cases "find (run_at ns i) (db_runs c)") auto
  then have ne: "?evs \<noteq> []" and head: "head_agrees r ?evs" and lk: "linked sha ?evs"
    using run_inv_SomeD[OF store_invD(1)[OF inv(3)] r] by auto
  have e: "env_head_seq env = ev_seq (last ?evs)" "env_head_hash env = ev_hash (last ?evs)"
    using env head by (auto simp: row_to_envelope_def head_agrees_def split: result_splits)
  show "commits_to ?evs (env_head_seq env) (env_head_hash env)"
    unfolding e by (rule commits_to_member[OF assms(1)]) (use ne in simp)
  show "d = c" by (rule d)
  have "ev_seq (last ?evs) = of_nat (length ?evs - 1)"
    using linked_seq_nth[OF lk, of "length ?evs - 1"] ne by (simp add: last_conv_nth)
  then show "Suc (unat (env_head_seq env)) = length ?evs"
    unfolding e(1) using length_record_ok[OF assms(1), of ns i] ne
    by (simp add: unat_of_nat_u64)
qed

section \<open>Plumbing keeps the invariant\<close>

definition sqlite_server :: "json_extract \<Rightarrow> db tlr_state \<Rightarrow> bool" where
  "sqlite_server X st \<longleftrightarrow> sqlite_backed X st \<and> codec_ok st"

lemma sqlite_serverD: "sqlite_server X st \<Longrightarrow> sqlite_backed X st" "sqlite_server X st \<Longrightarrow> codec_ok st"
  by (simp_all add: sqlite_server_def)

lemma sv_ok_cong: "sdb sv' = sdb sv \<Longrightarrow> sv_ok st B n sv' \<longleftrightarrow> sv_ok st B n sv"
  by (simp add: sv_ok_def)

lemma sv_ok_simps [simp]:
  "sv_ok st B n (incr upd sv) = sv_ok st B n sv" "sv_ok st B n (spine c sv) = sv_ok st B n sv"
  "sv_ok st B n (sv\<lparr>sv_metrics := m\<rparr>) = sv_ok st B n sv"
  by (simp_all add: sv_ok_def)

lemma sv_ok_less: "sv_ok st B m sv \<Longrightarrow> n \<le> m \<Longrightarrow> sv_ok st B n sv"
  unfolding sv_ok_def by (rule server_ok_less)

lemma sv_ok_Suc: "sv_ok st B (Suc n) sv \<Longrightarrow> sv_ok st B n sv"
  by (erule sv_ok_less) simp

lemma on_store_op:
  assumes "on_store (call op) sv = (r, sv')"
  shows "op (snow sv) (sdb sv) = (r, sdb sv')"
  using on_store_call[of op sv] assms by (simp add: prod_eq_iff)

lemma call_append:
  assumes "sqlite_backed X st" and "sv_ok st B (Suc n) sv"
    and "meta_ok (tl_json st) (ne_metadata ev)" and "inner_kind (ne_kind ev)"
    and "on_store (st_append (tl_store st) ns i ev key) sv = (r, sv')"
  shows "sv_ok st B n sv'"
    and "r = Inr res \<Longrightarrow> commits_to (srecord st ns i sv') (ar_seq res) (ar_hash res)"
proof -
  have eq: "store_append (tl_sha st) ns i ev key (snow sv) (sdb sv) = (r, sdb sv')"
    using on_store_op[of "store_append (tl_sha st) ns i ev key" sv] assms(5) by (simp add: sqlite_calls[OF assms(1)])
  note ok = assms(2)[unfolded sv_ok_def]
  from server_ok_step[OF ok, of "OpAppend ns i ev key" "snow sv"] assms(3,4) eq
  show "sv_ok st B n sv'" by (simp add: sv_ok_def op_inner_def)
  show "commits_to (srecord st ns i sv') (ar_seq res) (ar_hash res)" if "r = Inr res"
    using append_commits[OF ok assms(3,4)] eq that by (simp add: srecord_def)
qed

lemma call_create:
  assumes "sqlite_backed X st" and "sv_ok st B (Suc n) sv"
    and "on_store (st_create_run (tl_store st) ns new) sv = (r, sv')"
  shows "sv_ok st B n sv'"
  using server_ok_step[OF assms(2)[unfolded sv_ok_def], of "OpCreate ns new" "snow sv"]
    on_store_op[OF assms(3)[unfolded sqlite_calls[OF assms(1)]]]
  by (simp add: sv_ok_def op_inner_def)

lemma call_seal:
  assumes "sqlite_backed X st" and "sv_ok st B (Suc n) sv"
    and "on_store (st_seal (tl_store st) ns i) sv = (r, sv')"
  shows "sv_ok st B n sv'"
    and "r = Inr res \<Longrightarrow> commits_to (srecord st ns i sv') (ar_seq res) (ar_hash res) \<and>
      run_sealed ns i (sdb sv') \<and> Suc (unat (ar_seq res)) = length (srecord st ns i sv')"
  using server_ok_step[OF assms(2)[unfolded sv_ok_def], of "OpSeal ns i" "snow sv"]
    on_store_op[OF assms(3)[unfolded sqlite_calls[OF assms(1)]]]
    seal_commits[OF assms(2)[unfolded sv_ok_def]]
  by (simp_all add: sv_ok_def op_inner_def srecord_def)

lemma call_redact:
  assumes "sqlite_backed X st" and "sv_ok st B (Suc n) sv"
    and "on_store (st_redact (tl_store st) ns i seq fs a) sv = (r, sv')"
  shows "sv_ok st B n sv'"
  using server_ok_step[OF assms(2)[unfolded sv_ok_def], of "OpRedact ns i seq fs a" "snow sv"]
    on_store_op[OF assms(3)[unfolded sqlite_calls[OF assms(1)]]]
  by (simp add: sv_ok_def op_inner_def)

lemma call_read:
  assumes "sqlite_backed X st"
  shows "on_store (st_get_run (tl_store st) ns i) sv = (r1, sv1) \<Longrightarrow> sdb sv1 = sdb sv"
    "on_store (st_list_runs (tl_store st) ns q) sv = (r2, sv2) \<Longrightarrow> sdb sv2 = sdb sv"
    "on_store (st_events (tl_store st) ns i start limit) sv = (r3, sv3) \<Longrightarrow> sdb sv3 = sdb sv"
    "on_store (st_latest_checkpoint (tl_store st) ns i) sv = (r4, sv4) \<Longrightarrow> sdb sv4 = sdb sv"
  using reads_keep_sdb(1,4)[OF assms, of ns i sv] reads_keep_sdb(2)[OF assms, of ns q sv]
    reads_keep_sdb(3)[OF assms, of ns i start limit sv] by auto

lemma clock_read: "on_store read_clock sv = (t, sv') \<Longrightarrow> sdb sv' = sdb sv"
  using sdb_simps(4)[of sv] by auto

lemma call_get_run:
  assumes "sqlite_backed X st" and "sv_ok st B n sv"
    and "on_store (st_get_run (tl_store st) ns i) sv = (Inr env, sv')"
  shows "commits_to (srecord st ns i sv') (env_head_seq env) (env_head_hash env)"
    and "Suc (unat (env_head_seq env)) = length (srecord st ns i sv')"
  using get_run_commits[OF assms(2)[unfolded sv_ok_def]]
    on_store_op[OF assms(3)[unfolded sqlite_calls[OF assms(1)]]] call_read(1)[OF assms(1,3)]
  by (simp_all add: srecord_def)

lemma write_checkpoint_sdb:
  assumes "sqlite_backed X st"
  shows "\<exists>ts s. sdb (snd (write_checkpoint st ns i seq h sv))
        = snd (put_checkpoint ns (sign_head (tl_sha st) (tl_sig st) (tl_keys st) i seq h ts) s (sdb sv)) \<and>
      fst (write_checkpoint st ns i seq h sv)
        = fst (put_checkpoint ns (sign_head (tl_sha st) (tl_sig st) (tl_keys st) i seq h ts) s (sdb sv))"
proof -
  obtain now sv1 where clock: "on_store read_clock sv = (now, sv1)" by force
  let ?cp = "sign_head (tl_sha st) (tl_sig st) (tl_keys st) i seq h now"
  obtain r sv2 where put: "on_store (st_put_checkpoint (tl_store st) ns ?cp) sv1 = (r, sv2)" by force
  have "put_checkpoint ns ?cp (snow sv1) (sdb sv) = (r, sdb sv2)"
    using on_store_op[OF put[unfolded sqlite_calls[OF assms]]] clock_read[OF clock] by simp
  then show ?thesis
    by (intro exI[of _ now] exI[of _ "snow sv1"])
      (simp add: write_checkpoint_def clock put Let_def split: sum.split)
qed

lemma write_checkpoint_ok:
  assumes "sqlite_backed X st" and "sv_ok st B n sv" and "commits_to (srecord st ns i sv) seq h"
  shows "sv_ok st B n (snd (write_checkpoint st ns i seq h sv))"
proof -
  obtain ts s where "sdb (snd (write_checkpoint st ns i seq h sv))
      = snd (put_checkpoint ns (sign_head (tl_sha st) (tl_sig st) (tl_keys st) i seq h ts) s (sdb sv))"
    using write_checkpoint_sdb[OF assms(1)] by blast
  then show ?thesis
    using server_ok_put[OF assms(2)[unfolded sv_ok_def] assms(3)[unfolded srecord_def], of ts s]
    by (simp add: sv_ok_def)
qed

lemma sv_ok_publish [simp]:
  "sqlite_backed X st \<Longrightarrow> sv_ok st B n (publish_head st ns i seq sv) = sv_ok st B n sv"
  by (simp add: sv_ok_def)

lemma srecord_simps [simp]:
  "srecord st ns i (incr upd sv) = srecord st ns i sv" "srecord st ns i (spine c sv) = srecord st ns i sv"
  "sqlite_backed X st \<Longrightarrow> srecord st ns i (publish_head st ns' i' seq sv) = srecord st ns i sv"
  by (simp_all add: srecord_def)

lemma maybe_checkpoint_ok:
  assumes "sqlite_backed X st" and "sv_ok st B n sv" and "commits_to (srecord st ns i sv) seq h"
  shows "sv_ok st B n (maybe_checkpoint st ns i seq h sv)"
  using write_checkpoint_ok[OF assms] assms(2) by (simp add: maybe_checkpoint_def)

section \<open>Gate operations keep the invariant\<close>

definition w_ok :: "db tlr_state \<Rightarrow> db \<Rightarrow> nat \<Rightarrow> db world \<Rightarrow> bool" where
  "w_ok st B n w \<longleftrightarrow> server_ok (tl_json st) (tl_sha st) (tl_sig st) (tl_keys st) B n (w_state w)"

lemma w_ok_less: "w_ok st B m w \<Longrightarrow> n \<le> m \<Longrightarrow> w_ok st B n w"
  unfolding w_ok_def by (rule server_ok_less)

lemma sv_ok_on_store: "sv_ok st B n (snd (on_store f sv)) = w_ok st B n (snd (f (sv_world sv)))"
  by (simp add: sv_ok_def w_ok_def sdb_def on_store_def case_prod_unfold Let_def)

lemma sv_ok_world: "sv_ok st B n sv = w_ok st B n (sv_world sv)"
  by (simp add: sv_ok_def w_ok_def sdb_def)

lemma json_plain_gate_metas:
  "json_plain (request_meta a x)" "json_plain (resolve_meta t d r p b n)"
  by (auto simp: request_meta_def resolve_meta_def json_of_opt_def split: option.split)

lemma append_seq_ok:
  assumes "sqlite_backed X st" and "w_ok st B (Suc n) w" and "json_plain m"
  shows "w_ok st B n (snd (append_seq (tl_store st) ns i (decision_event (tl_json st) name m) w))"
proof -
  let ?ev = "gate_new_event (tl_json st) name m"
  have J: "json_ok (tl_json st)" using assms(2) by (auto simp: w_ok_def dest: server_okD(2))
  then have ev: "decision_event (tl_json st) name m = Inr ?ev" "meta_ok (tl_json st) (ne_metadata ?ev)"
    "inner_kind (ne_kind ?ev)"
    using assms(3) by (simp_all add: decision_event_eq gate_new_event_def inner_kind_def)
  have "w_ok st B n (snd (st_append (tl_store st) ns i ?ev None w))"
    using server_ok_step[OF assms(2)[unfolded w_ok_def], of "OpAppend ns i ?ev None" "w_now w"] ev(2,3)
    by (simp add: sqlite_calls[OF assms(1)] call_quiet w_ok_def op_inner_def)
  then show ?thesis
    by (auto simp: append_seq_def ev(1) split: prod.split sum.split)
qed

lemma events_state:
  "sqlite_backed X st \<Longrightarrow> w_state (snd (st_events (tl_store st) ns i a l w)) = w_state w"
  by (simp add: sqlite_calls call_quiet)

lemma request_ok:
  "sqlite_backed X st \<Longrightarrow> w_ok st B (Suc n) w \<Longrightarrow>
   w_ok st B n (snd (request (tl_json st) (tl_store st) ns i action expires_at w))"
  unfolding request_def by (rule append_seq_ok[OF _ _ json_plain_gate_metas(1)])

lemma resolve_ok:
  assumes "sqlite_backed X st" and "w_ok st B (Suc n) w"
  shows "w_ok st B n (snd (resolve (tl_json st) (tl_store st) ns i t d reviewer who attested note w))"
proof -
  obtain r w1 where ev: "st_events (tl_store st) ns i 0 5000 w = (r, w1)" by force
  then have "w_ok st B (Suc n) w1"
    using events_state[OF assms(1), of ns i 0 5000 w] assms(2) by (simp add: w_ok_def)
  then show ?thesis
    using append_seq_ok[OF assms(1) _ json_plain_gate_metas(2)] w_ok_less[of st B "Suc n" w1 n]
    by (simp add: resolve_def ev split: sum.split option.split)
qed

lemma expire_loop_ok:
  "sqlite_backed X st \<Longrightarrow> w_ok st B (n + length seqs) w \<Longrightarrow>
   w_ok st B n (snd (expire_loop (tl_json st) (tl_store st) ns i seqs k w))"
proof (induction seqs arbitrary: k w)
  case (Cons t seqs)
  obtain r w1 where step: "resolve (tl_json st) (tl_store st) ns i t Expired None None False
    (Some ''no decision before expiry'') w = (r, w1)" by force
  have "w_ok st B (n + length seqs) w1"
  proof -
    have "w_ok st B (Suc (n + length seqs)) w" using Cons.prems(2) by simp
    from resolve_ok[OF Cons.prems(1) this, of ns i t Expired None None False
        "Some ''no decision before expiry''"] step
    show ?thesis by simp
  qed
  then show ?case
    using Cons.IH[OF Cons.prems(1)] w_ok_less[of st B "n + length seqs" w1 n]
    by (simp add: step split: sum.split)
qed simp

lemma length_project: "length (project J evs) \<le> length evs"
  using arg_cong[OF project_seqs, of length J evs] by (simp add: le_trans[OF length_filter_le])

lemma expire_lapsed_in_ok:
  assumes "sqlite_backed X st" and "w_ok st B (n + length events) w"
  shows "w_ok st B n (snd (expire_lapsed_in (tl_json st) (tl_store st) ns i events now w))"
proof -
  have "length (lapsed_gates (tl_json st) events now) \<le> length events"
    unfolding lapsed_gates_def using length_project[of "tl_json st" events]
    by (simp add: le_trans[OF length_filter_le])
  then have "w_ok st B (n + length (lapsed_gates (tl_json st) events now)) w"
    using assms(2) by (intro w_ok_less[OF assms(2)]) simp
  with expire_loop_ok[OF assms(1)] w_ok_less[OF assms(2), of n] show ?thesis
    by (simp add: expire_lapsed_in_def Let_def)
qed

lemma events_short:
  assumes "sqlite_backed X st" and "st_events (tl_store st) ns i 0 5000 w = (Inr evs, w')"
  shows "length evs \<le> 5000"
proof -
  have "store_events (tl_json st) ns i 0 5000 (w_now w) (w_state w) = (Inr evs, w_state w)"
    using assms(2) by (auto simp: sqlite_calls[OF assms(1)] call_quiet prod_eq_iff)
  moreover have "with_conn (query f s) s c = (Inr evs, d) \<Longrightarrow> f c = Inr evs"
    for f :: "db \<Rightarrow> run_event list store_result" and s c d
    using query_call_cases[of f s c] by auto
  ultimately show ?thesis
    unfolding store_events_def by (fastforce simp: clamp_def Let_def)
qed

lemma expire_then_read_ok:
  assumes "sqlite_backed X st" and "sv_ok st B (n + 5000) sv"
  shows "sv_ok st B n (snd (expire_then_read st ns i sv))"
proof -
  obtain r sv1 where ev: "on_store (st_events (tl_store st) ns i 0 5000) sv = (r, sv1)" by force
  have ok1: "sv_ok st B (n + 5000) sv1"
    using assms(2) call_read(3)[OF assms(1) ev] by (simp add: sv_ok_def)
  show ?thesis
  proof (cases r)
    case (Inl e)
    with ok1 ev show ?thesis by (simp add: expire_then_read_def sv_ok_less[OF ok1])
  next
    case (Inr events)
    obtain now sv2 where clock: "on_store read_clock sv1 = (now, sv2)" by force
    obtain l sv3 where ex: "on_store (expire_lapsed_in (tl_json st) (tl_store st) ns i events now) sv2 = (l, sv3)"
      by force
    obtain r4 sv4 where ev4: "on_store (st_events (tl_store st) ns i 0 5000)
        ((incr m_gates_expired_update ^^ (projr l)) sv3) = (r4, sv4)" by force
    have "length events \<le> 5000"
      using ev Inr events_short[OF assms(1), of ns i "sv_world sv" events]
      by (auto simp: on_store_def split: prod.splits)
    moreover have "sv_ok st B (n + 5000) sv2"
      using ok1 clock_read[OF clock] by (simp add: sv_ok_def)
    ultimately have "sv_ok st B n sv3"
      using expire_lapsed_in_ok[OF assms(1), of B n events "sv_world sv2" ns i now] ex
        sv_ok_less[of st B "n + 5000" sv2 "n + length events"]
        sv_ok_on_store[of st B n "expire_lapsed_in (tl_json st) (tl_store st) ns i events now" sv2]
      by (simp add: sv_ok_world)
    then have "sv_ok st B n sv3" "sv_ok st B n sv4"
      using call_read(3)[OF assms(1) ev4] by (simp_all add: sv_ok_def)
    then show ?thesis
      using ev4 by (auto simp: expire_then_read_def ev Inr clock ex split: sum.split)
  qed
qed

end
