(* ===== verification/Handlers.thy ===== *)
theory Handlers
  imports Server
begin

text \<open>
  Every handler of \<open>Routes\<close> keeps the invariant of the server, and so does every sequence of
  requests; \<open>http_request\<close> and \<open>serve\<close> name the routes of the router. A request appends at most
  5000 events, the number of gates it can find lapsed.
\<close>

section \<open>Writes of one event\<close>

lemma create_run_ok:
  assumes "sqlite_server X st" and "sv_ok st B (Suc n) sv"
  shows "sv_ok st B n (snd (h_create_run st h body sv))"
proof (cases "authorize st h True")
  case (Inr ns)
  note B = sqlite_serverD(1)[OF assms(1)]
  show ?thesis
  proof (cases "de_new_run (tl_codec st) body")
    case new: (Inr new)
    obtain r sv1 where "on_store (st_create_run (tl_store st) ns new) sv = (r, sv1)" by force
    with Inr new call_create[OF B assms(2)] sv_ok_Suc[OF assms(2)] show ?thesis
      by (auto simp: h_create_run_def Let_def sv_ok_publish[OF B] split: sum.split)
  qed (use Inr sv_ok_Suc[OF assms(2)] in \<open>simp add: h_create_run_def\<close>)
qed (use sv_ok_Suc[OF assms(2)] in \<open>simp add: h_create_run_def\<close>)

lemma append_event_ok:
  assumes "sqlite_server X st" and "sv_ok st B (Suc n) sv"
  shows "sv_ok st B n (snd (h_append_event st i h body sv))"
proof (cases "\<exists>ns ev. authorize st h True = Inr ns \<and> valid_id i \<and>
    de_new_event (tl_codec st) body = Inr ev \<and> \<not> structural (ne_kind ev)")
  case True
  note B = sqlite_serverD(1)[OF assms(1)]
  obtain ns ev where ev: "authorize st h True = Inr ns" "valid_id i"
    "de_new_event (tl_codec st) body = Inr ev" "\<not> structural (ne_kind ev)" using True by blast
  have ok: "meta_ok (tl_json st) (ne_metadata ev)" "inner_kind (ne_kind ev)"
    using sqlite_serverD(2)[OF assms(1)] ev(3,4) by (auto simp: codec_ok_def structural_def inner_kind_def)
  obtain r sv1 where call: "on_store (st_append (tl_store st) ns i ev (h_idempotency_key h)) sv = (r, sv1)"
    by force
  note app = call_append[OF B assms(2) ok call]
  show ?thesis
  proof (cases r)
    case (Inr res)
    have "sv_ok st B n (maybe_checkpoint st ns i (ar_seq res) (ar_hash res)
        (publish_head st ns i (ar_seq res) (incr m_events_appended_update sv1)))"
      using maybe_checkpoint_ok[OF B] app(1) app(2)[OF Inr] by (simp add: sv_ok_publish[OF B] srecord_simps(3)[OF B])
    with Inr ev call show ?thesis by (simp add: h_append_event_def Let_def)
  qed (use ev call app(1) in \<open>simp add: h_append_event_def\<close>)
qed (use sv_ok_Suc[OF assms(2)] in \<open>auto simp: h_append_event_def split: sum.split\<close>)

lemma redact_ok:
  assumes "sqlite_server X st" and "sv_ok st B (Suc n) sv"
  shows "sv_ok st B n (snd (h_redact st i h body sv))"
proof (cases "\<exists>ns req. authorize st h True = Inr ns \<and> valid_id i \<and>
    de_redact (tl_codec st) body = Some req \<and> \<not> blank (rb_authority req)")
  case True
  note B = sqlite_serverD(1)[OF assms(1)]
  obtain ns req where req: "authorize st h True = Inr ns" "valid_id i"
    "de_redact (tl_codec st) body = Some req" "\<not> blank (rb_authority req)" using True by blast
  obtain r sv1 where "on_store (st_redact (tl_store st) ns i (rb_target_seq req) (rb_fields req)
    (rb_authority req)) sv = (r, sv1)" by force
  with req call_redact[OF B assms(2)] show ?thesis
    by (auto simp: h_redact_def Let_def sv_ok_publish[OF B] split: sum.split)
qed (use sv_ok_Suc[OF assms(2)] in \<open>auto simp: h_redact_def split: sum.split option.split\<close>)

section \<open>Completion\<close>

lemma complete_run_ok:
  assumes "sqlite_server X st" and "sv_ok st B (Suc n) sv"
  shows "sv_ok st B n (snd (h_complete_run st i h sv))"
proof (cases "\<exists>ns. authorize st h True = Inr ns \<and> valid_id i")
  case True
  note B = sqlite_serverD(1)[OF assms(1)]
  obtain ns where ns: "authorize st h True = Inr ns" "valid_id i" using True by blast
  obtain r sv1 where call: "on_store (st_seal (tl_store st) ns i) sv = (r, sv1)" by force
  note ok1 = call_seal(1)[OF B assms(2) call]
  show ?thesis
  proof (cases r)
    case (Inr res)
    let ?sv = "publish_head st ns i (ar_seq res) (incr m_runs_sealed_update sv1)"
    have "sv_ok st B n (snd (write_checkpoint st ns i (ar_seq res) (ar_hash res) ?sv))"
      using write_checkpoint_ok[OF B, of B n ?sv ns i] ok1 call_seal(2)[OF B assms(2) call Inr] B by simp
    then show ?thesis
      using ns call Inr
      by (auto simp: h_complete_run_def Let_def case_prod_unfold split: sum.split)
  next
    case (Inl e)
    obtain r2 sv2 where latest: "on_store (st_latest_checkpoint (tl_store st) ns i) sv1 = (r2, sv2)" by force
    obtain r3 sv3 where get: "on_store (st_get_run (tl_store st) ns i) sv2 = (r3, sv3)" by force
    have ok2: "sv_ok st B n sv2" using ok1 call_read(4)[OF B latest] by (simp add: sv_ok_def)
    have ok3: "sv_ok st B n sv3" using ok2 call_read(1)[OF B get] by (simp add: sv_ok_def)
    have "sv_ok st B n (snd (write_checkpoint st ns i (env_head_seq env) (env_head_hash env) sv3))"
      if "r3 = Inr env" for env
      using write_checkpoint_ok[OF B ok3] call_get_run(1)[OF B ok2] get that by simp
    then show ?thesis
      using ns call Inl latest get ok1 ok2 ok3
      by (auto simp: h_complete_run_def case_prod_unfold
          split: store_error.split sum.split option.split)
  qed
qed (use sv_ok_Suc[OF assms(2)] in \<open>auto simp: h_complete_run_def split: sum.split\<close>)

section \<open>Gates\<close>

lemma sdb_expiry_of: "sdb (snd (expiry_of req sv)) = sdb sv"
  using sdb_simps(4)[of sv]
  by (auto simp: expiry_of_def Let_def case_prod_unfold split: option.split)

lemma create_approval_ok:
  assumes "sqlite_server X st" and "sv_ok st B (Suc n) sv"
  shows "sv_ok st B n (snd (h_create_approval st i h body sv))"
proof (cases "\<exists>ns req. authorize st h True = Inr ns \<and> valid_id i \<and>
    de_create_approval (tl_codec st) body = Some req")
  case True
  note B = sqlite_serverD(1)[OF assms(1)]
  obtain ns req where req: "authorize st h True = Inr ns" "valid_id i"
    "de_create_approval (tl_codec st) body = Some req" using True by blast
  obtain t sv1 where exp: "expiry_of req sv = (t, sv1)" by force
  obtain r sv2 where call: "on_store (request (tl_json st) (tl_store st) ns i (ca_action req) t) sv1 = (r, sv2)"
    by force
  have "sv_ok st B (Suc n) sv1" using assms(2) sdb_expiry_of[of req sv] exp by (simp add: sv_ok_def)
  then have "sv_ok st B n sv2"
    using request_ok[OF B, of B n "sv_world sv1" ns i "ca_action req" t] call
      sv_ok_on_store[of st B n "request (tl_json st) (tl_store st) ns i (ca_action req) t" sv1]
    by (simp add: sv_ok_world)
  with req exp call show ?thesis
    by (auto simp: h_create_approval_def Let_def sv_ok_publish[OF B] split: sum.split)
qed (use sv_ok_Suc[OF assms(2)] in \<open>auto simp: h_create_approval_def split: sum.split option.split\<close>)

lemma list_approvals_ok:
  assumes "sqlite_server X st" and "sv_ok st B (n + 5000) sv"
  shows "sv_ok st B n (snd (h_list_approvals st i h sv))"
  using expire_then_read_ok[OF sqlite_serverD(1)[OF assms(1)] assms(2)]
    sv_ok_less[OF assms(2), of n]
  by (auto simp: h_list_approvals_def case_prod_unfold split: sum.split)

lemma get_approval_ok:
  assumes "sqlite_server X st" and "sv_ok st B (n + 5000) sv"
  shows "sv_ok st B n (snd (h_get_approval st i seq h sv))"
  using expire_then_read_ok[OF sqlite_serverD(1)[OF assms(1)] assms(2)]
    sv_ok_less[OF assms(2), of n]
  by (auto simp: h_get_approval_def case_prod_unfold split: sum.split option.split)

lemma resolve_approval_ok:
  assumes "sqlite_server X st" and "sv_ok st B (Suc n) sv"
  shows "sv_ok st B n (snd (h_resolve_approval st i seq h body sv))"
proof (cases "\<exists>ns req d. authorize st h True = Inr ns \<and> valid_id i \<and>
    de_resolve_approval (tl_codec st) body = Some req \<and> decision_parse (ra_decision req) = Some d \<and>
    d \<noteq> Expired")
  case True
  note B = sqlite_serverD(1)[OF assms(1)]
  obtain ns req d where req: "authorize st h True = Inr ns" "valid_id i"
    "de_resolve_approval (tl_codec st) body = Some req" "decision_parse (ra_decision req) = Some d"
    "d \<noteq> Expired" using True by blast
  define op where "op = resolve (tl_json st) (tl_store st) ns i seq d (ra_reviewer req)
    (reviewer_principal_of st h) (reviewer_principal_of st h \<noteq> None) (ra_note req)"
  obtain r sv1 where call: "on_store op sv = (r, sv1)" by force
  have "sv_ok st B n (snd (on_store op sv))"
    unfolding op_def sv_ok_on_store
    by (rule resolve_ok[OF B assms(2)[unfolded sv_ok_world]])
  with call have "sv_ok st B n sv1" by simp
  with req call[unfolded op_def] show ?thesis
    by (auto simp: h_resolve_approval_def Let_def sv_ok_publish[OF B] split: sum.split decision.split)
qed (use sv_ok_Suc[OF assms(2)] in
    \<open>auto simp: h_resolve_approval_def Let_def split: sum.split option.split\<close>)

section \<open>Requests\<close>

datatype http_request =
  WellKnown
| CreateRun headers string
| ListRuns run_query headers
| GetRun string headers
| AppendEvent string headers string
| ListEvents string events_query headers
| CompleteRun string headers
| GetCheckpoint string headers
| CreateApproval string headers string
| ListApprovals string headers
| GetApproval string u64 headers
| ResolveApproval string u64 headers string
| Redact string headers string

fun serve :: "'s tlr_state \<Rightarrow> http_request \<Rightarrow> 's server \<Rightarrow> response \<times> 's server" where
  "serve st WellKnown sv = (respond 200 (JsonBody (well_known (tl_sig st) (tl_keys st))), sv)"
| "serve st (CreateRun h body) sv = h_create_run st h body sv"
| "serve st (ListRuns q h) sv = h_list_runs st q h sv"
| "serve st (GetRun i h) sv = h_get_run st i h sv"
| "serve st (AppendEvent i h body) sv = h_append_event st i h body sv"
| "serve st (ListEvents i q h) sv = h_list_events st i q h sv"
| "serve st (CompleteRun i h) sv = h_complete_run st i h sv"
| "serve st (GetCheckpoint i h) sv = h_get_checkpoint st i h sv"
| "serve st (CreateApproval i h body) sv = h_create_approval st i h body sv"
| "serve st (ListApprovals i h) sv = h_list_approvals st i h sv"
| "serve st (GetApproval i seq h) sv = h_get_approval st i seq h sv"
| "serve st (ResolveApproval i seq h body) sv = h_resolve_approval st i seq h body sv"
| "serve st (Redact i h body) sv = h_redact st i h body sv"

lemma reads_ok:
  assumes "sqlite_server X st"
  shows "sdb (snd (h_list_runs st q h sv)) = sdb sv" "sdb (snd (h_get_run st i h sv)) = sdb sv"
    "sdb (snd (h_list_events st i eq h sv)) = sdb sv" "sdb (snd (h_get_checkpoint st i h sv)) = sdb sv"
  using reads_keep_sdb[OF sqlite_serverD(1)[OF assms]]
  by (auto simp: h_list_runs_def h_get_run_def h_list_events_def h_get_checkpoint_def case_prod_unfold
      split: sum.split option.split)

lemma serve_ok:
  assumes "sqlite_server X st" and "sv_ok st B (n + 5000) sv"
  shows "sv_ok st B n (snd (serve st req sv))"
proof -
  have 1: "sv_ok st B (Suc n) sv" and 0: "sv_ok st B n sv" using sv_ok_less[OF assms(2)] by simp_all
  note writes = create_run_ok append_event_ok redact_ok complete_run_ok create_approval_ok resolve_approval_ok
  show ?thesis
    using 0 writes[OF assms(1) 1] list_approvals_ok[OF assms] get_approval_ok[OF assms]
      sv_ok_cong[OF reads_ok(1)[OF assms(1)]] sv_ok_cong[OF reads_ok(2)[OF assms(1)]]
      sv_ok_cong[OF reads_ok(3)[OF assms(1)]] sv_ok_cong[OF reads_ok(4)[OF assms(1)]]
    by (cases req) simp_all
qed

definition serve_all :: "'s tlr_state \<Rightarrow> http_request list \<Rightarrow> 's server \<Rightarrow> 's server" where
  "serve_all st reqs sv = foldl (\<lambda>sv req. snd (serve st req sv)) sv reqs"

lemma serve_all_ok:
  "sqlite_server X st \<Longrightarrow> sv_ok st B (n + 5000 * length reqs) sv \<Longrightarrow> sv_ok st B n (serve_all st reqs sv)"
proof (induction reqs arbitrary: sv)
  case (Cons req reqs)
  have "sv_ok st B (n + 5000 * length reqs) (snd (serve st req sv))"
    using Cons.prems(2) by (intro serve_ok[OF Cons.prems(1)]) (simp add: algebra_simps)
  with Cons show ?case by (simp add: serve_all_def)
qed (simp add: serve_all_def)

lemma serve_all_append: "serve_all st (reqs @ later) sv = serve_all st later (serve_all st reqs sv)"
  by (simp add: serve_all_def)

lemma sv_ok_rebase: "sv_ok st B n sv \<Longrightarrow> sv_ok st (sdb sv) n sv"
  by (simp add: sv_ok_def server_ok_def extends_refl)

section \<open>A small server\<close>

text \<open>One tenant known to the control plane, and bodies that decode by name.\<close>

definition demo_keys :: keyring where
  "demo_keys = from_seed prefix_sha demo_sig (replicate 32 7)"

definition demo_codec :: decoders where
  "demo_codec = \<lparr>de_new_run = (\<lambda>b. if b = ''run'' then Inr demo_new else Inl ''EOF''),
     de_new_event = (\<lambda>b. if b = ''note'' then Inr demo_note else Inl ''EOF''),
     de_create_approval = (\<lambda>b. Some \<lparr>ca_action = b, ca_expires_at = Some 5, ca_expires_in = None\<rparr>),
     de_resolve_approval = (\<lambda>b. Some \<lparr>ra_decision = b, ra_reviewer = Some ''ann'', ra_note = None\<rparr>),
     de_redact = (\<lambda>b. Some \<lparr>rb_target_seq = 1, rb_fields = [''content''], rb_authority = b\<rparr>),
     en_event = (\<lambda>e. Some (case ev_name e of None \<Rightarrow> [] | Some n \<Rightarrow> n))\<rparr>"

definition demo_state :: "db tlr_state" where
  "demo_state = \<lparr>tl_store = sqlite_store demo_json prefix_sha no_extract, tl_keys = demo_keys,
     tl_mode = \<lparr>am_publish_token = None, am_subscribe_token = None, am_cloud_verify = True\<rparr>,
     tl_tenants = (\<lambda>t. if t = ''key'' then Some ''acme'' else None), tl_checkpoint_every = 50,
     tl_json = demo_json, tl_sha = prefix_sha, tl_sig = demo_sig, tl_codec = demo_codec\<rparr>"

definition demo_headers :: headers where
  "demo_headers = \<lparr>h_authorization = Some ''Bearer key'', h_idempotency_key = None\<rparr>"

definition zero_metrics :: tlr_metrics where
  "zero_metrics = \<lparr>m_runs_created = 0, m_runs_sealed = 0, m_events_appended = 0,
     m_append_failures = 0, m_gates_opened = 0, m_gates_approved = 0, m_gates_rejected = 0,
     m_gates_expired = 0, m_redactions = 0, m_checkpoints_written = 0, m_last_checkpoint_ms = 0\<rparr>"

definition demo_server :: "db \<Rightarrow> db server" where
  "demo_server c = \<lparr>sv_world = demo_world c, sv_spine = [], sv_metrics = zero_metrics\<rparr>"

lemma demo_server_simps [simp]:
  "sdb (demo_server c) = c" "sv_world (demo_server c) = demo_world c"
  "snow (demo_server c) = calm 10"
  by (simp_all add: demo_server_def sdb_def snow_def demo_world_def w_now_def)

lemma demo_state_simps [simp]:
  "sqlite_server no_extract demo_state" "sqlite_backed no_extract demo_state"
  "tl_json demo_state = demo_json" "tl_sha demo_state = prefix_sha" "tl_sig demo_state = demo_sig"
  "tl_keys demo_state = demo_keys" "tl_codec demo_state = demo_codec"
  by (simp_all add: sqlite_server_def sqlite_backed_def codec_ok_def demo_state_def demo_codec_def
      demo_note_def)

lemma demo_authorize [simp]: "authorize demo_state demo_headers wr = Inr ''acme''"
  by (simp add: authorize_def access_for_def demo_state_def demo_headers_def bearer_def
      strip_bearer_def tenant_of_def resolve_read_def Let_def)

lemma server_ok_empty: "json_ok J \<Longrightarrow> n < 2 ^ 63 - 1 \<Longrightarrow> server_ok J sha S kr empty_db n empty_db"
  by (simp add: server_ok_def db_good_def store_inv_empty shapes_ok_def run_shape_def cps_ok_def extends_refl)
    (simp add: empty_db_def)

lemma demo_server_ok: "server_ok demo_json prefix_sha S kr empty_db 5000 demo_db"
proof -
  have "server_ok demo_json prefix_sha S kr empty_db 5001 demo_db1"
    unfolding demo_db1_step[symmetric]
    by (rule server_ok_step) (simp_all add: server_ok_empty op_inner_def)
  then show ?thesis
    unfolding demo_db_step
    by (intro server_ok_step) (simp_all add: op_inner_def demo_note_def inner_kind_def)
qed

end
