(* ===== verification/Tenants.thy ===== *)
theory Tenants
  imports Handlers
begin

text \<open>
  Tenants over the HTTP interface. A computation is local to a namespace when it answers from
  the rows of that namespace alone and leaves all others as they were; \<open>local_intros\<close> shows it
  of a handler along its text, and so of every request.
\<close>

named_theorems local_intros

definition restrict_w :: "string \<Rightarrow> db world \<Rightarrow> db world" where
  "restrict_w ns w = w\<lparr>w_state := restrict ns (w_state w)\<rparr>"

definition restrict_sv :: "string \<Rightarrow> db server \<Rightarrow> db server" where
  "restrict_sv ns sv = sv\<lparr>sv_world := restrict_w ns (sv_world sv)\<rparr>"

definition w_local :: "string \<Rightarrow> (db world \<Rightarrow> 'r \<times> db world) \<Rightarrow> bool" where
  "w_local ns f \<longleftrightarrow> (\<forall>w. f (restrict_w ns w) = (fst (f w), restrict_w ns (snd (f w))) \<and>
     (\<forall>ns'. ns' \<noteq> ns \<longrightarrow> restrict ns' (w_state (snd (f w))) = restrict ns' (w_state w)))"

definition s_local :: "string \<Rightarrow> (db server \<Rightarrow> 'r \<times> db server) \<Rightarrow> bool" where
  "s_local ns f \<longleftrightarrow> (\<forall>sv. f (restrict_sv ns sv) = (fst (f sv), restrict_sv ns (snd (f sv))) \<and>
     (\<forall>ns'. ns' \<noteq> ns \<longrightarrow> restrict ns' (sdb (snd (f sv))) = restrict ns' (sdb sv)))"

text \<open>An update of the server beside its database.\<close>

definition s_upd :: "string \<Rightarrow> (db server \<Rightarrow> db server) \<Rightarrow> bool" where
  "s_upd ns u \<longleftrightarrow> s_local ns (\<lambda>sv. ((), u sv))"

section \<open>Computations\<close>

lemma w_local_ret [local_intros]: "w_local ns (\<lambda>w. (r, w))"
  by (simp add: w_local_def)

lemma w_local_bind [local_intros]:
  assumes "w_local ns f" and "\<And>r. w_local ns (g r)"
  shows "w_local ns (\<lambda>w. case f w of (r, w) \<Rightarrow> g r w)"
  using assms unfolding w_local_def by (simp add: case_prod_unfold)

lemma w_local_cases [local_intros]:
  "(\<And>e. w_local ns (A e)) \<Longrightarrow> (\<And>x. w_local ns (B x)) \<Longrightarrow>
   w_local ns (\<lambda>w. case s of Inl e \<Rightarrow> A e w | Inr x \<Rightarrow> B x w)"
  "w_local ns C \<Longrightarrow> (\<And>y. w_local ns (D y)) \<Longrightarrow>
   w_local ns (\<lambda>w. case q of None \<Rightarrow> C w | Some y \<Rightarrow> D y w)"
  "w_local ns F \<Longrightarrow> w_local ns G \<Longrightarrow> w_local ns (\<lambda>w. if c then F w else G w)"
  by ((cases s; simp), (cases q; simp), (cases c; simp))

lemma s_local_ret [local_intros]: "s_local ns (\<lambda>sv. (r, sv))"
  by (simp add: s_local_def)

lemma s_local_ret_upd [local_intros]: "s_upd ns u \<Longrightarrow> s_local ns (\<lambda>sv. (r, u sv))"
  by (simp add: s_upd_def s_local_def)

lemma s_local_let [local_intros]: "s_upd ns u \<Longrightarrow> s_local ns f \<Longrightarrow> s_local ns (\<lambda>sv. let sv = u sv in f sv)"
  unfolding s_upd_def s_local_def by simp

lemma s_local_bind [local_intros]:
  assumes "s_local ns f" and "\<And>r. s_local ns (g r)"
  shows "s_local ns (\<lambda>sv. case f sv of (r, sv) \<Rightarrow> g r sv)"
  using assms unfolding s_local_def by (simp add: case_prod_unfold)

lemma s_local_let_bind [local_intros]:
  assumes "s_local ns f" and "\<And>r. s_local ns (g r)"
  shows "s_local ns (\<lambda>sv. let (r, sv) = f sv in g r sv)"
  using s_local_bind[OF assms] by simp

lemma s_local_cases [local_intros]:
  "(\<And>e. s_local ns (A e)) \<Longrightarrow> (\<And>x. s_local ns (B x)) \<Longrightarrow>
   s_local ns (\<lambda>sv. case s of Inl e \<Rightarrow> A e sv | Inr x \<Rightarrow> B x sv)"
  "s_local ns C \<Longrightarrow> (\<And>y. s_local ns (D y)) \<Longrightarrow>
   s_local ns (\<lambda>sv. case q of None \<Rightarrow> C sv | Some y \<Rightarrow> D y sv)"
  "s_local ns F \<Longrightarrow> s_local ns G \<Longrightarrow> s_local ns (\<lambda>sv. if c then F sv else G sv)"
  "s_local ns L \<Longrightarrow> (\<And>x xs. s_local ns (M x xs)) \<Longrightarrow>
   s_local ns (\<lambda>sv. case l of [] \<Rightarrow> L sv | x # xs \<Rightarrow> M x xs sv)"
  by ((cases s; simp), (cases q; simp), (cases c; simp), (cases l; simp))

lemma s_local_error [local_intros]:
  "s_local ns N \<Longrightarrow> (\<And>m. s_local ns (C m)) \<Longrightarrow> (\<And>m. s_local ns (I m)) \<Longrightarrow> (\<And>m. s_local ns (B m)) \<Longrightarrow>
   s_local ns (\<lambda>sv. case e of NotFound \<Rightarrow> N sv | Conflict m \<Rightarrow> C m sv | Invalid m \<Rightarrow> I m sv | Backend m \<Rightarrow> B m sv)"
  by (cases e) simp_all

lemma s_upd_simps [local_intros]:
  "s_upd ns (spine c)" "s_upd ns (incr upd)" "s_upd ns (\<lambda>sv. sv\<lparr>sv_metrics := f (sv_metrics sv)\<rparr>)"
  by (simp_all add: s_upd_def s_local_def spine_def incr_def restrict_sv_def sdb_def)

lemma s_upd_comp: "s_upd ns u \<Longrightarrow> s_upd ns v \<Longrightarrow> s_upd ns (\<lambda>sv. u (v sv))"
  by (simp add: s_upd_def s_local_def)

lemma s_upd_pow: "s_upd ns u \<Longrightarrow> s_upd ns (u ^^ n)"
  by (induction n) (simp_all add: s_upd_def s_local_def)

lemma restrict_sv_world [simp]: "sv_world (restrict_sv ns sv) = restrict_w ns (sv_world sv)"
  by (simp add: restrict_sv_def)

lemma on_store_local [local_intros]: "w_local ns f \<Longrightarrow> s_local ns (on_store f)"
  unfolding w_local_def s_local_def
  by (simp add: on_store_def case_prod_unfold Let_def sdb_def restrict_sv_def)

lemma read_clock_local [local_intros]: "w_local ns read_clock"
  by (simp add: w_local_def read_clock_def restrict_w_def)

section \<open>Store operations\<close>

lemma call_local:
  assumes "\<And>s c. op s (restrict ns c) = (fst (op s c), restrict ns (snd (op s c)))"
    and "\<And>ns' s c. ns' \<noteq> ns \<Longrightarrow> restrict ns' (snd (op s c)) = restrict ns' c"
  shows "w_local ns (call op)"
  using assms by (simp add: w_local_def call_def case_prod_unfold Let_def restrict_w_def)

lemma list_runs_restrict: "list_runs J X ns q s (restrict ns c) = (fst (list_runs J X ns q s c), restrict ns c)"
proof -
  have "filter (\<lambda>r. rr_ns r = ns \<and> P r) (db_runs (restrict ns c)) = filter (\<lambda>r. rr_ns r = ns \<and> P r) (db_runs c)" for P
    by (simp add: restrict_def conj_ac)
  then show ?thesis
    by (cases "sys_fault s") (auto simp: list_runs_def with_conn_def query_def begin_stmt_def Let_def split: sum.split)
qed

lemma store_calls_local [local_intros]:
  "w_local ns (call (create_run J sha ns new))" "w_local ns (call (store_append sha ns i ev key))"
  "w_local ns (call (seal J sha ns i))" "w_local ns (call (redact J sha ns i seq fs a))"
  "w_local ns (call (put_checkpoint ns cp))" "w_local ns (call (get_run J ns i))"
  "w_local ns (call (store_events J ns i start limit))" "w_local ns (call (latest_checkpoint ns i))"
  "w_local ns (call (list_runs J X ns q))"
proof -
  note t = op_tenant[of J sha]
  show "w_local ns (call (create_run J sha ns new))"
    by (rule call_local) (use t[of "OpCreate ns new"] in \<open>auto simp: prod_eq_iff\<close>)
  show "w_local ns (call (store_append sha ns i ev key))"
    by (rule call_local) (use t[of "OpAppend ns i ev key"] in \<open>auto simp: prod_eq_iff\<close>)
  show "w_local ns (call (seal J sha ns i))"
    by (rule call_local) (use t[of "OpSeal ns i"] in \<open>auto simp: prod_eq_iff\<close>)
  show "w_local ns (call (redact J sha ns i seq fs a))"
    by (rule call_local) (use t[of "OpRedact ns i seq fs a"] in \<open>auto simp: prod_eq_iff\<close>)
  show "w_local ns (call (put_checkpoint ns cp))"
    by (rule call_local) (use t[of "OpPut ns cp"] in \<open>auto simp: prod_eq_iff\<close>)
  show "w_local ns (call (get_run J ns i))"
    by (rule call_local) (use t[of "OpGet ns i"] in \<open>auto simp: prod_eq_iff\<close>)
  show "w_local ns (call (store_events J ns i start limit))"
    by (rule call_local) (use t[of "OpEvents ns i start limit"] in \<open>auto simp: prod_eq_iff\<close>)
  show "w_local ns (call (latest_checkpoint ns i))"
    by (rule call_local) (use t[of "OpLatest ns i"] in \<open>auto simp: prod_eq_iff\<close>)
  show "w_local ns (call (list_runs J X ns q))"
    by (rule call_local) (simp_all add: list_runs_restrict)
qed

section \<open>Gates\<close>

lemma append_seq_local [local_intros]:
  "w_local ns (st_append S ns i ev None) \<Longrightarrow> w_local ns (append_seq S ns i (Inr ev))"
  unfolding append_seq_def by (simp, intro local_intros)

lemma gate_ops_local:
  assumes "sqlite_backed X st"
  shows "w_local ns (request (tl_json st) (tl_store st) ns i action t)"
    "w_local ns (resolve (tl_json st) (tl_store st) ns i seq d reviewer who attested note)"
proof -
  have app: "w_local ns (append_seq (tl_store st) ns i ev)" for ev
    unfolding append_seq_def sqlite_calls[OF assms] by (intro local_intros)
  show "w_local ns (request (tl_json st) (tl_store st) ns i action t)"
    unfolding request_def by (rule app)
  show "w_local ns (resolve (tl_json st) (tl_store st) ns i seq d reviewer who attested note)"
    unfolding resolve_def sqlite_calls(5)[OF assms] by (intro local_intros app)
qed

lemma expire_loop_local:
  "sqlite_backed X st \<Longrightarrow> w_local ns (expire_loop (tl_json st) (tl_store st) ns i seqs k)"
proof (induction seqs arbitrary: k)
  case Nil
  have "expire_loop (tl_json st) (tl_store st) ns i [] k = (\<lambda>w. (Inr k, w))" by (rule ext) simp
  then show ?case by (simp add: w_local_ret)
next
  case (Cons t seqs)
  have "expire_loop (tl_json st) (tl_store st) ns i (t # seqs) k = (\<lambda>w.
     case resolve (tl_json st) (tl_store st) ns i t Expired None None False
            (Some ''no decision before expiry'') w of
       (Inl e, w) \<Rightarrow> (Inl e, w)
     | (Inr _, w) \<Rightarrow> expire_loop (tl_json st) (tl_store st) ns i seqs (k + 1) w)" by (rule ext) simp
  then show ?case
    by (simp only:) (intro local_intros gate_ops_local(2)[OF Cons.prems] Cons.IH Cons.prems)
qed

lemma expire_lapsed_in_local:
  assumes "sqlite_backed X st"
  shows "w_local ns (expire_lapsed_in (tl_json st) (tl_store st) ns i events now)"
  unfolding expire_lapsed_in_def Let_def by (intro local_intros expire_loop_local[OF assms])

section \<open>Handlers\<close>

lemma publish_head_local:
  assumes "sqlite_backed X st"
  shows "s_upd ns (publish_head st ns i seq)"
proof -
  have "s_local ns (\<lambda>sv. case on_store (st_events (tl_store st) ns i seq 1) sv of
      (Inl e, sv) \<Rightarrow> ((), sv)
    | (Inr events, sv) \<Rightarrow> (case events of [] \<Rightarrow> ((), sv) | event # _ \<Rightarrow>
        (case en_event (tl_codec st) event of None \<Rightarrow> ((), sv)
         | Some json \<Rightarrow> ((), spine (Publish (stream_name ns i) json) sv))))"
    unfolding sqlite_calls[OF assms] by (intro local_intros)
  moreover have "(\<lambda>sv. case on_store (st_events (tl_store st) ns i seq 1) sv of
      (Inl e, sv) \<Rightarrow> ((), sv)
    | (Inr events, sv) \<Rightarrow> (case events of [] \<Rightarrow> ((), sv) | event # _ \<Rightarrow>
        (case en_event (tl_codec st) event of None \<Rightarrow> ((), sv)
         | Some json \<Rightarrow> ((), spine (Publish (stream_name ns i) json) sv)))) = (\<lambda>sv. ((), publish_head st ns i seq sv))"
    by (auto simp: publish_head_def split: prod.split sum.split list.split option.split)
  ultimately show ?thesis by (simp add: s_upd_def)
qed

lemma write_checkpoint_local:
  assumes "sqlite_backed X st"
  shows "s_local ns (write_checkpoint st ns i seq h)"
  unfolding write_checkpoint_def sqlite_calls[OF assms]
  by (simp only: Let_def[of "sign_head _ _ _ _ _ _ _"]) (intro local_intros)

lemma maybe_checkpoint_local:
  assumes "sqlite_backed X st"
  shows "s_upd ns (maybe_checkpoint st ns i seq h)"
  using write_checkpoint_local[OF assms, of ns i seq h]
  by (auto simp: s_upd_def s_local_def maybe_checkpoint_def)

lemma expiry_of_local: "s_local ns (expiry_of req)"
  unfolding expiry_of_def
  by (intro local_intros)

lemma expire_then_read_local:
  assumes "sqlite_backed X st"
  shows "s_local ns (expire_then_read st ns i)"
proof -
  have "s_local ns (\<lambda>sv. on_store (st_events (tl_store st) ns i 0 5000) ((incr m_gates_expired_update ^^ n) sv))" for n
    using s_local_let[OF s_upd_pow[OF s_upd_simps(2)], of ns
        "on_store (st_events (tl_store st) ns i 0 5000)" n m_gates_expired_update]
    unfolding sqlite_calls[OF assms] by (simp add: local_intros)
  then show ?thesis
    unfolding expire_then_read_def sqlite_calls[OF assms]
    by (intro local_intros expire_lapsed_in_local[OF assms])
qed

lemma record_handlers_local:
  assumes "sqlite_backed X st"
  shows "authorize st h True = Inr ns \<Longrightarrow> s_local ns (h_create_run st h body)"
    "authorize st h False = Inr ns \<Longrightarrow> s_local ns (h_list_runs st q h)"
    "authorize st h False = Inr ns \<Longrightarrow> s_local ns (h_get_run st i h)"
    "authorize st h True = Inr ns \<Longrightarrow> s_local ns (h_append_event st i h body)"
    "authorize st h False = Inr ns \<Longrightarrow> s_local ns (h_list_events st i eq h)"
    "authorize st h True = Inr ns \<Longrightarrow> s_local ns (h_complete_run st i h)"
    "authorize st h False = Inr ns \<Longrightarrow> s_local ns (h_get_checkpoint st i h)"
    "authorize st h True = Inr ns \<Longrightarrow> s_local ns (h_redact st i h body)"
  unfolding h_create_run_def h_list_runs_def h_get_run_def h_append_event_def h_list_events_def
    h_complete_run_def h_get_checkpoint_def h_redact_def sqlite_calls[OF assms]
  by (simp only: sum.case, intro local_intros publish_head_local[OF assms] maybe_checkpoint_local[OF assms]
      write_checkpoint_local[OF assms])+

lemma gate_handlers_local:
  assumes "sqlite_backed X st"
  shows "authorize st h True = Inr ns \<Longrightarrow> s_local ns (h_create_approval st i h body)"
    "authorize st h False = Inr ns \<Longrightarrow> s_local ns (h_list_approvals st i h)"
    "authorize st h False = Inr ns \<Longrightarrow> s_local ns (h_get_approval st i seq h)"
  unfolding h_create_approval_def h_list_approvals_def h_get_approval_def
  by (simp only: sum.case, intro local_intros publish_head_local[OF assms] gate_ops_local[OF assms]
      expiry_of_local expire_then_read_local[OF assms])+

lemma resolve_approval_local:
  assumes "sqlite_backed X st" and "authorize st h True = Inr ns"
  shows "s_local ns (h_resolve_approval st i seq h body)"
proof -
  have "s_upd ns (\<lambda>sv. case d of Approved \<Rightarrow> incr m_gates_approved_update sv
      | Rejected \<Rightarrow> incr m_gates_rejected_update sv | Expired \<Rightarrow> incr m_gates_expired_update sv)" for d
    by (cases d) (simp_all add: s_upd_simps)
  then show ?thesis
    unfolding h_resolve_approval_def assms(2)
    by (simp only: sum.case Let_def[of "reviewer_principal_of _ _"] Let_def[of "_ \<noteq> _"])
      (intro local_intros publish_head_local[OF assms(1)] gate_ops_local[OF assms(1)])
qed

text \<open>The credential a request is judged by, and whether it writes.\<close>

fun request_auth :: "http_request \<Rightarrow> (headers \<times> bool) option" where
  "request_auth WellKnown = None"
| "request_auth (CreateRun h body) = Some (h, True)"
| "request_auth (ListRuns q h) = Some (h, False)"
| "request_auth (GetRun i h) = Some (h, False)"
| "request_auth (AppendEvent i h body) = Some (h, True)"
| "request_auth (ListEvents i q h) = Some (h, False)"
| "request_auth (CompleteRun i h) = Some (h, True)"
| "request_auth (GetCheckpoint i h) = Some (h, False)"
| "request_auth (CreateApproval i h body) = Some (h, True)"
| "request_auth (ListApprovals i h) = Some (h, False)"
| "request_auth (GetApproval i seq h) = Some (h, False)"
| "request_auth (ResolveApproval i seq h body) = Some (h, True)"
| "request_auth (Redact i h body) = Some (h, True)"

lemma serve_local:
  assumes "sqlite_backed X st" and "request_auth req = Some (h, wr)" and "authorize st h wr = Inr ns"
  shows "s_local ns (serve st req)"
proof -
  have "serve st req = (\<lambda>sv. serve st req sv)" by simp
  then show ?thesis
    using assms(2,3) record_handlers_local[OF assms(1)] gate_handlers_local[OF assms(1)]
      resolve_approval_local[OF assms(1)]
    by (cases req) (simp_all add: s_local_def)
qed

lemma serve_denied:
  "request_auth req = Some (h, wr) \<Longrightarrow> authorize st h wr = Inl r \<Longrightarrow> serve st req sv = (r, sv)"
  by (cases req) (simp_all add: h_create_run_def h_list_runs_def h_get_run_def h_append_event_def
      h_list_events_def h_complete_run_def h_get_checkpoint_def h_redact_def h_create_approval_def
      h_list_approvals_def h_get_approval_def h_resolve_approval_def)

text \<open>
  C3: a request sees and touches one tenant. A request whose credential is refused gets 401 and
  changes nothing. One whose credential grants namespace \<open>ns\<close> gets the response it would get
  if the database held the rows of \<open>ns\<close> alone, and leaves the rows of every other namespace as
  they were. This holds for every route, any request body and query, any clock and any fault
  of the store.
\<close>

theorem request_stays_in_tenant:
  assumes "sqlite_backed X st" and "request_auth req = Some (h, wr)"
  shows "case authorize st h wr of
      Inl r \<Rightarrow> r = respond 401 (Text ''unauthorized'') \<and> serve st req sv = (r, sv)
    | Inr ns \<Rightarrow>
        fst (serve st req (restrict_sv ns sv)) = fst (serve st req sv) \<and>
        (\<forall>ns'. ns' \<noteq> ns \<longrightarrow> restrict ns' (sdb (snd (serve st req sv))) = restrict ns' (sdb sv))"
proof (cases "authorize st h wr")
  case (Inl r)
  then have "r = respond 401 (Text ''unauthorized'')"
    by (simp add: authorize_def split: access.splits)
  with Inl serve_denied[OF assms(2)] show ?thesis by simp
next
  case (Inr ns)
  with serve_local[OF assms] show ?thesis by (simp add: s_local_def)
qed

theorem request_stays_in_tenant_witness:
  "restrict ''globex'' (sdb (snd (serve demo_state (AppendEvent ''loan'' demo_headers ''note'') (demo_server demo_db))))
     = restrict ''globex'' demo_db"
  using request_stays_in_tenant[of no_extract demo_state "AppendEvent ''loan'' demo_headers ''note''"
      demo_headers True "demo_server demo_db"] by simp

end
