(* ===== verification/Server_Props.thy ===== *)
theory Server_Props
  imports Tenants
begin

text \<open>
  What the server promises over HTTP: every record it can ever hold verifies and has the shape
  the protocol demands, every stored checkpoint is its own signature over the record, a
  completed run has a checkpoint over its head, an attested decision is an authenticated one,
  and a failure of the store tells the caller nothing.
\<close>

section \<open>Records and checkpoints\<close>

text \<open>
  C1: every record the server holds is a valid record of the protocol. Whatever requests a
  server that started with an empty database has handled, in any order, with any bodies and
  credentials, any clock and any faults of the store: the record of an existing run verifies,
  opens with \<open>run_started\<close> and has no other, and contains \<open>run_finished\<close> exactly when the run
  is sealed, as its last event.
\<close>

theorem every_record_is_valid:
  assumes "sqlite_server X st" and "json_ok (tl_json st)" and "sdb sv = empty_db"
    and "5000 * length reqs < 2 ^ 63 - 1"
    and "run_of ns i (sdb (serve_all st reqs sv)) = Some r"
  shows "let evs = record_of (tl_json st) ns i (sdb (serve_all st reqs sv))
    in verify_chain (tl_sha st) evs = Inr (chain_summary evs) \<and>
      well_shaped (map ev_kind evs) (rr_ended_ts r \<noteq> None)"
proof -
  have "sv_ok st empty_db (0 + 5000 * length reqs) sv"
    unfolding sv_ok_def assms(3) by (rule server_ok_empty) (use assms(2,4) in simp_all)
  then have "sv_ok st empty_db 0 (serve_all st reqs sv)" by (rule serve_all_ok[OF assms(1)])
  note ok = server_okD[OF this[unfolded sv_ok_def]]
  from ok(5) assms(5) inv_verifies(1)[OF ok(3) assms(5)] show ?thesis
    unfolding Let_def shapes_ok_def run_shape_def by blast
qed

lemma demo_created: "sdb (serve_all demo_state [CreateRun demo_headers ''run''] (demo_server empty_db))
    = open_run demo_json prefix_sha 10 ''acme'' demo_new empty_db"
proof -
  obtain r sv where call: "on_store (st_create_run (tl_store demo_state) ''acme'' demo_new) (demo_server empty_db) = (r, sv)"
    by force
  have "create_run demo_json prefix_sha ''acme'' demo_new (calm 10) empty_db = (r, sdb sv)"
    using on_store_op[OF call[unfolded sqlite_calls[OF demo_state_simps(2)]]] by simp
  then have "sdb sv = open_run demo_json prefix_sha 10 ''acme'' demo_new empty_db" and "\<exists>env. r = Inr env"
    by (auto simp: create_run_def
        create_run_tx_eq[OF store_invD(1)[OF store_inv_empty[of demo_json prefix_sha]] small_empty])
  moreover have "valid_id (nr_run_id demo_new)"
    by (simp add: valid_id_def id_char_def demo_new_def)
  ultimately show ?thesis
    by (auto simp: serve_all_def h_create_run_def call demo_codec_def Let_def
        sdb_publish_head[OF demo_state_simps(2)])
qed

theorem every_record_is_valid_witness:
  "let evs = record_of demo_json ''acme'' ''loan''
         (sdb (serve_all demo_state [CreateRun demo_headers ''run''] (demo_server empty_db)))
   in verify_chain prefix_sha evs = Inr (chain_summary evs) \<and> well_shaped (map ev_kind evs) False"
  using every_record_is_valid[of no_extract demo_state "demo_server empty_db"
      "[CreateRun demo_headers ''run'']" "''acme''" "''loan''"]
  by (simp add: demo_created run_of_open_run demo_new_def run_row_of_def)

text \<open>A checkpoint an auditor accepts for a record.\<close>

definition cp_holds :: "sha \<Rightarrow> sig_lib \<Rightarrow> verifying_key \<Rightarrow> run_event list \<Rightarrow> checkpoint \<Rightarrow> bool" where
  "cp_holds sha S key evs cp \<longleftrightarrow> cp_verify sha S cp key = Inr () \<and> commits_to evs (cp_seq cp) (cp_head_hash cp)"

lemma latest_row:
  assumes "latest_checkpoint ns i s c = (Inr (Some cp), d)"
  shows "\<exists>r \<in> set (db_checkpoints c). cp_at ns i r \<and> cp = \<lparr>cp_run_id = i, cp_seq = cr_seq r,
    cp_head_hash = Hash (cr_head_hash r), cp_ts = cr_ts r, cp_key_id = cr_key_id r, cp_sig = cr_sig r\<rparr>"
proof -
  let ?sorted = "sort_key (\<lambda>r. - sint (cr_seq r)) (filter (cp_at ns i) (db_checkpoints c))"
  have q: "with_conn (query f s) s c = (Inr (Some cp), d) \<Longrightarrow> f c = Inr (Some cp)"
    for f :: "db \<Rightarrow> checkpoint option store_result"
    using query_call_cases[of f s c] by auto
  from q[OF assms[unfolded latest_checkpoint_def]] obtain r rs where r: "?sorted = r # rs"
    and cp: "(case unblob (cr_head_hash r) of Inl e \<Rightarrow> Inl e
      | Inr head \<Rightarrow> Inr (Some \<lparr>cp_run_id = i, cp_seq = cr_seq r, cp_head_hash = head,
          cp_ts = cr_ts r, cp_key_id = cr_key_id r, cp_sig = cr_sig r\<rparr>)) = Inr (Some cp)"
    by (auto split: list.splits)
  have "r \<in> set ?sorted" using r by simp
  then have "r \<in> set (db_checkpoints c)" "cp_at ns i r" by auto
  with cp show ?thesis by (auto simp: unblob_def split: if_splits)
qed

lemma latest_holds:
  assumes "server_ok J sha S kr B n c" and "sig_ok S"
    and "latest_checkpoint ns i s c = (Inr (Some cp), d)"
  shows "cp_holds sha S (ed_public S (kr_key kr)) (record_of J ns i c) cp"
proof -
  obtain r where r: "r \<in> set (db_checkpoints c)" "cp_at ns i r" and cp: "cp = \<lparr>cp_run_id = i, cp_seq = cr_seq r,
    cp_head_hash = Hash (cr_head_hash r), cp_ts = cr_ts r, cp_key_id = cr_key_id r, cp_sig = cr_sig r\<rparr>"
    using latest_row[OF assms(3)] by blast
  then obtain seq h ts where row: "r = cp_row_of ns (sign_head sha S kr i seq h ts)"
    and commits: "commits_to (record_of J ns i c) seq h"
    using server_okD(6)[OF assms(1)] unfolding cps_ok_def
    by (fastforce simp: cp_at_def cp_row_of_def sign_head_def)
  have "Hash (blob h) = h" by (cases h) (simp add: blob_def)
  then have "cp = sign_head sha S kr i seq h ts"
    unfolding cp row by (simp add: cp_row_of_def)
  with commits show ?thesis
    using cp_sign_verifies[OF assms(2)] by (simp add: cp_holds_def sign_head_def)
qed

text \<open>
  C5: every checkpoint the server hands out is true. Whatever requests it has handled since an
  empty database, a checkpoint it returns for a run verifies under its public key, and its
  head is the digest the run's record has at its sequence number, then and at any later time.
\<close>

theorem every_checkpoint_holds:
  assumes "sqlite_server X st" and "json_ok (tl_json st)" and "sig_ok (tl_sig st)"
    and "sdb sv = empty_db" and "5000 * length (reqs @ later) < 2 ^ 63 - 1"
    and "latest_checkpoint ns i s (sdb (serve_all st reqs sv)) = (Inr (Some cp), d)"
  shows "cp_holds (tl_sha st) (tl_sig st) (ed_public (tl_sig st) (kr_key (tl_keys st)))
      (record_of (tl_json st) ns i (sdb (serve_all st (reqs @ later) sv))) cp"
proof -
  let ?mid = "serve_all st reqs sv" and ?m = "5000 * length later"
  have "sv_ok st empty_db (?m + 5000 * length reqs) sv"
    unfolding sv_ok_def assms(4) by (rule server_ok_empty) (use assms(2,5) in \<open>simp_all add: algebra_simps\<close>)
  then have mid: "sv_ok st empty_db ?m ?mid" by (rule serve_all_ok[OF assms(1)])
  have "sv_ok st (sdb ?mid) 0 (serve_all st later ?mid)"
    by (rule serve_all_ok[OF assms(1)]) (simp add: sv_ok_rebase[OF mid])
  then have "extends (tl_json st) (tl_sha st) (sdb ?mid) (sdb (serve_all st later ?mid))"
    unfolding sv_ok_def by (rule server_okD(7))
  with latest_holds[OF mid[unfolded sv_ok_def] assms(3,6)] show ?thesis
    by (auto simp: cp_holds_def serve_all_append intro: commits_to_extends)
qed

section \<open>Completion\<close>

lemma unat_sql_le: "unat a \<le> unat b \<Longrightarrow> unat b < 2 ^ 63 \<Longrightarrow> sql_le a b"
proof -
  assume a: "unat a \<le> unat b" "unat b < 2 ^ 63"
  have "sint (of_nat (unat a) :: u64) = int (unat a)" "sint (of_nat (unat b) :: u64) = int (unat b)"
    using a by (intro sint_of_nat_u64; simp)+
  with a show ?thesis unfolding sql_le_def by (simp add: word_le_nat_alt[symmetric] word_le_def[symmetric])
qed

lemma put_success:
  assumes "fst (put_checkpoint ns cp s c) = Inr ()"
  shows "snd (put_checkpoint ns cp s c) = snd (put_checkpoint ns cp (calm 0) c)"
proof -
  have "fst (put_checkpoint ns cp (calm 0) c) = Inr ()" by (simp add: put_checkpoint_def)
  with assms put_rows[of ns cp s c] put_rows[of ns cp "calm 0" c] show ?thesis by auto
qed

lemma checkpoint_written:
  assumes "sqlite_backed X st" and "sv_ok st B n sv" and "sig_ok (tl_sig st)"
    and "commits_to (srecord st ns i sv) seq h" and "Suc (unat seq) = length (srecord st ns i sv)"
    and "write_checkpoint st ns i seq h sv = (Inr (), sv')" and "quiet s"
  shows "\<exists>cp. latest_checkpoint ns i s (sdb sv') = (Inr (Some cp), sdb sv') \<and>
    cp_seq cp = seq \<and> cp_holds (tl_sha st) (tl_sig st) (ed_public (tl_sig st) (kr_key (tl_keys st)))
      (srecord st ns i sv') cp"
proof -
  obtain ts s0 where put: "sdb sv' = snd (put_checkpoint ns
      (sign_head (tl_sha st) (tl_sig st) (tl_keys st) i seq h ts) s0 (sdb sv))"
    "fst (put_checkpoint ns (sign_head (tl_sha st) (tl_sig st) (tl_keys st) i seq h ts) s0 (sdb sv)) = Inr ()"
    using write_checkpoint_sdb[OF assms(1), of ns i seq h sv] assms(6) by auto
  let ?cp = "sign_head (tl_sha st) (tl_sig st) (tl_keys st) i seq h ts"
  note ok = assms(2)[unfolded sv_ok_def]
  have "sql_le (cr_seq r) seq" if r: "r \<in> set (db_checkpoints (sdb sv))" "cp_at ns i r" for r
  proof -
    obtain seq' h' ts' where "r = cp_row_of ns (sign_head (tl_sha st) (tl_sig st) (tl_keys st) i seq' h' ts')"
      "commits_to (srecord st ns i sv) seq' h'"
      using server_okD(6)[OF ok] r unfolding cps_ok_def srecord_def
      by (fastforce simp: cp_at_def cp_row_of_def sign_head_def)
    then show ?thesis
      using assms(5) length_record_ok[OF ok, of ns i]
      by (intro unat_sql_le) (auto simp: cp_row_of_def commits_to_def srecord_def)
  qed
  then have "list_all (\<lambda>r. cp_at ns (cp_run_id ?cp) r \<longrightarrow> sql_le (cr_seq r) (cp_seq ?cp)) (db_checkpoints (sdb sv))"
    by (simp add: list_all_iff)
  from put_then_latest[OF quiet_calm assms(7) this]
  have latest: "fst (latest_checkpoint ns i s (sdb sv')) = Inr (Some ?cp)"
    unfolding put(1) put_success[OF put(2)] by simp
  then have "latest_checkpoint ns i s (sdb sv') = (Inr (Some ?cp), sdb sv')"
    by (simp add: prod_eq_iff)
  moreover have "sv_ok st B n sv'"
    using write_checkpoint_ok[OF assms(1,2,4)] assms(6) by simp
  ultimately show ?thesis
    using latest_holds[OF _ assms(3), of "tl_json st" "tl_sha st" "tl_keys st" B n "sdb sv'" ns i s ?cp]
    by (auto simp: sv_ok_def srecord_def)
qed

lemma seal_conflict:
  assumes "server_ok J sha S kr B (Suc n) c" and "seal J sha ns i s c = (Inl (Conflict m), d)"
  shows "run_sealed ns i c"
proof -
  note inv = server_okD[OF assms(1)]
  have "seal_tx J sha s ns i c = Inl (Conflict m)"
    using assms(2) by (cases "sys_fault s"; cases "seal_tx J sha s ns i c")
      (auto simp: seal_def with_conn_def tx_immediate_def begin_stmt_def end_tx_def)
  then show ?thesis
    unfolding seal_tx_eq[OF store_invD(1)[OF inv(3)] inv(4)] Let_def run_sealed_def
    by (auto split: option.splits if_splits)
qed

lemma put_keeps_runs: "run_of ns' i' (snd (put_checkpoint ns cp s c)) = run_of ns' i' c"
  using put_rows[of ns cp s c] by (auto simp: run_of_def)

lemma put_keeps_record: "record_of J ns' i' (snd (put_checkpoint ns cp s c)) = record_of J ns' i' c"
  using put_rows[of ns cp s c] by (auto simp: record_of_checkpoints)

lemma write_checkpoint_frame:
  assumes "sqlite_backed X st"
  shows "run_sealed ns' i' (sdb (snd (write_checkpoint st ns i seq h sv))) = run_sealed ns' i' (sdb sv)"
    and "srecord st ns' i' (snd (write_checkpoint st ns i seq h sv)) = srecord st ns' i' sv"
proof -
  obtain ts s where w: "sdb (snd (write_checkpoint st ns i seq h sv))
      = snd (put_checkpoint ns (sign_head (tl_sha st) (tl_sig st) (tl_keys st) i seq h ts) s (sdb sv))"
    using write_checkpoint_sdb[OF assms] by blast
  then show "run_sealed ns' i' (sdb (snd (write_checkpoint st ns i seq h sv))) = run_sealed ns' i' (sdb sv)"
    by (simp add: run_sealed_def put_keeps_runs)
  show "srecord st ns' i' (snd (write_checkpoint st ns i seq h sv)) = srecord st ns' i' sv"
    by (simp add: srecord_def w put_keeps_record)
qed

text \<open>What a completed run has: a checkpoint over its last event.\<close>

definition head_checkpointed :: "db tlr_state \<Rightarrow> sys \<Rightarrow> string \<Rightarrow> string \<Rightarrow> db server \<Rightarrow> bool" where
  "head_checkpointed st s ns i sv \<longleftrightarrow>
     (case latest_checkpoint ns i s (sdb sv) of
        (Inr (Some cp), _) \<Rightarrow> Suc (unat (cp_seq cp)) = length (srecord st ns i sv) \<and>
          cp_holds (tl_sha st) (tl_sig st) (ed_public (tl_sig st) (kr_key (tl_keys st))) (srecord st ns i sv) cp
      | _ \<Rightarrow> False)"

lemma head_checkpointed_spine [simp]: "head_checkpointed st s ns i (spine c sv) = head_checkpointed st s ns i sv"
  unfolding head_checkpointed_def srecord_simps sdb_simps ..

lemma err_status [simp]: "rs_status (err e) \<noteq> 200"
  by (cases e) (simp_all add: respond_def)

lemma write_checkpoint_head:
  assumes "sqlite_backed X st" and "sv_ok st B n sv" and "sig_ok (tl_sig st)"
    and "commits_to (srecord st ns i sv) seq h" and "Suc (unat seq) = length (srecord st ns i sv)"
    and "write_checkpoint st ns i seq h sv = (Inr (), sv')" and "quiet s"
  shows "head_checkpointed st s ns i sv'"
  using checkpoint_written[OF assms] write_checkpoint_frame(2)[OF assms(1), of ns i ns i seq h sv] assms(5,6)
  by (auto simp: head_checkpointed_def)

lemma complete_run_head:
  assumes "sqlite_server X st" and "sv_ok st B (Suc n) sv" and "sig_ok (tl_sig st)" and "quiet s"
    and "authorize st h True = Inr ns"
    and "h_complete_run st i h sv = (res, sv')" and "rs_status res = 200"
  shows "run_sealed ns i (sdb sv') \<and> head_checkpointed st s ns i sv'"
proof -
  note B = sqlite_serverD(1)[OF assms(1)]
  have valid: "valid_id i"
    using assms(5-7) by (auto simp: h_complete_run_def bad_def respond_def split: if_splits)
  obtain r sv1 where call: "on_store (st_seal (tl_store st) ns i) sv = (r, sv1)" by force
  note ok1 = call_seal(1)[OF B assms(2) call]
  note run = assms(6)[unfolded h_complete_run_def assms(5), simplified, simplified valid call, simplified]
  show ?thesis
  proof (cases r)
    case (Inr ar)
    let ?sv = "publish_head st ns i (ar_seq ar) (incr m_runs_sealed_update sv1)"
    note sealed = call_seal(2)[OF B assms(2) call Inr]
    obtain r2 sv2 where wc: "write_checkpoint st ns i (ar_seq ar) (ar_hash ar) ?sv = (r2, sv2)" by force
    have "r2 = Inr () \<and> sv' = spine (Complete (stream_name ns i)) sv2"
      using run assms(7) Inr wc
      by (cases r2) (auto simp: Let_def)
    moreover from this have "head_checkpointed st s ns i sv2"
      using write_checkpoint_head[OF B _ assms(3), of B n ?sv ns i "ar_seq ar" "ar_hash ar" sv2 s]
        ok1 sealed wc assms(4) by (simp add: sv_ok_publish[OF B] srecord_simps(3)[OF B])
    moreover have "run_sealed ns i (sdb sv2)"
      using write_checkpoint_frame(1)[OF B, of ns i ns i "ar_seq ar" "ar_hash ar" ?sv] sealed wc
      by (simp add: sdb_publish_head[OF B])
    ultimately show ?thesis by simp
  next
    case (Inl e)
    obtain r2 sv2 where latest: "on_store (st_latest_checkpoint (tl_store st) ns i) sv1 = (r2, sv2)" by force
    obtain r3 sv3 where get: "on_store (st_get_run (tl_store st) ns i) sv2 = (r3, sv3)" by force
    have same: "sdb sv3 = sdb sv1" using call_read(4)[OF B latest] call_read(1)[OF B get] by simp
    have ok2: "sv_ok st B n sv2" "sv_ok st B n sv3"
      using ok1 same call_read(4)[OF B latest] by (simp_all add: sv_ok_def)
    obtain m env sv4 where e: "e = Conflict m" "r2 = Inr None" "r3 = Inr env"
      and wc: "write_checkpoint st ns i (env_head_seq env) (env_head_hash env) sv3 = (Inr (), sv4)"
      and sv': "sv' = sv4"
      using run assms(7) Inl latest get
      by (auto simp: respond_def split: store_error.splits sum.splits option.splits prod.splits)
    note env = call_get_run[OF B ok2(1) get[unfolded e]]
    have "seal (tl_json st) (tl_sha st) ns i (snow sv) (sdb sv) = (Inl (Conflict m), sdb sv1)"
      using on_store_op[OF call[unfolded sqlite_calls[OF B]]] Inl e(1) by simp
    then have "run_sealed ns i (sdb sv)" "sdb sv1 = sdb sv"
      using seal_conflict[OF assms(2)[unfolded sv_ok_def]]
        seal_cases[OF server_okD(3,4)[OF assms(2)[unfolded sv_ok_def]], of ns i "snow sv"]
      by (auto simp: Let_def)
    then have "run_sealed ns i (sdb sv4)"
      using write_checkpoint_frame(1)[OF B, of ns i ns i "env_head_seq env" "env_head_hash env" sv3] wc same
      by simp
    moreover have "head_checkpointed st s ns i sv4"
      by (rule write_checkpoint_head[OF B ok2(2) assms(3) env wc assms(4)])
    ultimately show ?thesis by (simp add: sv')
  qed
qed

text \<open>A server that started with an empty database and answered some requests.\<close>

definition fresh_server :: "json_extract \<Rightarrow> db tlr_state \<Rightarrow> db server \<Rightarrow> bool" where
  "fresh_server X st sv \<longleftrightarrow> sqlite_server X st \<and> json_ok (tl_json st) \<and> sig_ok (tl_sig st) \<and> sdb sv = empty_db"

lemma fresh_reaches:
  assumes "fresh_server X st sv" and "n + 5000 * length reqs < 2 ^ 63 - 1"
  shows "sv_ok st empty_db n (serve_all st reqs sv)"
proof (rule serve_all_ok)
  show "sqlite_server X st" using assms(1) by (simp add: fresh_server_def)
  show "sv_ok st empty_db (n + 5000 * length reqs) sv"
    using assms by (simp add: sv_ok_def fresh_server_def server_ok_empty)
qed

text \<open>
  C6: a run reported complete is sealed and protected. If, after any requests to a server that
  started empty, completing a run answers 200, on the direct path or on the repair path, then
  the run is sealed and its newest checkpoint is the server's valid signature over the last
  event, so that no suffix of the record can be cut unnoticed.
\<close>

theorem completed_run_is_checkpointed:
  assumes "fresh_server X st sv0" and "1 + 5000 * length reqs < 2 ^ 63 - 1"
    and "authorize st h True = Inr ns"
    and "h_complete_run st i h (serve_all st reqs sv0) = (res, sv)" and "rs_status res = 200"
    and "quiet s"
  shows "run_sealed ns i (sdb sv) \<and> head_checkpointed st s ns i sv"
proof -
  have X: "sqlite_server X st" and S: "sig_ok (tl_sig st)" using assms(1) by (simp_all add: fresh_server_def)
  have "sv_ok st empty_db (Suc 0) (serve_all st reqs sv0)"
    by (rule fresh_reaches[OF assms(1)]) (use assms(2) in simp)
  then show ?thesis by (rule complete_run_head[OF X _ S assms(6,3,4,5)])
qed

lemma snow_after:
  "calm_world (sv_world sv) \<Longrightarrow> on_store (call op) sv = (r, sv') \<Longrightarrow> calm_world (sv_world sv')"
  by (auto simp: on_store_def call_quiet calm_world_def Let_def)

lemma calm_snow: "calm_world (sv_world sv) \<Longrightarrow> quiet (snow sv)"
  by (simp add: snow_def)


section \<open>What the caller learns\<close>

definition discreet :: "response \<Rightarrow> bool" where
  "discreet r \<longleftrightarrow> rs_status r \<in> {200, 400, 401, 404, 409, 500} \<and>
     (rs_status r = 500 \<longrightarrow> rs_body r = Text ''storage failure'')"

lemma discreet_simps [simp]:
  "discreet (err e)" "discreet (bad m)" "discreet (respond 200 b)" "discreet (respond 401 b)"
  "discreet (respond 404 b)" "discreet (respond 409 b)" "discreet (respond 400 b)"
  "discreet (respond 500 (Text ''storage failure''))"
  by (cases e; simp add: discreet_def respond_def) (simp_all add: discreet_def respond_def bad_def)

lemma authorize_discreet: "authorize st h wr = Inl r \<Longrightarrow> discreet r"
  by (auto simp: authorize_def split: access.splits)

text \<open>
  failures of the store stay inside. Over any store, every response has one of six
  statuses, and a 500 says \<open>storage failure\<close> and nothing else: no message of the database
  reaches a caller.
\<close>

theorem store_failures_stay_inside:
  "discreet (fst (serve st req sv))"
proof -
  note defs = h_create_run_def h_list_runs_def h_get_run_def h_append_event_def
      h_list_events_def h_complete_run_def h_get_checkpoint_def h_redact_def h_create_approval_def
      h_list_approvals_def h_get_approval_def h_resolve_approval_def
  show ?thesis
    by (cases req) (auto simp: defs Let_def case_prod_unfold authorize_discreet
      split: sum.splits option.splits store_error.splits)
qed

section \<open>Attested decisions\<close>

lemma sdb_world: "sdb (sv\<lparr>sv_world := w\<rparr>) = w_state w"
  by (simp add: sdb_def)

lemma reviewer_principal_iff:
  "reviewer_principal_of st h = Some p \<longleftrightarrow>
     (\<exists>tok t. am_cloud_verify (tl_mode st) \<and> bearer h = Some tok \<and> tl_tenants st tok = Some t \<and>
        p = ''tenant:'' @ t)"
  by (auto simp: reviewer_principal_of_def split: bool.splits option.splits)

text \<open>
  C26: a decision is attested exactly when the server authenticated who made it. Resolving a
  pending gate of an open run over HTTP answers 200 and changes that gate alone: it takes the
  decision, the reviewer name as the caller gave it, and as principal the tenant the control
  plane knows the credential by; it is attested if and only if there is such a principal,
  whatever name the caller claims.
\<close>

theorem attested_means_authenticated:
  assumes "sqlite_server X st" and "sv_ok st B (Suc n) sv" and "calm_world (sv_world sv)"
    and "authorize st h True = Inr ns" and "valid_id i"
    and "de_resolve_approval (tl_codec st) body = Some req"
    and "decision_parse (ra_decision req) = Some d" and "d \<noteq> Expired"
    and "run_open ns i (sdb sv)" and "length (srecord st ns i sv) \<le> 5000"
    and "g \<in> set (run_gates (tl_json st) ns i (sdb sv))" and "g_state g = Pending"
    and "h_resolve_approval st i (g_seq g) h body sv = (res, sv')"
  shows "rs_status res = 200 \<and>
    (\<exists>who. run_gates (tl_json st) ns i (sdb sv') =
        map (\<lambda>k. if g_seq k = g_seq g then decided d (ra_reviewer req) who (who \<noteq> None) (ra_note req) k else k)
          (run_gates (tl_json st) ns i (sdb sv)) \<and>
      (\<forall>p. who = Some p \<longleftrightarrow> (\<exists>tok t. am_cloud_verify (tl_mode st) \<and> bearer h = Some tok \<and>
        tl_tenants st tok = Some t \<and> p = ''tenant:'' @ t)))"
proof -
  note B = sqlite_serverD(1)[OF assms(1)]
  note ok = server_okD[OF assms(2)[unfolded sv_ok_def]]
  let ?who = "reviewer_principal_of st h" and ?c = "sdb sv"
  let ?op = "resolve (tl_json st) (sqlite_store (tl_json st) (tl_sha st) X) ns i (g_seq g) d
    (ra_reviewer req) ?who (?who \<noteq> None) (ra_note req)"
  obtain r w1 where call: "?op (sv_world sv) = (r, w1)" by force
  have on: "on_store (resolve (tl_json st) (tl_store st) ns i (g_seq g) d
    (ra_reviewer req) ?who (?who \<noteq> None) (ra_note req)) sv = (r, sv\<lparr>sv_world := w1\<rparr>)"
    using call B by (simp add: on_store_def sqlite_backed_def Let_def)
  have good: "db_good (tl_json st) (tl_sha st) (Suc n) (w_state (sv_world sv))"
    using ok(1) by (simp add: sdb_def)
  note old = gates_in_log[OF ok(3), of ns i]
  have "log_of (tl_json st) (w_state (sv_world sv)) (ns, i) = Some (srecord st ns i sv, False)"
    using log_of_open[OF assms(9)] by (simp add: srecord_def sdb_def)
  from sq.resolve_decides[OF good assms(3) this assms(10) _ assms(12) call] old assms(11)
  have res: "r = Inr (of_nat (length (srecord st ns i sv)))"
    and "db_good (tl_json st) (tl_sha st) n (w_state w1)"
    and "gates_in (tl_json st) (log_of (tl_json st) (w_state w1)) (ns, i) =
      map (\<lambda>k. if g_seq k = g_seq g then decided d (ra_reviewer req) ?who (?who \<noteq> None) (ra_note req) k else k)
        (run_gates (tl_json st) ns i ?c)"
    by (simp_all add: sdb_def)
  then have gates: "run_gates (tl_json st) ns i (w_state w1) =
      map (\<lambda>k. if g_seq k = g_seq g then decided d (ra_reviewer req) ?who (?who \<noteq> None) (ra_note req) k else k)
        (run_gates (tl_json st) ns i ?c)"
    using gates_in_log[OF db_goodD(1), of "tl_json st" "tl_sha st" n "w_state w1" ns i] by simp
  have "rs_status res = 200 \<and> sdb sv' = w_state w1"
    using assms(13,4-8) on res
    by (cases d) (auto simp: h_resolve_approval_def Let_def respond_def sdb_publish_head[OF B] sdb_world
        split: prod.splits)
  then have "rs_status res = 200" and "sdb sv' = w_state w1" by simp_all
  with gates show ?thesis
    by (intro conjI exI[of _ ?who] allI reviewer_principal_iff) simp_all
qed

section \<open>Examples\<close>

lemma write_checkpoint_calm:
  assumes "sqlite_backed X st" and "calm_world (sv_world sv)"
  shows "fst (write_checkpoint st ns i seq h sv) = Inr ()"
proof -
  obtain now s1 where clock: "on_store read_clock sv = (now, s1)" by force
  then have "quiet (snow s1)"
    using assms(2) by (auto simp: on_store_def read_clock_def Let_def snow_def w_now_def calm_world_def)
  then have "fst (on_store (st_put_checkpoint (tl_store st) ns cp) s1) = Inr ()" for cp
    by (simp add: sqlite_calls[OF assms(1)] on_store_call put_checkpoint_def)
  then show ?thesis
    by (simp add: write_checkpoint_def clock case_prod_unfold Let_def split: sum.split)
qed

lemma complete_run_succeeds:
  assumes "sqlite_server X st" and "sv_ok st B (Suc n) sv" and "calm_world (sv_world sv)"
    and "authorize st h True = Inr ns" and "valid_id i" and "run_open ns i (sdb sv)"
  shows "rs_status (fst (h_complete_run st i h sv)) = 200"
proof -
  note B = sqlite_serverD(1)[OF assms(1)]
  note ok = server_okD[OF assms(2)[unfolded sv_ok_def]]
  obtain r sv1 where call: "on_store (st_seal (tl_store st) ns i) sv = (r, sv1)" by force
  obtain rr where rr: "run_of ns i (sdb sv) = Some rr" "rr_ended_ts rr = None"
    using assms(6) by (auto simp: run_open_def)
  obtain ar where ar: "r = Inr ar"
    using on_store_op[OF call[unfolded sqlite_calls[OF B]]] rr calm_snow[OF assms(3)]
    by (cases r) (simp_all add: seal_def seal_tx_eq[OF store_invD(1)[OF ok(3)] ok(4)] Let_def)
  have calm1: "calm_world (sv_world sv1)"
    using snow_after[OF assms(3) call[unfolded sqlite_calls[OF B]]] .
  let ?sv = "publish_head st ns i (ar_seq ar) (incr m_runs_sealed_update sv1)"
  have "calm_world (sv_world (snd (on_store (st_events (tl_store st) ns i q 1) s)))"
    if "calm_world (sv_world s)" for q s
    using that by (simp add: sqlite_calls[OF B] on_store_def call_quiet calm_world_def Let_def)
  then have "calm_world (sv_world ?sv)"
    using calm1
    by (auto simp: publish_head_def incr_def spine_def case_prod_unfold split: sum.split list.split option.split)
  then show ?thesis
    using assms(4,5) call ar write_checkpoint_calm[OF B]
    by (simp add: h_complete_run_def Let_def case_prod_unfold respond_def)
qed

definition demo_open :: "db server" where
  "demo_open = serve_all demo_state [CreateRun demo_headers ''run''] (demo_server empty_db)"

lemma demo_fresh: "fresh_server no_extract demo_state (demo_server empty_db)"
  by (simp add: fresh_server_def demo_sig_ok)

lemma demo_open_ok: "sv_ok demo_state empty_db (Suc 0) demo_open"
  unfolding demo_open_def by (rule fresh_reaches[OF demo_fresh]) simp

lemma demo_open_facts:
  "calm_world (sv_world demo_open)" "run_open ''acme'' ''loan'' (sdb demo_open)" "valid_id ''loan''"
proof -
  show "run_open ''acme'' ''loan'' (sdb demo_open)"
    by (simp add: demo_open_def demo_created run_open_def run_of_open_run demo_new_def run_row_of_def)
  show "valid_id ''loan''" by (simp add: valid_id_def id_char_def)
  show "calm_world (sv_world demo_open)"
    by (simp add: demo_open_def serve_all_def h_create_run_def publish_head_def incr_def spine_def
        demo_codec_def sqlite_calls[OF demo_state_simps(2)] on_store_def call_quiet case_prod_unfold
        calm_world_def Let_def demo_server_def demo_world_def
        split: sum.split list.split option.split)
qed

theorem completed_run_is_checkpointed_witness:
  "run_sealed ''acme'' ''loan'' (sdb (snd (h_complete_run demo_state ''loan'' demo_headers demo_open))) \<and>
   head_checkpointed demo_state (calm 9) ''acme'' ''loan'' (snd (h_complete_run demo_state ''loan'' demo_headers demo_open))"
  using completed_run_is_checkpointed[OF demo_fresh, of "[CreateRun demo_headers ''run'']" demo_headers
      "''acme''" "''loan''" _ _ "calm 9"]
    complete_run_succeeds[OF demo_state_simps(1) demo_open_ok demo_open_facts(1) demo_authorize
      demo_open_facts(3,2)]
  by (simp add: demo_open_def[symmetric] prod_eq_iff)

theorem every_checkpoint_holds_witness:
  "\<exists>cp. cp_holds prefix_sha demo_sig (ed_public demo_sig (kr_key demo_keys))
     (record_of demo_json ''acme'' ''loan'' (sdb (snd (h_complete_run demo_state ''loan'' demo_headers demo_open)))) cp"
proof -
  let ?sv = "snd (h_complete_run demo_state ''loan'' demo_headers demo_open)"
  let ?reqs = "[CreateRun demo_headers ''run'', CompleteRun ''loan'' demo_headers]"
  have sv: "serve_all demo_state ?reqs (demo_server empty_db) = ?sv"
    by (simp add: demo_open_def serve_all_def)
  have "sig_ok (tl_sig demo_state)" by (simp add: demo_sig_ok)
  then have "head_checkpointed demo_state (calm 9) ''acme'' ''loan'' ?sv"
    using complete_run_head[OF demo_state_simps(1) demo_open_ok _ quiet_calm demo_authorize]
      complete_run_succeeds[OF demo_state_simps(1) demo_open_ok demo_open_facts(1) demo_authorize
        demo_open_facts(3,2)] by (metis prod.collapse)
  then obtain cp d where "latest_checkpoint ''acme'' ''loan'' (calm 9) (sdb ?sv) = (Inr (Some cp), d)"
    by (auto simp: head_checkpointed_def split: prod.splits sum.splits option.splits)
  with every_checkpoint_holds[of no_extract demo_state "demo_server empty_db" ?reqs "[]" "''acme''" "''loan''"
      "calm 9" cp d] show ?thesis
    unfolding append_Nil2 sv by (intro exI[of _ cp]) (simp add: demo_sig_ok)
qed




definition demo_gate_server :: "db server" where
  "demo_gate_server = (demo_server demo_db)\<lparr>sv_world := demo_gate_world\<rparr>"

lemma demo_gate_server_ok: "sv_ok demo_state empty_db (Suc 0) demo_gate_server"
proof -
  have "w_ok demo_state empty_db (Suc (Suc 0)) (demo_world demo_db)"
    using server_ok_less[OF demo_server_ok, of "Suc (Suc 0)"] by (simp add: w_ok_def)
  from request_ok[OF demo_state_simps(2) this, of "''acme''" "''loan''" "''approve_loan''" 5]
  show ?thesis
    by (simp add: sv_ok_world demo_gate_server_def demo_gate_world_def demo_state_def)
qed

theorem attested_means_authenticated_witness:
  "rs_status (fst (h_resolve_approval demo_state ''loan'' 2 demo_headers ''approved'' demo_gate_server)) = 200"
proof -
  have g: "g_seq (requested 2 ''approve_loan'' 5) = 2" "g_state (requested 2 ''approve_loan'' 5) = Pending"
    by (simp_all add: requested_def)
  have facts: "calm_world (sv_world demo_gate_server)" "run_open ''acme'' ''loan'' (sdb demo_gate_server)"
    "length (srecord demo_state ''acme'' ''loan'' demo_gate_server) \<le> 5000"
    "requested 2 ''approve_loan'' 5 \<in> set (run_gates (tl_json demo_state) ''acme'' ''loan'' (sdb demo_gate_server))"
    using demo_gate_facts by (simp_all add: demo_gate_server_def sdb_def srecord_def)
  have dec: "de_resolve_approval (tl_codec demo_state) ''approved''
      = Some \<lparr>ra_decision = ''approved'', ra_reviewer = Some ''ann'', ra_note = None\<rparr>"
    by (simp add: demo_codec_def)
  show ?thesis
    using attested_means_authenticated[OF demo_state_simps(1) demo_gate_server_ok facts(1) demo_authorize
        demo_open_facts(3) dec _ _ facts(2-4) g(2), of Approved] g(1)
    by (simp add: decision_parse_def prod_eq_iff)
qed

end
