(* ===== verification/Stream_Core.thy ===== *)
theory Stream_Core
  imports Prelude
begin

text \<open>
  One stream of the spine, \<open>crates/tideline-server/src/stream.rs\<close> and \<open>token.rs\<close>: a bounded
  buffer of tokens with their offsets, a terminal state, and a broadcast channel. The channel
  is tokio's and is modelled by what its documentation promises: a receiver gets every value
  sent after it subscribed, in order, but one that is more than the channel's capacity behind
  is told it lagged. So a channel is the list of all values sent, and a receiver a position in
  it. \<open>Instant\<close>s are milliseconds and are passed in.
\<close>

record token =
  tk_offset :: u64
  tk_data :: string

datatype signal = TokenSig token | Gap | ErrorSig string | Done

record inner =
  in_tokens :: "token list"
  in_next_offset :: u64
  in_complete :: bool
  in_error :: "string option"
  in_completed_at :: "nat option"
  in_last_activity :: nat
  in_max_buffer :: nat

record stream =
  sm_inner :: inner
  sm_sent :: "signal list"
  sm_subscribers :: u64
  sm_created_at :: nat
  sm_private :: bool

record snapshot =
  sn_tokens :: "token list"
  sn_complete :: bool
  sn_error :: "string option"
  sn_total :: u64
  sn_gap :: bool

definition DEFAULT_MAX_BUFFER :: nat where
  "DEFAULT_MAX_BUFFER = 65536"

definition CHANNEL_CAPACITY :: nat where
  "CHANNEL_CAPACITY = 1024"

section \<open>Operations\<close>

definition with_capacity :: "nat \<Rightarrow> nat \<Rightarrow> stream" where
  "with_capacity now max_buffer =
     \<lparr>sm_inner = \<lparr>in_tokens = [], in_next_offset = 0, in_complete = False, in_error = None,
        in_completed_at = None, in_last_activity = now, in_max_buffer = max max_buffer 1\<rparr>,
      sm_sent = [], sm_subscribers = 0, sm_created_at = now, sm_private = False\<rparr>"

text \<open>\<open>while tokens.len() > max { tokens.pop_front(); }\<close>\<close>

fun pop_excess :: "nat \<Rightarrow> 'a list \<Rightarrow> 'a list" where
  "pop_excess m [] = []"
| "pop_excess m (x # xs) = (if m < length (x # xs) then pop_excess m xs else x # xs)"

definition send :: "signal \<Rightarrow> stream \<Rightarrow> stream" where
  "send s st = st\<lparr>sm_sent := sm_sent st @ [s]\<rparr>"

definition stream_publish :: "nat \<Rightarrow> string \<Rightarrow> stream \<Rightarrow> u64 \<times> stream" where
  "stream_publish now data st =
     (let i = sm_inner st;
          offset = in_next_offset i;
          token = \<lparr>tk_offset = offset, tk_data = data\<rparr>;
          i = i\<lparr>in_last_activity := now, in_next_offset := offset + 1,
                in_tokens := pop_excess (in_max_buffer i) (in_tokens i @ [token])\<rparr>
      in (offset, send (TokenSig token) (st\<lparr>sm_inner := i\<rparr>)))"

definition stream_complete :: "nat \<Rightarrow> stream \<Rightarrow> stream" where
  "stream_complete now st =
     (let i = (sm_inner st)\<lparr>in_last_activity := now\<rparr>
      in if \<not> in_complete i \<and> in_error i = None
         then send Done (st\<lparr>sm_inner := i\<lparr>in_complete := True, in_completed_at := Some now\<rparr>\<rparr>)
         else st\<lparr>sm_inner := i\<rparr>)"

definition stream_fail :: "nat \<Rightarrow> string \<Rightarrow> stream \<Rightarrow> stream" where
  "stream_fail now message st =
     (let i = (sm_inner st)\<lparr>in_last_activity := now\<rparr>
      in if \<not> in_complete i \<and> in_error i = None
         then send (ErrorSig message)
                (st\<lparr>sm_inner := i\<lparr>in_error := Some message, in_completed_at := Some now\<rparr>\<rparr>)
         else st\<lparr>sm_inner := i\<rparr>)"

definition touch :: "nat \<Rightarrow> stream \<Rightarrow> stream" where
  "touch now st = st\<lparr>sm_inner := (sm_inner st)\<lparr>in_last_activity := now\<rparr>\<rparr>"

definition earliest_retained :: "inner \<Rightarrow> u64" where
  "earliest_retained i = (case in_tokens i of [] \<Rightarrow> in_next_offset i | t # _ \<Rightarrow> tk_offset t)"

definition snapshot_from :: "u64 \<Rightarrow> stream \<Rightarrow> snapshot" where
  "snapshot_from start st =
     (let i = sm_inner st;
          earliest = earliest_retained i;
          eff = max start earliest
      in \<lparr>sn_tokens = filter (\<lambda>t. eff \<le> tk_offset t) (in_tokens i), sn_complete = in_complete i,
          sn_error = in_error i, sn_total = in_next_offset i, sn_gap = (start < earliest)\<rparr>)"

definition is_terminal :: "stream \<Rightarrow> bool" where
  "is_terminal st \<longleftrightarrow> in_complete (sm_inner st) \<or> in_error (sm_inner st) \<noteq> None"

definition set_private :: "stream \<Rightarrow> stream" where
  "set_private st = st\<lparr>sm_private := True\<rparr>"

section \<open>Reading a stream\<close>

text \<open>
  \<open>read_stream\<close> is a generator. Its states: not yet polled; subscribed to the channel, from a
  position, before its snapshot; replaying the signals of the snapshot, of which the flag says
  that a terminal one ends it; receiving from the channel; and ended.
\<close>

datatype reader =
  Unpolled u64
| Subscribed u64 nat
| Replaying "signal list" bool nat u64
| Receiving "signal list" nat u64
| Ended

definition replay_of :: "snapshot \<Rightarrow> signal list \<times> bool" where
  "replay_of snap =
     (let head = (if sn_gap snap then [Gap] else []) @ map TokenSig (sn_tokens snap)
      in case sn_error snap of
           Some e \<Rightarrow> (head @ [ErrorSig e, Done], True)
         | None \<Rightarrow> if sn_complete snap then (head @ [Done], True) else (head, False))"

datatype received = Value signal | Lagged | Empty

text \<open>\<open>rx.recv()\<close> at a position of the channel; \<open>Empty\<close> waits.\<close>

definition recv :: "signal list \<Rightarrow> nat \<Rightarrow> received" where
  "recv sent pos =
     (if length sent \<le> pos then Empty
      else if CHANNEL_CAPACITY < length sent - pos then Lagged
      else Value (sent ! pos))"

text \<open>
  One step of the generator against the stream: the signal it yields, if it yields one, and
  its next state; \<open>None\<close> when it waits or has ended. A value received that yields several
  signals or none passes through \<open>Receiving\<close> with those still to be yielded.
\<close>

fun reader_step :: "stream \<Rightarrow> reader \<Rightarrow> (signal option \<times> reader) option" where
  "reader_step st (Unpolled start) = Some (None, Subscribed start (length (sm_sent st)))"
| "reader_step st (Subscribed start pos) =
     (let snap = snapshot_from start st; (sigs, ended) = replay_of snap
      in Some (None, Replaying sigs ended pos (sn_total snap)))"
| "reader_step st (Replaying (s # sigs) ended pos bound) = Some (Some s, Replaying sigs ended pos bound)"
| "reader_step st (Replaying [] ended pos bound) =
     Some (None, if ended then Ended else Receiving [] pos bound)"
| "reader_step st (Receiving (s # sigs) pos bound) =
     Some (Some s, if s = Done then Ended else Receiving sigs pos bound)"
| "reader_step st (Receiving [] pos bound) =
     (case recv (sm_sent st) pos of
        Empty \<Rightarrow> None
      | Lagged \<Rightarrow> Some (None, Ended)
      | Value (TokenSig t) \<Rightarrow>
          if bound \<le> tk_offset t then Some (None, Receiving [TokenSig t] (Suc pos) bound)
          else Some (None, Receiving [] (Suc pos) bound)
      | Value (ErrorSig e) \<Rightarrow> Some (None, Receiving [ErrorSig e, Done] (Suc pos) bound)
      | Value Done \<Rightarrow> Some (None, Receiving [Done] (Suc pos) bound)
      | Value Gap \<Rightarrow> Some (None, Receiving [] (Suc pos) bound))"
| "reader_step st Ended = None"

text \<open>
  A poll also keeps the subscriber count: the guard is created at the first poll and dropped
  with the generator, whether it ended or its connection went away.
\<close>

definition poll :: "stream \<Rightarrow> reader \<Rightarrow> (signal option \<times> reader \<times> stream) option" where
  "poll st rd =
     (case reader_step st rd of
        None \<Rightarrow> None
      | Some (out, rd') \<Rightarrow> Some (out, rd',
          (case rd of Unpolled _ \<Rightarrow> st\<lparr>sm_subscribers := sm_subscribers st + 1\<rparr>
           | _ \<Rightarrow> if rd' = Ended then st\<lparr>sm_subscribers := sm_subscribers st - 1\<rparr> else st)))"

definition drop_reader :: "reader \<Rightarrow> stream \<Rightarrow> stream" where
  "drop_reader rd st =
     (case rd of Unpolled _ \<Rightarrow> st | Ended \<Rightarrow> st
      | _ \<Rightarrow> st\<lparr>sm_subscribers := sm_subscribers st - 1\<rparr>)"

section \<open>The stream invariant\<close>

text \<open>The tokens of a history of data, from an offset, and the offsets they take.\<close>

definition token_at :: "string list \<Rightarrow> nat \<Rightarrow> token" where
  "token_at hist k = \<lparr>tk_offset = of_nat k, tk_data = hist ! k\<rparr>"

definition tokens_between :: "string list \<Rightarrow> nat \<Rightarrow> nat \<Rightarrow> token list" where
  "tokens_between hist a b = map (token_at hist) [a..<b]"

lemma pop_excess_drop: "pop_excess m xs = drop (length xs - m) xs"
proof (induction xs)
  case (Cons x xs)
  show ?case
  proof (cases "m < length (x # xs)")
    case True
    then have "length (x # xs) - m = Suc (length xs - m)" by simp
    with Cons True show ?thesis by simp
  qed simp
qed simp

lemma tokens_between_Suc: "a \<le> b \<Longrightarrow> tokens_between hist a (Suc b) = tokens_between hist a b @ [token_at hist b]"
  by (simp add: tokens_between_def)

lemma tokens_between_simps [simp]:
  "length (tokens_between hist a b) = b - a" "tokens_between hist a a = []"
  "drop n (tokens_between hist a b) = tokens_between hist (a + n) b"
  by (simp_all add: tokens_between_def drop_map)

lemma tokens_between_mono: "b \<le> length hist \<Longrightarrow> tokens_between (hist @ [d]) a b = tokens_between hist a b"
  by (auto simp: tokens_between_def token_at_def nth_append)

definition tokens_sent :: "signal list \<Rightarrow> token list" where
  "tokens_sent sigs = concat (map (\<lambda>s. case s of TokenSig t \<Rightarrow> [t] | _ \<Rightarrow> []) sigs)"

lemma tokens_sent_simps [simp]:
  "tokens_sent [] = []" "tokens_sent (TokenSig t # s) = t # tokens_sent s"
  "tokens_sent (Gap # s) = tokens_sent s" "tokens_sent (ErrorSig e # s) = tokens_sent s"
  "tokens_sent (Done # s) = tokens_sent s"
  "tokens_sent (xs @ ys) = tokens_sent xs @ tokens_sent ys"
  "tokens_sent (map TokenSig ts) = ts"
  by (simp_all add: tokens_sent_def comp_def)

definition terminals :: "signal list \<Rightarrow> signal list" where
  "terminals sigs = filter (\<lambda>s. case s of TokenSig t \<Rightarrow> False | _ \<Rightarrow> True) sigs"

definition terminal_of :: "inner \<Rightarrow> signal list" where
  "terminal_of i = (case in_error i of Some e \<Rightarrow> [ErrorSig e] | None \<Rightarrow> if in_complete i then [Done] else [])"

text \<open>
  A stream with the history \<open>hist\<close> of published data: the next offset is its length, the buffer
  its last \<open>max_buffer\<close> tokens, the channel has carried all its tokens in order, and at most
  one terminal signal, the one of its state.
\<close>

definition stream_ok :: "string list \<Rightarrow> stream \<Rightarrow> bool" where
  "stream_ok hist st \<longleftrightarrow>
     (let i = sm_inner st in
        0 < in_max_buffer i \<and> in_next_offset i = of_nat (length hist) \<and>
        in_tokens i = tokens_between hist (length hist - in_max_buffer i) (length hist) \<and>
        tokens_sent (sm_sent st) = tokens_between hist 0 (length hist) \<and>
        terminals (sm_sent st) = terminal_of i \<and>
        (in_complete i \<longrightarrow> in_error i = None))"

lemma terminals_simps [simp]:
  "terminals [] = []" "terminals (xs @ ys) = terminals xs @ terminals ys"
  "terminals [TokenSig t] = []" "terminals [ErrorSig e] = [ErrorSig e]" "terminals [Done] = [Done]"
  by (simp_all add: terminals_def)

lemma stream_ok_new: "stream_ok [] (with_capacity now m)"
  by (simp add: stream_ok_def with_capacity_def tokens_between_def terminal_of_def)

lemma tokens_append:
  "tokens_between (hist @ [d]) a (Suc (length hist))
     = (if a \<le> length hist then tokens_between hist a (length hist) @ [\<lparr>tk_offset = of_nat (length hist), tk_data = d\<rparr>]
        else [])"
  by (simp add: tokens_between_Suc tokens_between_mono token_at_def) (simp add: tokens_between_def)

lemma stream_ok_publish:
  assumes "stream_ok hist st"
  shows "stream_ok (hist @ [d]) (snd (stream_publish now d st))"
    and "fst (stream_publish now d st) = of_nat (length hist)"
proof -
  let ?i = "sm_inner st" and ?n = "length hist"
  note ok = assms[unfolded stream_ok_def Let_def]
  have "pop_excess (in_max_buffer ?i) (in_tokens ?i @ [\<lparr>tk_offset = of_nat ?n, tk_data = d\<rparr>])
    = tokens_between (hist @ [d]) (Suc ?n - in_max_buffer ?i) (Suc ?n)"
  proof -
    have "in_tokens ?i @ [\<lparr>tk_offset = of_nat ?n, tk_data = d\<rparr>]
      = tokens_between (hist @ [d]) (?n - in_max_buffer ?i) (Suc ?n)"
      using ok by (simp add: tokens_append)
    moreover have "n - m + (Suc n - (n - m + m)) = Suc n - m" for n m :: nat by simp
    ultimately show ?thesis
      using ok by (simp add: pop_excess_drop)
  qed
  then show "stream_ok (hist @ [d]) (snd (stream_publish now d st))"
    using ok by (simp add: stream_ok_def stream_publish_def Let_def send_def tokens_append terminal_of_def)
  show "fst (stream_publish now d st) = of_nat ?n"
    using ok by (simp add: stream_publish_def Let_def)
qed

lemma stream_ok_end:
  "stream_ok hist st \<Longrightarrow> stream_ok hist (stream_complete now st)"
  "stream_ok hist st \<Longrightarrow> stream_ok hist (stream_fail now m st)"
  "stream_ok hist st \<Longrightarrow> stream_ok hist (touch now st)"
  "stream_ok hist st \<Longrightarrow> stream_ok hist (set_private st)"
  by (auto simp: stream_ok_def stream_complete_def stream_fail_def touch_def set_private_def Let_def
      send_def terminal_of_def)

end
