(* ===== verification/Manager.thy ===== *)
theory Manager
  imports Stream_Core "HOL-Library.Multiset"
begin

text \<open>
  The registry of live streams, \<open>crates/tideline-server/src/manager.rs\<close>, and the in-memory
  backend over it, \<open>backend.rs\<close>. An \<open>Arc<Stream>\<close> is an address of a heap of streams, so that a
  reader keeps its stream when the registry drops it. The \<open>HashMap\<close> is an association list of
  addresses; the order in which it is iterated is unspecified, so it is a parameter \<open>ord\<close>, any
  permutation of the entries. One call reads the clock once.
\<close>

record manager_config =
  mc_max_streams :: nat
  mc_idle_ttl :: nat
  mc_completed_ttl :: nat
  mc_max_buffer :: nat
  mc_max_subscribers :: u64

definition default_config :: manager_config where
  "default_config = \<lparr>mc_max_streams = 50000, mc_idle_ttl = 30 * 60 * 1000,
     mc_completed_ttl = 5 * 60 * 1000, mc_max_buffer = 65536, mc_max_subscribers = 50000\<rparr>"

record mgr_metrics =
  mm_streams_created :: u64
  mm_tokens_published :: u64
  mm_gaps_served :: u64
  mm_reaped :: u64

record metrics_snapshot =
  ms_active_streams :: u64
  ms_active_subscribers :: u64
  ms_buffered_tokens :: u64
  ms_metrics :: mgr_metrics

record manager =
  mg_streams :: "(string \<times> nat) list"
  mg_heap :: "nat \<Rightarrow> stream"
  mg_next :: nat
  mg_cfg :: manager_config
  mg_metrics :: mgr_metrics

type_synonym order = "(string \<times> nat) list \<Rightarrow> (string \<times> nat) list"

definition with_config :: "manager_config \<Rightarrow> manager" where
  "with_config cfg = \<lparr>mg_streams = [], mg_heap = (\<lambda>_. with_capacity 0 (mc_max_buffer cfg)), mg_next = 0,
     mg_cfg = cfg, mg_metrics = \<lparr>mm_streams_created = 0, mm_tokens_published = 0, mm_gaps_served = 0,
       mm_reaped = 0\<rparr>\<rparr>"

section \<open>Operations\<close>

definition stream_at :: "nat \<Rightarrow> manager \<Rightarrow> stream" where
  "stream_at a mg = mg_heap mg a"

definition put_stream :: "nat \<Rightarrow> stream \<Rightarrow> manager \<Rightarrow> manager" where
  "put_stream a s mg = mg\<lparr>mg_heap := (mg_heap mg)(a := s)\<rparr>"

definition count_metric :: "((u64 \<Rightarrow> u64) \<Rightarrow> mgr_metrics \<Rightarrow> mgr_metrics) \<Rightarrow> nat \<Rightarrow> manager \<Rightarrow> manager" where
  "count_metric upd n mg = mg\<lparr>mg_metrics := upd (\<lambda>k. k + of_nat n) (mg_metrics mg)\<rparr>"

definition last_activity :: "manager \<Rightarrow> nat \<Rightarrow> nat" where
  "last_activity mg a = in_last_activity (sm_inner (stream_at a mg))"

definition remove_key :: "string \<Rightarrow> (string \<times> nat) list \<Rightarrow> (string \<times> nat) list" where
  "remove_key k m = filter (\<lambda>e. fst e \<noteq> k) m"

definition evict_lru :: "order \<Rightarrow> manager \<Rightarrow> manager" where
  "evict_lru ord mg =
     (case ord (mg_streams mg) of
        [] \<Rightarrow> mg
      | es \<Rightarrow> (let oldest = fst (arg_min_list (\<lambda>e. last_activity mg (snd e)) es)
               in count_metric mm_reaped_update 1
                    (mg\<lparr>mg_streams := remove_key oldest (mg_streams mg)\<rparr>)))"

definition mgr_get :: "string \<Rightarrow> manager \<Rightarrow> nat option" where
  "mgr_get k mg = map_of (mg_streams mg) k"

definition get_or_create :: "order \<Rightarrow> nat \<Rightarrow> string \<Rightarrow> manager \<Rightarrow> nat \<times> manager" where
  "get_or_create ord now k mg =
     (case mgr_get k mg of
        Some a \<Rightarrow> (a, put_stream a (touch now (stream_at a mg)) mg)
      | None \<Rightarrow>
          (let mg = (if mc_max_streams (mg_cfg mg) \<le> length (mg_streams mg) then evict_lru ord mg else mg);
               a = mg_next mg;
               mg = put_stream a (with_capacity now (mc_max_buffer (mg_cfg mg))) mg;
               mg = mg\<lparr>mg_streams := (k, a) # mg_streams mg, mg_next := Suc a\<rparr>
           in (a, count_metric mm_streams_created_update 1 mg)))"

definition mgr_delete :: "string \<Rightarrow> manager \<Rightarrow> bool \<times> manager" where
  "mgr_delete k mg = (mgr_get k mg \<noteq> None, mg\<lparr>mg_streams := remove_key k (mg_streams mg)\<rparr>)"

definition mgr_len :: "manager \<Rightarrow> nat" where
  "mgr_len mg = length (mg_streams mg)"

definition incr_published :: "manager \<Rightarrow> manager" where
  "incr_published = count_metric mm_tokens_published_update 1"

definition incr_gaps :: "manager \<Rightarrow> manager" where
  "incr_gaps = count_metric mm_gaps_served_update 1"

text \<open>\<open>duration_since\<close> saturates at zero, as subtraction on \<open>nat\<close> does.\<close>

definition expired :: "nat \<Rightarrow> manager \<Rightarrow> nat \<Rightarrow> bool" where
  "expired now mg a =
     (let i = sm_inner (stream_at a mg);
          idle = mc_idle_ttl (mg_cfg mg) < now - in_last_activity i;
          done = (case in_completed_at i of None \<Rightarrow> False | Some t \<Rightarrow> mc_completed_ttl (mg_cfg mg) < now - t)
      in idle \<or> done)"

definition reap :: "order \<Rightarrow> nat \<Rightarrow> manager \<Rightarrow> nat \<times> manager" where
  "reap ord now mg =
     (let dead = map fst (filter (\<lambda>e. expired now mg (snd e)) (ord (mg_streams mg)));
          mg = mg\<lparr>mg_streams := fold remove_key dead (mg_streams mg)\<rparr>;
          n = length dead
      in (n, count_metric mm_reaped_update n mg))"

definition snapshot_metrics :: "order \<Rightarrow> manager \<Rightarrow> metrics_snapshot" where
  "snapshot_metrics ord mg =
     (let streams = map (\<lambda>e. stream_at (snd e) mg) (ord (mg_streams mg))
      in \<lparr>ms_active_streams = of_nat (length (mg_streams mg)),
          ms_active_subscribers = sum_list (map sm_subscribers streams),
          ms_buffered_tokens = sum_list (map (\<lambda>s. of_nat (length (in_tokens (sm_inner s)))) streams),
          ms_metrics = mg_metrics mg\<rparr>)"

section \<open>The in-memory backend\<close>

definition mb_on :: "order \<Rightarrow> nat \<Rightarrow> string \<Rightarrow> (stream \<Rightarrow> 'r \<times> stream) \<Rightarrow> manager \<Rightarrow> 'r \<times> manager" where
  "mb_on ord now k f mg =
     (let (a, mg) = get_or_create ord now k mg; (r, s) = f (stream_at a mg) in (r, put_stream a s mg))"

definition mb_publish :: "order \<Rightarrow> nat \<Rightarrow> string \<Rightarrow> string \<Rightarrow> manager \<Rightarrow> u64 \<times> manager" where
  "mb_publish ord now k data mg =
     (let (offset, mg) = mb_on ord now k (stream_publish now data) mg in (offset, incr_published mg))"

definition mb_complete :: "order \<Rightarrow> nat \<Rightarrow> string \<Rightarrow> manager \<Rightarrow> manager" where
  "mb_complete ord now k mg = snd (mb_on ord now k (\<lambda>s. ((), stream_complete now s)) mg)"

definition mb_fail :: "order \<Rightarrow> nat \<Rightarrow> string \<Rightarrow> string \<Rightarrow> manager \<Rightarrow> manager" where
  "mb_fail ord now k message mg = snd (mb_on ord now k (\<lambda>s. ((), stream_fail now message s)) mg)"

definition mb_set_private :: "order \<Rightarrow> nat \<Rightarrow> string \<Rightarrow> manager \<Rightarrow> manager" where
  "mb_set_private ord now k mg = snd (mb_on ord now k (\<lambda>s. ((), set_private s)) mg)"

definition mb_is_private :: "string \<Rightarrow> manager \<Rightarrow> bool" where
  "mb_is_private k mg = (case mgr_get k mg of None \<Rightarrow> False | Some a \<Rightarrow> sm_private (stream_at a mg))"

definition mb_subscriber_count :: "string \<Rightarrow> manager \<Rightarrow> u64" where
  "mb_subscriber_count k mg = (case mgr_get k mg of None \<Rightarrow> 0 | Some a \<Rightarrow> sm_subscribers (stream_at a mg))"

text \<open>A subscription is a generator over the stream it was handed.\<close>

definition mb_subscribe :: "order \<Rightarrow> nat \<Rightarrow> string \<Rightarrow> u64 \<Rightarrow> manager \<Rightarrow> (nat \<times> reader) \<times> manager" where
  "mb_subscribe ord now k start mg =
     (let (a, mg) = get_or_create ord now k mg in ((a, Unpolled start), mg))"

definition mb_poll :: "nat \<times> reader \<Rightarrow> manager \<Rightarrow> (signal option \<times> (nat \<times> reader) \<times> manager) option" where
  "mb_poll sub mg =
     (case sub of (a, rd) \<Rightarrow>
        (case poll (stream_at a mg) rd of
           None \<Rightarrow> None
         | Some (out, rd', s) \<Rightarrow> Some (out, (a, rd'), put_stream a s mg)))"

text \<open>A connection that goes away drops its generator.\<close>

definition mb_drop :: "nat \<times> reader \<Rightarrow> manager \<Rightarrow> manager" where
  "mb_drop sub mg = (case sub of (a, rd) \<Rightarrow> put_stream a (drop_reader rd (stream_at a mg)) mg)"

section \<open>Any sequence of calls\<close>

datatype mgr_op =
  MPublish nat string string
| MComplete nat string
| MFail nat string string
| MSetPrivate nat string
| MSubscribe nat string u64
| MPoll "nat \<times> reader"
| MDrop "nat \<times> reader"
| MDelete string
| MReap nat
| MGap

fun apply_mgr :: "order \<Rightarrow> mgr_op \<Rightarrow> manager \<Rightarrow> manager" where
  "apply_mgr ord (MPublish now k d) mg = snd (mb_publish ord now k d mg)"
| "apply_mgr ord (MComplete now k) mg = mb_complete ord now k mg"
| "apply_mgr ord (MFail now k m) mg = mb_fail ord now k m mg"
| "apply_mgr ord (MSetPrivate now k) mg = mb_set_private ord now k mg"
| "apply_mgr ord (MSubscribe now k start) mg = snd (mb_subscribe ord now k start mg)"
| "apply_mgr ord (MPoll sub) mg = (case mb_poll sub mg of None \<Rightarrow> mg | Some (_, _, mg') \<Rightarrow> mg')"
| "apply_mgr ord (MDrop sub) mg = mb_drop sub mg"
| "apply_mgr ord (MDelete k) mg = snd (mgr_delete k mg)"
| "apply_mgr ord (MReap now) mg = snd (reap ord now mg)"
| "apply_mgr ord MGap mg = incr_gaps mg"

text \<open>How many streams an operation deletes.\<close>

fun deletes :: "mgr_op \<Rightarrow> manager \<Rightarrow> nat" where
  "deletes (MDelete k) mg = (if fst (mgr_delete k mg) then 1 else 0)"
| "deletes _ mg = 0"

fun run_mgr :: "order \<Rightarrow> mgr_op list \<Rightarrow> manager \<times> nat \<Rightarrow> manager \<times> nat" where
  "run_mgr ord [] (mg, n) = (mg, n)"
| "run_mgr ord (op # ops) (mg, n) = run_mgr ord ops (apply_mgr ord op mg, n + deletes op mg)"

text \<open>An iteration visits every entry once, in some order.\<close>

definition order_ok :: "order \<Rightarrow> bool" where
  "order_ok ord \<longleftrightarrow> (\<forall>m. mset (ord m) = mset m)"

lemma order_okD:
  assumes "order_ok ord"
  shows "set (ord m) = set m" "length (ord m) = length m" "ord m = [] \<longleftrightarrow> m = []"
    "length (filter P (ord m)) = length (filter P m)"
proof -
  have eq: "mset (ord m) = mset m" using assms by (simp add: order_ok_def)
  show "set (ord m) = set m" by (metis eq set_mset_mset)
  show len: "length (ord m) = length m" by (metis eq size_mset)
  show "ord m = [] \<longleftrightarrow> m = []" using len by (metis length_0_conv)
  show "length (filter P (ord m)) = length (filter P m)" by (metis eq mset_filter size_mset)
qed

section \<open>The registry's invariant\<close>

definition registry_ok :: "nat \<Rightarrow> manager \<Rightarrow> bool" where
  "registry_ok deleted mg \<longleftrightarrow>
     distinct (map fst (mg_streams mg)) \<and> distinct (map snd (mg_streams mg)) \<and>
     (\<forall>e \<in> set (mg_streams mg). snd e < mg_next mg) \<and>
     length (mg_streams mg) \<le> max 1 (mc_max_streams (mg_cfg mg)) \<and>
     mm_streams_created (mg_metrics mg)
       = of_nat (length (mg_streams mg)) + mm_reaped (mg_metrics mg) + of_nat deleted"

lemma registry_ok_frame [simp]:
  "registry_ok n (put_stream a s mg) = registry_ok n mg"
  "registry_ok n (incr_published mg) = registry_ok n mg" "registry_ok n (incr_gaps mg) = registry_ok n mg"
  by (simp_all add: registry_ok_def put_stream_def incr_published_def incr_gaps_def count_metric_def)

lemma remove_key_absent: "k \<notin> fst ` set m \<Longrightarrow> remove_key k m = m"
  by (force simp: remove_key_def filter_id_conv)

lemma remove_key_length:
  assumes "distinct (map fst m)" and "k \<in> fst ` set m"
  shows "Suc (length (remove_key k m)) = length m"
  using assms
proof (induction m)
  case (Cons e m)
  show ?case
  proof (cases "fst e = k")
    case True
    with Cons.prems(1) have "remove_key k m = m" by (intro remove_key_absent) simp
    with True show ?thesis by (simp add: remove_key_def)
  next
    case False
    with Cons show ?thesis by (auto simp: remove_key_def)
  qed
qed simp

lemma remove_key_distinct:
  "distinct (map f m) \<Longrightarrow> distinct (map f (remove_key k m))"
  by (auto simp: remove_key_def intro: distinct_map_filter)

lemma set_remove_key: "set (remove_key k m) = {e \<in> set m. fst e \<noteq> k}"
  by (auto simp: remove_key_def)

lemma mgr_get_None: "mgr_get k mg = None \<longleftrightarrow> k \<notin> fst ` set (mg_streams mg)"
  by (simp add: mgr_get_def map_of_eq_None_iff)

text \<open>The victim of an eviction.\<close>

lemma evict_lru_spec:
  assumes "order_ok ord" and "mg_streams mg \<noteq> []"
  shows "\<exists>v \<in> set (mg_streams mg). (\<forall>e \<in> set (mg_streams mg). last_activity mg (snd v) \<le> last_activity mg (snd e)) \<and>
    evict_lru ord mg = count_metric mm_reaped_update 1 (mg\<lparr>mg_streams := remove_key (fst v) (mg_streams mg)\<rparr>)"
proof -
  let ?es = "ord (mg_streams mg)" and ?f = "\<lambda>e. last_activity mg (snd e)"
  have ne: "?es \<noteq> []" and set: "set ?es = set (mg_streams mg)" using assms order_okD by auto
  from ne have "arg_min_list ?f ?es \<in> set ?es" by (rule arg_min_list_in)
  moreover from ne have "\<forall>e \<in> set ?es. ?f (arg_min_list ?f ?es) \<le> ?f e"
    using f_arg_min_list_f[OF ne, of ?f] by simp
  moreover have "evict_lru ord mg = count_metric mm_reaped_update 1
      (mg\<lparr>mg_streams := remove_key (fst (arg_min_list ?f ?es)) (mg_streams mg)\<rparr>)"
    using ne by (simp add: evict_lru_def Let_def split: list.split)
  ultimately show ?thesis unfolding set by blast
qed

lemma evict_ok:
  assumes "order_ok ord" and "registry_ok n mg"
  shows "registry_ok n (evict_lru ord mg)"
    and "mc_max_streams (mg_cfg mg) \<le> length (mg_streams mg) \<Longrightarrow>
      length (mg_streams (evict_lru ord mg)) < max 1 (mc_max_streams (mg_cfg mg))"
    and "set (mg_streams (evict_lru ord mg)) \<subseteq> set (mg_streams mg)"
    and "mg_next (evict_lru ord mg) = mg_next mg" "mg_cfg (evict_lru ord mg) = mg_cfg mg"
proof -
  note ok = assms(2)[unfolded registry_ok_def]
  show "mg_next (evict_lru ord mg) = mg_next mg" "mg_cfg (evict_lru ord mg) = mg_cfg mg"
    by (simp_all add: evict_lru_def Let_def count_metric_def split: list.split)
  consider (empty) "mg_streams mg = []" | (some) "mg_streams mg \<noteq> []" by blast
  then have "registry_ok n (evict_lru ord mg) \<and>
    (mc_max_streams (mg_cfg mg) \<le> length (mg_streams mg) \<longrightarrow>
      length (mg_streams (evict_lru ord mg)) < max 1 (mc_max_streams (mg_cfg mg))) \<and>
    set (mg_streams (evict_lru ord mg)) \<subseteq> set (mg_streams mg)"
  proof cases
    case empty
    then have "evict_lru ord mg = mg" using order_okD(3)[OF assms(1), of "[]"] by (simp add: evict_lru_def)
    with assms(2) empty show ?thesis by auto
  next
    case some
    from evict_lru_spec[OF assms(1) some] obtain v where v: "v \<in> set (mg_streams mg)"
      and ev: "evict_lru ord mg = count_metric mm_reaped_update 1 (mg\<lparr>mg_streams := remove_key (fst v) (mg_streams mg)\<rparr>)"
      by blast
    have len: "length (mg_streams mg) = Suc (length (remove_key (fst v) (mg_streams mg)))"
      using remove_key_length ok v by fastforce
    show ?thesis
      unfolding ev using ok len
      by (auto simp: registry_ok_def count_metric_def remove_key_distinct set_remove_key)
  qed
  then show "registry_ok n (evict_lru ord mg)" "set (mg_streams (evict_lru ord mg)) \<subseteq> set (mg_streams mg)"
    "mc_max_streams (mg_cfg mg) \<le> length (mg_streams mg) \<Longrightarrow>
      length (mg_streams (evict_lru ord mg)) < max 1 (mc_max_streams (mg_cfg mg))" by blast+
qed

lemma get_or_create_ok:
  assumes "order_ok ord" and "registry_ok n mg"
  shows "registry_ok n (snd (get_or_create ord now k mg))"
proof (cases "mgr_get k mg")
  case None
  define mg1 where "mg1 = (if mc_max_streams (mg_cfg mg) \<le> length (mg_streams mg) then evict_lru ord mg else mg)"
  have ok1: "registry_ok n mg1" "length (mg_streams mg1) < max 1 (mc_max_streams (mg_cfg mg1))"
    "set (mg_streams mg1) \<subseteq> set (mg_streams mg)"
    using evict_ok[OF assms] assms(2) by (auto simp: mg1_def)
  have "k \<notin> fst ` set (mg_streams mg1)" using None ok1(3) by (auto simp: mgr_get_None)
  moreover have "snd (get_or_create ord now k mg) = count_metric mm_streams_created_update 1
      ((put_stream (mg_next mg1) (with_capacity now (mc_max_buffer (mg_cfg mg1))) mg1)
         \<lparr>mg_streams := (k, mg_next mg1) # mg_streams mg1, mg_next := Suc (mg_next mg1)\<rparr>)"
    using None by (simp add: get_or_create_def Let_def mg1_def[symmetric] put_stream_def)
  ultimately show ?thesis
    using ok1(1,2) by (force simp: registry_ok_def count_metric_def put_stream_def)
qed (use assms in \<open>simp add: get_or_create_def\<close>)

end
