(* ===== verification/Stream_Seam.thy ===== *)
theory Stream_Seam
  imports Stream_Core
begin

text \<open>
  A reader of a stream that is being written: \<open>reading\<close> interleaves the polls of one
  \<open>read_stream\<close> with any publishing, completing, failing and touching of the stream, including
  between the reader's subscription and its snapshot.
\<close>

inductive reading :: "u64 \<Rightarrow> string list \<Rightarrow> stream \<Rightarrow> reader \<Rightarrow> signal list \<Rightarrow> bool" for start where
  Start: "stream_ok hist st \<Longrightarrow> length hist < 2 ^ 64 \<Longrightarrow> reading start hist st (Unpolled start) []"
| Publish: "reading start hist st rd out \<Longrightarrow> Suc (length hist) < 2 ^ 64 \<Longrightarrow>
    reading start (hist @ [d]) (snd (stream_publish now d st)) rd out"
| Complete: "reading start hist st rd out \<Longrightarrow> reading start hist (stream_complete now st) rd out"
| Fail: "reading start hist st rd out \<Longrightarrow> reading start hist (stream_fail now m st) rd out"
| Touch: "reading start hist st rd out \<Longrightarrow> reading start hist (touch now st) rd out"
| Poll: "reading start hist st rd out \<Longrightarrow> poll st rd = Some (sig, rd', st') \<Longrightarrow>
    reading start hist st' rd' (out @ (case sig of None \<Rightarrow> [] | Some s \<Rightarrow> [s]))"

section \<open>What a reader has seen\<close>

definition read_upto :: "string list \<Rightarrow> signal list \<Rightarrow> nat \<Rightarrow> nat \<Rightarrow> bool" where
  "read_upto hist sent pos k \<longleftrightarrow> pos \<le> length sent \<and> k \<le> length hist \<and>
     tokens_sent (take pos sent) = tokens_between hist 0 k"

text \<open>
  The signals seen are the tokens from number \<open>first\<close> to before \<open>m\<close>, and a gap was announced
  exactly when tokens asked for are missing in front.
\<close>

definition seen :: "u64 \<Rightarrow> string list \<Rightarrow> nat \<Rightarrow> nat \<Rightarrow> signal list \<Rightarrow> bool" where
  "seen start hist first m sigs \<longleftrightarrow> first \<le> m \<and> m \<le> length hist \<and>
     tokens_sent sigs = tokens_between hist first m \<and> (Gap \<in> set sigs \<longleftrightarrow> unat start < first) \<and>
     Gap \<notin> set (tl sigs)"

lemma in_tl_append: "x \<in> set (tl (xs @ ys)) \<Longrightarrow> x \<in> set (tl xs) \<or> x \<in> set ys"
  by (cases xs; cases ys) auto

lemma tl_tokens [simp]: "Gap \<notin> set (tl (map TokenSig ts))"
  by (cases ts) auto

definition is_token :: "signal \<Rightarrow> bool" where
  "is_token s = (case s of TokenSig t \<Rightarrow> True | _ \<Rightarrow> False)"

text \<open>How many tokens were published before the stream ended.\<close>

definition final_len :: "signal list \<Rightarrow> nat" where
  "final_len sent = length (tokens_sent (takeWhile is_token sent))"

definition ended_by :: "signal list \<Rightarrow> nat \<Rightarrow> bool" where
  "ended_by sent m \<longleftrightarrow> \<not> list_all is_token sent \<and> final_len sent \<le> m"

fun reader_inv :: "u64 \<Rightarrow> string list \<Rightarrow> signal list \<Rightarrow> signal list \<Rightarrow> reader \<Rightarrow> bool" where
  "reader_inv start hist sent out (Unpolled s) \<longleftrightarrow> s = start \<and> out = []"
| "reader_inv start hist sent out (Subscribed s pos) \<longleftrightarrow> s = start \<and> out = [] \<and>
     (\<exists>k. read_upto hist sent pos k)"
| "reader_inv start hist sent out (Replaying sigs ended pos bound) \<longleftrightarrow>
     (\<exists>first k n. bound = of_nat n \<and> n \<le> length hist \<and> k \<le> n \<and> read_upto hist sent pos k \<and>
        seen start hist first n (out @ sigs) \<and>
        (Done \<in> set (out @ sigs) \<longrightarrow> ended_by sent n) \<and> (\<not> ended \<longrightarrow> Done \<notin> set (out @ sigs)) \<and>
        Done \<notin> set (butlast (out @ sigs)))"
| "reader_inv start hist sent out (Receiving sigs pos bound) \<longleftrightarrow>
     (\<exists>first k n. bound = of_nat n \<and> n \<le> length hist \<and> read_upto hist sent pos k \<and>
        seen start hist first (max n k) (out @ sigs) \<and>
        (Done \<in> set (out @ sigs) \<longrightarrow> ended_by sent (max n k)) \<and> Done \<notin> set (butlast sigs) \<and>
        Done \<notin> set out)"
| "reader_inv start hist sent out Ended \<longleftrightarrow>
     (\<exists>first m. seen start hist first m out \<and> (Done \<in> set out \<longrightarrow> ended_by sent m))"

lemma tokens_sent_not_token: "\<not> is_token x \<Longrightarrow> tokens_sent (x # xs) = tokens_sent xs"
  by (cases x) (simp_all add: is_token_def)

lemma is_token_simps [simp]:
  "is_token (TokenSig t)" "\<not> is_token Gap" "\<not> is_token Done" "\<not> is_token (ErrorSig e)"
  by (simp_all add: is_token_def)

lemma ended_by_append: "ended_by sent m \<Longrightarrow> ended_by (sent @ ys) m"
proof -
  assume "ended_by sent m"
  then have "\<exists>x \<in> set sent. \<not> is_token x" by (auto simp: ended_by_def list_all_iff)
  then have "takeWhile is_token (sent @ ys) = takeWhile is_token sent"
    by (auto intro: takeWhile_append1)
  with \<open>ended_by sent m\<close> show ?thesis by (auto simp: ended_by_def final_len_def)
qed

lemma read_upto_append: "read_upto hist sent pos k \<Longrightarrow> read_upto hist (sent @ ys) pos k"
  by (simp add: read_upto_def)

lemma read_upto_publish: "read_upto hist sent pos k \<Longrightarrow> read_upto (hist @ [d]) sent pos k"
  by (simp add: read_upto_def tokens_between_mono)

lemma seen_publish: "seen start hist first m sigs \<Longrightarrow> seen start (hist @ [d]) first m sigs"
  by (simp add: seen_def tokens_between_mono)

text \<open>The stream moving on does not disturb what a reader has seen.\<close>

lemma reader_inv_append:
  "reader_inv start hist sent out rd \<Longrightarrow> reader_inv start hist (sent @ ys) out rd"
  by (cases rd) (auto; blast intro: read_upto_append ended_by_append)+

lemma reader_inv_publish:
  "reader_inv start hist sent out rd \<Longrightarrow> reader_inv start (hist @ [d]) sent out rd"
  by (cases rd) (auto; blast intro: read_upto_publish seen_publish le_SucI)+

section \<open>A poll\<close>

lemma recv_Value: "recv sent pos = Value s \<longleftrightarrow> pos < length sent \<and> length sent - pos \<le> CHANNEL_CAPACITY \<and> s = sent ! pos"
  by (auto simp: recv_def)

lemma tokens_sent_take: "pos < length sent \<Longrightarrow> tokens_sent (take (Suc pos) sent)
    = tokens_sent (take pos sent) @ (case sent ! pos of TokenSig t \<Rightarrow> [t] | _ \<Rightarrow> [])"
  by (simp add: take_Suc_conv_app_nth split: signal.split)

lemma sent_token:
  assumes "tokens_sent sent = tokens_between hist 0 (length hist)" and "read_upto hist sent pos k"
    and "pos < length sent" and "sent ! pos = TokenSig t"
  shows "k < length hist" and "t = token_at hist k" and "read_upto hist sent (Suc pos) (Suc k)"
proof -
  have "tokens_sent sent = tokens_sent (take (Suc pos) sent) @ tokens_sent (drop (Suc pos) sent)"
    by (metis append_take_drop_id tokens_sent_simps(6))
  then have eq: "tokens_between hist 0 (length hist) = tokens_between hist 0 k @ t # tokens_sent (drop (Suc pos) sent)"
    using assms tokens_sent_take[OF assms(3)] by (simp add: read_upto_def)
  from arg_cong[OF eq, of length] show k: "k < length hist" by simp
  from arg_cong[OF eq, of "\<lambda>xs. xs ! k"] k show t: "t = token_at hist k"
    by (simp add: nth_append) (simp add: tokens_between_def)
  show "read_upto hist sent (Suc pos) (Suc k)"
    using assms(2-4) k tokens_sent_take[OF assms(3)] by (simp add: read_upto_def t tokens_between_Suc)
qed

lemma sent_other:
  assumes "read_upto hist sent pos k" and "pos < length sent" and "\<not> is_token (sent ! pos)"
  shows "read_upto hist sent (Suc pos) k" and "ended_by sent k"
proof -
  have "(case sent ! pos of TokenSig t \<Rightarrow> [t] | _ \<Rightarrow> []) = []"
    using assms(3) by (cases "sent ! pos") simp_all
  then show "read_upto hist sent (Suc pos) k"
    using assms(1,2) tokens_sent_take[OF assms(2)] by (simp add: read_upto_def)
  have "sent = take pos sent @ sent ! pos # drop (Suc pos) sent"
    using assms(2) by (simp add: Cons_nth_drop_Suc)
  then have "takeWhile is_token sent = takeWhile is_token (take pos sent)"
    using assms(3) by (metis takeWhile_tail)
  moreover obtain ys where "take pos sent = takeWhile is_token (take pos sent) @ ys"
    by (metis takeWhile_dropWhile_id)
  then have "tokens_sent (take pos sent) = tokens_sent (takeWhile is_token (take pos sent)) @ tokens_sent ys"
    by (metis tokens_sent_simps(6))
  ultimately have "final_len sent \<le> length (tokens_sent (take pos sent))"
    by (simp add: final_len_def)
  then show "ended_by sent k"
    using assms by (auto simp: ended_by_def list_all_iff read_upto_def intro!: bexI[of _ "sent ! pos"])
qed

lemma unat_hist: "length hist < 2 ^ 64 \<Longrightarrow> n \<le> length hist \<Longrightarrow> unat (of_nat n :: u64) = n"
  by simp

lemma filter_tokens:
  assumes "length hist < 2 ^ 64"
  shows "filter (\<lambda>t. start \<le> tk_offset t) (tokens_between hist a (length hist))
    = tokens_between hist (max (unat start) a) (length hist)"
proof -
  have "filter (\<lambda>k. start \<le> of_nat k) [a..<n] = [max (unat start) a..<n]" if "n < 2 ^ 64" for n
    using that
  proof (induction n)
    case (Suc n)
    then have "start \<le> of_nat n \<longleftrightarrow> unat start \<le> n" by (simp add: word_le_nat_alt)
    with Suc show ?case by (auto simp: max_def not_le)
  qed simp
  with assms show ?thesis
    by (simp add: tokens_between_def filter_map comp_def token_at_def)
qed

lemma earliest_unat:
  assumes "stream_ok hist st" and "length hist < 2 ^ 64"
  shows "earliest_retained (sm_inner st) = of_nat (length hist - in_max_buffer (sm_inner st))"
proof -
  note ok = assms(1)[unfolded stream_ok_def Let_def]
  show ?thesis
  proof (cases "hist = []")
    case False
    then have lt: "length hist - in_max_buffer (sm_inner st) < length hist" using ok by simp
    then have "[length hist - in_max_buffer (sm_inner st)..<length hist]
      = (length hist - in_max_buffer (sm_inner st)) # [Suc (length hist - in_max_buffer (sm_inner st))..<length hist]"
      by (rule upt_conv_Cons)
    with ok show ?thesis
      by (simp add: earliest_retained_def tokens_between_def token_at_def)
  qed (use ok in \<open>simp add: earliest_retained_def\<close>)
qed

text \<open>What a snapshot replays.\<close>

lemma no_Done_butlast:
  "Done \<notin> set (butlast (map TokenSig ts))" "Done \<notin> set (butlast (Gap # map TokenSig ts))"
  by (auto dest: in_set_butlastD)

lemma butlast_ends:
  "butlast (x # xs @ [a]) = x # xs" "butlast (xs @ [a]) = xs"
  "butlast (x # xs @ [a, b]) = x # xs @ [a]" "butlast (xs @ [a, b]) = xs @ [a]"
  by (simp_all add: butlast_append)

lemma snapshot_seen:
  assumes "stream_ok hist st" and "length hist < 2 ^ 64" and "replay_of (snapshot_from start st) = (sigs, ended)"
  shows "\<exists>first. seen start hist first (length hist) sigs"
    and "Done \<in> set sigs \<Longrightarrow> ended_by (sm_sent st) (length hist)"
    and "\<not> ended \<Longrightarrow> Done \<notin> set sigs" "Done \<notin> set (butlast sigs)"
    and "sn_total (snapshot_from start st) = of_nat (length hist)"
proof -
  note ok = assms(1)[unfolded stream_ok_def Let_def]
  let ?i = "sm_inner st" and ?n = "length hist"
  let ?lo = "?n - in_max_buffer ?i"
  have early: "unat (earliest_retained ?i) = ?lo"
    using earliest_unat[OF assms(1,2)] assms(2) by simp
  have gap: "start < earliest_retained ?i \<longleftrightarrow> unat start < ?lo" by (simp add: word_less_nat_alt early)
  have "unat (max start (earliest_retained ?i)) = max (unat start) ?lo"
    by (simp add: max_def word_le_nat_alt early)
  then have toks: "sn_tokens (snapshot_from start st) = tokens_between hist (max (unat start) ?lo) ?n"
    using ok filter_tokens[OF assms(2), of "max start (earliest_retained ?i)" ?lo]
    by (simp add: snapshot_from_def Let_def)
  let ?first = "min (max (unat start) ?lo) ?n"
  have "tokens_between hist ?first ?n = tokens_between hist (max (unat start) ?lo) ?n"
    by (cases "max (unat start) ?lo \<le> ?n") (simp_all add: tokens_between_def min_def)
  with toks show "\<exists>first. seen start hist first ?n sigs"
    using assms(3) gap
    by (intro exI[of _ ?first])
      (auto simp: seen_def replay_of_def snapshot_from_def Let_def dest!: in_tl_append split: option.splits if_splits)
  show "Done \<in> set sigs \<Longrightarrow> ended_by (sm_sent st) ?n"
  proof -
    assume "Done \<in> set sigs"
    then have "terminal_of ?i \<noteq> []"
      using assms(3) by (auto simp: replay_of_def snapshot_from_def Let_def terminal_of_def split: option.splits if_splits)
    then have "terminals (sm_sent st) \<noteq> []" using ok by simp
    then have "\<not> list_all is_token (sm_sent st)"
      by (auto simp: terminals_def is_token_def list_all_iff filter_empty_conv split: signal.splits)
    moreover have "final_len (sm_sent st) \<le> length (tokens_sent (sm_sent st))"
      unfolding final_len_def by (metis length_append le_add1 takeWhile_dropWhile_id tokens_sent_simps(6))
    ultimately show ?thesis using ok by (simp add: ended_by_def)
  qed
  show "\<not> ended \<Longrightarrow> Done \<notin> set sigs"
    using assms(3) by (auto simp: replay_of_def Let_def split: option.splits if_splits)
  show "Done \<notin> set (butlast sigs)"
    using assms(3) no_Done_butlast by (auto simp: replay_of_def Let_def butlast_ends simp del: butlast.simps
        split: option.splits if_splits)
  show "sn_total (snapshot_from start st) = of_nat ?n"
    using ok by (simp add: snapshot_from_def Let_def)
qed

lemma seen_snoc_token:
  assumes "seen start hist first k sigs" and "k < length hist"
  shows "seen start hist first (Suc k) (sigs @ [TokenSig (token_at hist k)])"
  using assms by (auto simp: seen_def tokens_between_Suc dest!: in_tl_append)

lemma seen_snoc_other:
  "seen start hist first m sigs \<Longrightarrow> s \<noteq> Gap \<Longrightarrow> \<not> is_token s \<Longrightarrow> seen start hist first m (sigs @ [s])"
  by (cases s) (auto simp: seen_def dest!: in_tl_append)

lemma reader_invI:
  "bound = of_nat n \<Longrightarrow> n \<le> length hist \<Longrightarrow> read_upto hist sent pos k \<Longrightarrow>
   seen start hist first (max n k) (out @ sigs) \<Longrightarrow> (Done \<in> set (out @ sigs) \<Longrightarrow> ended_by sent (max n k)) \<Longrightarrow>
   Done \<notin> set (butlast sigs) \<Longrightarrow> Done \<notin> set out \<Longrightarrow> reader_inv start hist sent out (Receiving sigs pos bound)"
  "bound = of_nat n \<Longrightarrow> n \<le> length hist \<Longrightarrow> k \<le> n \<Longrightarrow> read_upto hist sent pos k \<Longrightarrow>
   seen start hist first n (out @ sigs) \<Longrightarrow> (Done \<in> set (out @ sigs) \<Longrightarrow> ended_by sent n) \<Longrightarrow>
   (\<not> ended \<Longrightarrow> Done \<notin> set (out @ sigs)) \<Longrightarrow> Done \<notin> set (butlast (out @ sigs)) \<Longrightarrow> reader_inv start hist sent out (Replaying sigs ended pos bound)"
  "seen start hist first m out \<Longrightarrow> (Done \<in> set out \<Longrightarrow> ended_by sent m) \<Longrightarrow> reader_inv start hist sent out Ended"
  unfolding reader_inv.simps by blast+

lemma ended_by_mono: "ended_by sent m \<Longrightarrow> m \<le> m' \<Longrightarrow> ended_by sent m'"
  by (simp add: ended_by_def)

lemma reader_inv_recv:
  assumes "stream_ok hist st" and "length hist < 2 ^ 64"
    and "reader_inv start hist (sm_sent st) out (Receiving [] pos bound)"
    and "reader_step st (Receiving [] pos bound) = Some (sig, rd')"
  shows "sig = None \<and> reader_inv start hist (sm_sent st) out rd'"
proof -
  let ?sent = "sm_sent st"
  have sent: "tokens_sent ?sent = tokens_between hist 0 (length hist)"
    using assms(1) by (simp add: stream_ok_def Let_def)
  obtain first k n where inv: "bound = of_nat n" "n \<le> length hist" "read_upto hist ?sent pos k"
    "seen start hist first (max n k) out" "Done \<notin> set out"
    using assms(3) by auto
  show ?thesis
  proof (cases "recv ?sent pos")
    case (Value s)
    then have pos: "pos < length ?sent" and s: "s = ?sent ! pos" by (simp_all add: recv_Value)
    show ?thesis
    proof (cases s)
      case (TokenSig t)
      note tok = sent_token[OF sent inv(3) pos, of t] s TokenSig
      then have k: "k < length hist" and t: "t = token_at hist k" and up: "read_upto hist ?sent (Suc pos) (Suc k)"
        by simp_all
      have off: "bound \<le> tk_offset t \<longleftrightarrow> n \<le> k"
        using k inv(2) assms(2) by (simp add: inv(1) t token_at_def word_le_nat_alt)
      show ?thesis
      proof (cases "n \<le> k")
        case True
        then have "seen start hist first (max n (Suc k)) (out @ [TokenSig t])"
          using seen_snoc_token[of start hist first k out] inv(4) k t by (simp add: max_def)
        then have "reader_inv start hist ?sent out (Receiving [TokenSig t] (Suc pos) bound)"
          by (rule reader_invI(1)[OF inv(1,2) up])
            (use inv(5) in \<open>auto elim: ended_by_mono\<close>)
        then show ?thesis
          using assms(4) Value TokenSig off True by (auto simp del: reader_inv.simps)
      next
        case False
        then have "max n (Suc k) = n" "max n k = n" by simp_all
        then have "reader_inv start hist ?sent out (Receiving [] (Suc pos) bound)"
          by (intro reader_invI(1)[OF inv(1,2) up]) (use inv(4,5) in auto)
        then show ?thesis
          using assms(4) Value TokenSig off False by (auto simp del: reader_inv.simps)
      qed
    next
      case Gap
      then have "\<not> is_token (?sent ! pos)" using s by simp
      note oth = sent_other[OF inv(3) pos this]
      then have "reader_inv start hist ?sent out (Receiving [] (Suc pos) bound)"
        using inv(4,5) by (intro reader_invI(1)[OF inv(1,2) oth(1)]) auto
      then show ?thesis using assms(4) Value Gap by (auto simp del: reader_inv.simps)
    next
      case (ErrorSig e)
      then have "\<not> is_token (?sent ! pos)" using s by simp
      note oth = sent_other[OF inv(3) pos this]
      have "seen start hist first (max n k) (out @ [ErrorSig e, Done])"
        using seen_snoc_other[OF seen_snoc_other[OF inv(4), of "ErrorSig e"], of Done] by simp
      then have "reader_inv start hist ?sent out (Receiving [ErrorSig e, Done] (Suc pos) bound)"
        by (rule reader_invI(1)[OF inv(1,2) oth(1)]) (use oth(2) inv(5) in \<open>auto elim: ended_by_mono\<close>)
      then show ?thesis using assms(4) Value ErrorSig by (auto simp del: reader_inv.simps)
    next
      case Done
      then have "\<not> is_token (?sent ! pos)" using s by simp
      note oth = sent_other[OF inv(3) pos this]
      have "seen start hist first (max n k) (out @ [Done])"
        using seen_snoc_other[OF inv(4), of Done] by simp
      then have "reader_inv start hist ?sent out (Receiving [Done] (Suc pos) bound)"
        by (rule reader_invI(1)[OF inv(1,2) oth(1)]) (use oth(2) inv(5) in \<open>auto elim: ended_by_mono\<close>)
      then show ?thesis using assms(4) Value Done by (auto simp del: reader_inv.simps)
    qed
  next
    case Lagged
    with assms(4) inv show ?thesis by auto
  next
    case Empty
    with assms(4) show ?thesis by simp
  qed
qed

lemma reader_inv_replay:
  "reader_inv start hist sent (out @ [s]) (Replaying sigs ended pos bound)
     = reader_inv start hist sent out (Replaying (s # sigs) ended pos bound)"
  by (simp only: reader_inv.simps append.simps append_assoc)

lemma reader_inv_step:
  assumes "stream_ok hist st" and "length hist < 2 ^ 64"
    and "reader_inv start hist (sm_sent st) out rd" and "reader_step st rd = Some (sig, rd')"
  shows "reader_inv start hist (sm_sent st) (out @ (case sig of None \<Rightarrow> [] | Some s \<Rightarrow> [s])) rd'"
proof (cases rd)
  case (Unpolled s)
  have "read_upto hist (sm_sent st) (length (sm_sent st)) (length hist)"
    using assms(1) by (simp add: read_upto_def stream_ok_def Let_def)
  with Unpolled assms(3,4) show ?thesis by auto
next
  case (Subscribed s pos)
  obtain k where k: "read_upto hist (sm_sent st) pos k" and s: "s = start" "out = []"
    using assms(3) Subscribed by auto
  obtain sigs ended where rep: "replay_of (snapshot_from start st) = (sigs, ended)" by force
  note snap = snapshot_seen[OF assms(1,2) rep]
  obtain first where "seen start hist first (length hist) sigs" using snap(1) by blast
  moreover have "k \<le> length hist" using k by (simp add: read_upto_def)
  ultimately have "reader_inv start hist (sm_sent st) out (Replaying sigs ended pos (sn_total (snapshot_from start st)))"
    using snap(2-5) k s(2) by (intro reader_invI(2)[of _ "length hist" hist k _ _ _ first]) simp_all
  with assms(4) Subscribed s rep show ?thesis by (simp add: Let_def)
next
  case (Replaying sigs ended pos bound)
  show ?thesis
  proof (cases sigs)
    case Nil
    then obtain first k n where inv: "bound = of_nat n" "n \<le> length hist" "k \<le> n"
      "read_upto hist (sm_sent st) pos k" "seen start hist first n out"
      "Done \<in> set out \<longrightarrow> ended_by (sm_sent st) n" "\<not> ended \<longrightarrow> Done \<notin> set out"
      using assms(3) Replaying by auto
    then have "max n k = n" by simp
    have "reader_inv start hist (sm_sent st) out (Receiving [] pos bound)" if "\<not> ended"
      using inv \<open>max n k = n\<close> that
      by (intro reader_invI(1)[of _ n _ _ _ k _ first]) simp_all
    moreover have "reader_inv start hist (sm_sent st) out Ended"
      using inv by (intro reader_invI(3)[of _ _ first n]) simp_all
    ultimately show ?thesis using Nil Replaying assms(4)
      by (auto simp del: reader_inv.simps split: if_splits)
  next
    case (Cons s sigs')
    with Replaying assms(3,4) reader_inv_replay[of start hist "sm_sent st" out s sigs' ended pos bound]
    show ?thesis by (auto simp del: reader_inv.simps)
  qed
next
  case (Receiving sigs pos bound)
  show ?thesis
  proof (cases sigs)
    case Nil
    with reader_inv_recv[OF assms(1,2)] assms(3,4) Receiving show ?thesis by fastforce
  next
    case (Cons s sigs')
    obtain first k n where inv: "bound = of_nat n" "n \<le> length hist" 
      "read_upto hist (sm_sent st) pos k" "seen start hist first (max n k) (out @ s # sigs')"
      "Done \<in> set (out @ s # sigs') \<longrightarrow> ended_by (sm_sent st) (max n k)"
      "Done \<notin> set (butlast (s # sigs'))" "Done \<notin> set out"
      using assms(3) Receiving Cons by auto
    show ?thesis
    proof (cases "s = Done")
      case True
      with inv(6) have "sigs' = []" by (auto split: if_splits)
      with True inv(4,5) have "reader_inv start hist (sm_sent st) (out @ [s]) Ended"
        by (intro reader_invI(3)[of _ _ first "max n k"]) simp_all
      with assms(4) Receiving Cons True show ?thesis by (auto simp del: reader_inv.simps)
    next
      case False
      have "reader_inv start hist (sm_sent st) (out @ [s]) (Receiving sigs' pos bound)"
        using inv(4-7) False by (intro reader_invI(1)[OF inv(1-3), of start first]) (auto split: if_splits)
      with assms(4) Receiving Cons False show ?thesis by (auto simp del: reader_inv.simps)
    qed
  qed
qed (use assms(4) in simp)

section \<open>Any interleaving\<close>

lemma poll_facts:
  assumes "poll st rd = Some (sig, rd', st')"
  shows "reader_step st rd = Some (sig, rd')" "sm_sent st' = sm_sent st"
    "stream_ok hist st' = stream_ok hist st"
  using assms by (auto simp: poll_def stream_ok_def Let_def split: option.splits reader.splits if_splits)

lemma sent_after:
  "sm_sent (snd (stream_publish now d st)) = sm_sent st @ [TokenSig \<lparr>tk_offset = in_next_offset (sm_inner st), tk_data = d\<rparr>]"
  "\<exists>ys. sm_sent (stream_complete now st) = sm_sent st @ ys"
  "\<exists>ys. sm_sent (stream_fail now m st) = sm_sent st @ ys"
  "sm_sent (touch now st) = sm_sent st"
  by (simp_all add: stream_publish_def stream_complete_def stream_fail_def touch_def send_def Let_def)

lemma reading_inv:
  "reading start hist st rd out \<Longrightarrow>
   stream_ok hist st \<and> length hist < 2 ^ 64 \<and> reader_inv start hist (sm_sent st) out rd"
proof (induction rule: reading.induct)
  case (Publish hist st rd out d now)
  then show ?case
    by (simp add: stream_ok_publish(1) sent_after(1) reader_inv_append reader_inv_publish del: reader_inv.simps)
next
  case (Complete hist st rd out now)
  then show ?case
    using sent_after(2)[of now st] by (auto simp: stream_ok_end reader_inv_append simp del: reader_inv.simps)
next
  case (Fail hist st rd out now m)
  then show ?case
    using sent_after(3)[of now m st] by (auto simp: stream_ok_end reader_inv_append simp del: reader_inv.simps)
next
  case (Touch hist st rd out now)
  then show ?case by (simp add: stream_ok_end sent_after(4) del: reader_inv.simps)
next
  case (Poll hist st rd out sig rd' st')
  then have "stream_ok hist st" "length hist < 2 ^ 64" "reader_inv start hist (sm_sent st) out rd" by simp_all
  from reader_inv_step[OF this poll_facts(1)[OF Poll.hyps(2)]] Poll.IH show ?case
    by (simp add: poll_facts(2,3)[OF Poll.hyps(2)] del: reader_inv.simps)
qed simp

lemma tokens_between_prefix:
  assumes "xs @ ys = tokens_between hist a b" and "a \<le> b"
  shows "xs = tokens_between hist a (a + length xs)" and "a + length xs \<le> b"
proof -
  have "length xs + length ys = b - a" using arg_cong[OF assms(1), of length] by simp
  with assms(2) show le: "a + length xs \<le> b" by simp
  have "xs = take (length xs) (tokens_between hist a b)" by (simp add: assms(1)[symmetric])
  also have "\<dots> = tokens_between hist a (a + length xs)"
    using le by (simp add: tokens_between_def take_map)
  finally show "xs = tokens_between hist a (a + length xs)" .
qed

lemma seen_prefix:
  assumes "seen start hist first m (out @ sigs)"
  shows "\<exists>n. first \<le> n \<and> n \<le> m \<and> tokens_sent out = tokens_between hist first n \<and>
    (out \<noteq> [] \<longrightarrow> (Gap \<in> set out \<longleftrightarrow> unat start < first)) \<and> Gap \<notin> set (tl out)"
proof -
  have "tokens_sent out @ tokens_sent sigs = tokens_between hist first m" "first \<le> m"
    using assms by (simp_all add: seen_def)
  note pre = tokens_between_prefix[OF this]
  moreover have "Gap \<notin> set sigs \<and> Gap \<notin> set (tl out)" if "out \<noteq> []"
    using assms that by (cases out) (auto simp: seen_def)
  ultimately show ?thesis
    using assms by (intro exI[of _ "first + length (tokens_sent out)"]) (cases "out = []"; auto simp: seen_def)
qed

lemma reader_inv_seen:
  assumes "reader_inv start hist sent out rd"
  shows "\<exists>first n. first \<le> n \<and> (n \<le> length hist \<or> out = []) \<and> tokens_sent out = tokens_between hist first n \<and>
    (out \<noteq> [] \<longrightarrow> (Gap \<in> set out \<longleftrightarrow> unat start < first)) \<and> Gap \<notin> set (tl out) \<and>
    (Done \<in> set out \<longrightarrow> final_len sent \<le> n)"
proof (cases rd)
  case (Replaying sigs ended pos bound)
  then obtain first m where s: "seen start hist first m (out @ sigs)" "Done \<notin> set (butlast (out @ sigs))"
    "Done \<in> set (out @ sigs) \<longrightarrow> ended_by sent m" using assms by auto
  show ?thesis
  proof (cases "Done \<in> set out")
    case True
    with s(2) have "sigs = []" by (auto simp: butlast_append split: if_splits)
    with s True show ?thesis by (auto simp: seen_def ended_by_def)
  next
    case False
    with seen_prefix[OF s(1)] s(1) show ?thesis
      by (auto simp: seen_def intro: le_trans)
  qed
next
  case (Receiving sigs pos bound)
  then obtain first m where s: "seen start hist first m (out @ sigs)" "Done \<notin> set out" using assms by auto
  with seen_prefix[OF s(1)] show ?thesis by (auto simp: seen_def intro: le_trans)
next
  case Ended
  with assms obtain first m where "seen start hist first m out" "Done \<in> set out \<longrightarrow> ended_by sent m" by auto
  then show ?thesis by (auto simp: seen_def ended_by_def)
qed (use assms in \<open>auto intro!: exI[of _ 0]\<close>)

text \<open>
  C16: a reader sees every token once, in order. However a reader's polls interleave with
  publishing, completing and failing the stream, before, between and after its subscription
  and its snapshot: the tokens it has yielded have consecutive offsets and the data published
  at them; a gap is announced exactly when the first of them lies beyond the offset asked for,
  and never later; and once \<open>Done\<close> is yielded, every token published before the stream ended
  has been.
\<close>

theorem reader_sees_every_token_once:
  assumes "reading start hist st rd out"
  shows "\<exists>first n. first \<le> n \<and> n \<le> length hist \<and> tokens_sent out = tokens_between hist first n \<and>
    (out \<noteq> [] \<longrightarrow> (Gap \<in> set out \<longleftrightarrow> unat start < first)) \<and> Gap \<notin> set (tl out) \<and>
    (Done \<in> set out \<longrightarrow> final_len (sm_sent st) \<le> n)"
proof (cases "out = []")
  case False
  with reader_inv_seen[of start hist "sm_sent st" out rd] reading_inv[OF assms] show ?thesis by blast
qed (auto intro!: exI[of _ 0])

text \<open>A reader from offset 0 of a buffer of one token that has seen two: it is told of the gap.\<close>

definition demo_stream :: stream where
  "demo_stream = snd (stream_publish 2 ''b'' (snd (stream_publish 1 ''a'' (with_capacity 0 1))))"

lemma demo_reading: "reading 0 [''a'', ''b''] demo_stream (Unpolled 0) []"
proof -
  have "reading 0 [] (with_capacity 0 1) (Unpolled 0) []"
    by (rule reading.Start) (simp_all add: stream_ok_new)
  from reading.Publish[OF reading.Publish[OF this, of "''a''" 1], of "''b''" 2] show ?thesis
    by (simp add: demo_stream_def)
qed

abbreviation demo_watched :: stream where
  "demo_watched \<equiv> demo_stream\<lparr>sm_subscribers := 1\<rparr>"

lemma demo_polls:
  "poll demo_stream (Unpolled 0) = Some (None, Subscribed 0 2, demo_watched)"
  "poll demo_watched (Subscribed 0 2)
     = Some (None, Replaying [Gap, TokenSig (token_at [''a'', ''b''] 1)] False 2 2, demo_watched)"
  by (simp_all add: poll_def demo_stream_def with_capacity_def stream_publish_def send_def Let_def
      snapshot_from_def earliest_retained_def replay_of_def token_at_def)

lemma demo_read:
  "reading 0 [''a'', ''b''] demo_watched (Replaying [] False 2 2) [Gap, TokenSig (token_at [''a'', ''b''] 1)]"
proof -
  let ?t = "TokenSig (token_at [''a'', ''b''] 1)"
  note r2 = reading.Poll[OF reading.Poll[OF demo_reading demo_polls(1)] demo_polls(2)]
  have "poll demo_watched (Replaying [Gap, ?t] False 2 2) = Some (Some Gap, Replaying [?t] False 2 2, demo_watched)"
    "poll demo_watched (Replaying [?t] False 2 2) = Some (Some ?t, Replaying [] False 2 2, demo_watched)"
    by (simp_all add: poll_def)
  from reading.Poll[OF reading.Poll[OF r2 this(1)] this(2)] show ?thesis by simp
qed

theorem reader_sees_every_token_once_witness:
  "\<exists>first n. first \<le> n \<and> n \<le> length [''a'', ''b''] \<and>
     tokens_sent [Gap, TokenSig (token_at [''a'', ''b''] 1)] = tokens_between [''a'', ''b''] first n \<and>
     (Gap \<in> set [Gap, TokenSig (token_at [''a'', ''b''] 1)] \<longleftrightarrow> unat (0 :: u64) < first)"
  using reader_sees_every_token_once[OF demo_read] by blast

end
