(* ===== verification/Backend.thy ===== *)
theory Backend
  imports Manager Stream_Seam
begin

text \<open>
  The storage interface of the stream API, \<open>crates/tideline-server/src/backend.rs\<close>: the trait's
  methods as a record of functions, with polling and dropping the boxed stream that \<open>subscribe\<close>
  returns; the in-memory implementation; and the contract the API relies on as a locale.
\<close>

record ('b, 'sub) backend =
  be_publish :: "nat \<Rightarrow> string \<Rightarrow> string \<Rightarrow> 'b \<Rightarrow> u64 \<times> 'b"
  be_complete :: "nat \<Rightarrow> string \<Rightarrow> 'b \<Rightarrow> 'b"
  be_fail :: "nat \<Rightarrow> string \<Rightarrow> string \<Rightarrow> 'b \<Rightarrow> 'b"
  be_delete :: "string \<Rightarrow> 'b \<Rightarrow> bool \<times> 'b"
  be_subscriber_count :: "string \<Rightarrow> 'b \<Rightarrow> u64"
  be_max_subscribers :: "'b \<Rightarrow> u64"
  be_incr_gaps :: "'b \<Rightarrow> 'b"
  be_subscribe :: "nat \<Rightarrow> string \<Rightarrow> u64 \<Rightarrow> 'b \<Rightarrow> 'sub \<times> 'b"
  be_next :: "'sub \<Rightarrow> 'b \<Rightarrow> (signal option \<times> 'sub \<times> 'b) option"
  be_drop :: "'sub \<Rightarrow> 'b \<Rightarrow> 'b"
  be_set_private :: "nat \<Rightarrow> string \<Rightarrow> 'b \<Rightarrow> 'b"
  be_is_private :: "string \<Rightarrow> 'b \<Rightarrow> bool"
  be_metrics :: "'b \<Rightarrow> metrics_snapshot"

definition memory_backend :: "order \<Rightarrow> (manager, nat \<times> reader) backend" where
  "memory_backend ord =
     \<lparr>be_publish = mb_publish ord, be_complete = mb_complete ord, be_fail = mb_fail ord,
      be_delete = mgr_delete, be_subscriber_count = mb_subscriber_count,
      be_max_subscribers = (\<lambda>mg. mc_max_subscribers (mg_cfg mg)), be_incr_gaps = incr_gaps,
      be_subscribe = mb_subscribe ord, be_next = mb_poll, be_drop = mb_drop,
      be_set_private = mb_set_private ord, be_is_private = mb_is_private,
      be_metrics = snapshot_metrics ord\<rparr>"

text \<open>Polling a subscription until it waits, ends or the fuel is used: the signals it yields.\<close>

fun drain :: "('b, 'sub) backend \<Rightarrow> nat \<Rightarrow> 'sub \<Rightarrow> 'b \<Rightarrow> signal list \<times> 'sub \<times> 'b" where
  "drain B 0 sub b = ([], sub, b)"
| "drain B (Suc fuel) sub b =
     (case be_next B sub b of
        None \<Rightarrow> ([], sub, b)
      | Some (sig, sub, b) \<Rightarrow>
          (case drain B fuel sub b of (sigs, r) \<Rightarrow> ((case sig of None \<Rightarrow> [] | Some s \<Rightarrow> [s]) @ sigs, r)))"

fun publish_all :: "('b, 'sub) backend \<Rightarrow> nat \<Rightarrow> string \<Rightarrow> string list \<Rightarrow> 'b \<Rightarrow> u64 list \<times> 'b" where
  "publish_all B now k [] b = ([], b)"
| "publish_all B now k (d # ds) b =
     (case be_publish B now k d b of (offset, b) \<Rightarrow>
        case publish_all B now k ds b of (offsets, b) \<Rightarrow> (offset # offsets, b))"

section \<open>The contract\<close>

text \<open>
  \<open>holds b k h n\<close>: stream \<open>k\<close> is open, retains the whole history \<open>h\<close> and has room for \<open>n\<close>
  more; \<open>absent b k n\<close>: there is no such stream, and a new one has room for \<open>n\<close>.
\<close>

locale backend_contract =
  fixes B :: "('b, 'sub) backend"
    and holds :: "'b \<Rightarrow> string \<Rightarrow> string list \<Rightarrow> nat \<Rightarrow> bool"
    and absent :: "'b \<Rightarrow> string \<Rightarrow> nat \<Rightarrow> bool"
  assumes publish_first: "absent b k (Suc n) \<Longrightarrow> be_publish B now k d b = (off, b') \<Longrightarrow>
      off = 0 \<and> holds b' k [d] n"
    and publish_next: "holds b k h (Suc n) \<Longrightarrow> be_publish B now k d b = (off, b') \<Longrightarrow>
      off = of_nat (length h) \<and> holds b' k (h @ [d]) n"
    and replays: "holds b k h n \<Longrightarrow> length h < 2 ^ 64 \<Longrightarrow> be_subscribe B now k start b = (sub, b') \<Longrightarrow>
      \<exists>fuel. fst (drain B fuel sub b') = map TokenSig (tokens_between h (unat start) (length h))"
begin

lemma publish_all_holds:
  "holds b k h (length ds + n) \<Longrightarrow> publish_all B now k ds b = (offs, b') \<Longrightarrow>
   offs = map (\<lambda>j. of_nat (length h + j)) [0..<length ds] \<and> holds b' k (h @ ds) n"
proof (induction ds arbitrary: h b offs)
  case (Cons d ds)
  obtain off b1 where pub: "be_publish B now k d b = (off, b1)" by force
  obtain offs1 where rest: "publish_all B now k ds b1 = (offs1, b')" "offs = off # offs1"
    using Cons.prems(2) pub by (auto split: prod.splits)
  have first: "off = of_nat (length h)" "holds b1 k (h @ [d]) (length ds + n)"
    using publish_next[OF _ pub, of h "length ds + n"] Cons.prems(1) by simp_all
  from Cons.IH[OF first(2) rest(1)] rest(2) first(1) show ?case
    by (auto simp: upt_rec[of 0 "Suc (length ds)"] map_Suc_upt[symmetric] comp_def simp del: upt_Suc)
qed simp

text \<open>What is published to a new stream is what a subscriber is given, with its offsets.\<close>

lemma published_is_replayed:
  assumes "absent b k (length ds + n)" and "ds \<noteq> []" and "length ds < 2 ^ 64"
    and "publish_all B now k ds b = (offs, b1)" and "be_subscribe B now' k start b1 = (sub, b2)"
  shows "offs = map of_nat [0..<length ds]"
    and "\<exists>fuel. fst (drain B fuel sub b2) = map TokenSig (tokens_between ds (unat start) (length ds))"
proof -
  obtain d rest where ds: "ds = d # rest" using assms(2) by (cases ds) auto
  obtain off b0 where pub: "be_publish B now k d b = (off, b0)" by force
  obtain offs0 where all: "publish_all B now k rest b0 = (offs0, b1)" "offs = off # offs0"
    using assms(4) pub by (auto simp: ds split: prod.splits)
  have "off = 0" "holds b0 k [d] (length rest + n)"
    using publish_first[OF _ pub, of "length rest + n"] assms(1) by (simp_all add: ds)
  with publish_all_holds[OF this(2) all(1)] all(2)
  have offs: "offs = map of_nat [0..<length ds]" and h: "holds b1 k ds n"
    by (auto simp: ds upt_rec[of 0 "Suc (length rest)"] map_Suc_upt[symmetric] comp_def simp del: upt_Suc)
  show "offs = map of_nat [0..<length ds]" by (rule offs)
  show "\<exists>fuel. fst (drain B fuel sub b2) = map TokenSig (tokens_between ds (unat start) (length ds))"
    by (rule replays[OF h assms(3,5)])
qed

end

section \<open>The in-memory backend keeps it\<close>

definition mb_holds :: "manager \<Rightarrow> string \<Rightarrow> string list \<Rightarrow> nat \<Rightarrow> bool" where
  "mb_holds mg k h n \<longleftrightarrow> (\<exists>a. mgr_get k mg = Some a \<and> stream_ok h (stream_at a mg) \<and>
     \<not> is_terminal (stream_at a mg) \<and> length h + n \<le> in_max_buffer (sm_inner (stream_at a mg)))"

definition mb_absent :: "manager \<Rightarrow> string \<Rightarrow> nat \<Rightarrow> bool" where
  "mb_absent mg k n \<longleftrightarrow> mgr_get k mg = None \<and> n \<le> max 1 (mc_max_buffer (mg_cfg mg))"

lemma put_stream_simps [simp]:
  "stream_at a (put_stream a s mg) = s" "put_stream a (stream_at a mg) mg = mg"
  "mgr_get k (put_stream a s mg) = mgr_get k mg" "mgr_get k (incr_published mg) = mgr_get k mg"
  "stream_at a (incr_published mg) = stream_at a mg" "mgr_get k (count_metric upd n mg) = mgr_get k mg"
  "stream_at a (count_metric upd n mg) = stream_at a mg" "put_stream a s (put_stream a t mg) = put_stream a s mg"
  by (simp_all add: stream_at_def put_stream_def mgr_get_def incr_published_def count_metric_def)

lemma stream_facts [simp]:
  "in_max_buffer (sm_inner (touch now s)) = in_max_buffer (sm_inner s)"
  "is_terminal (touch now s) = is_terminal s"
  "in_max_buffer (sm_inner (snd (stream_publish now d s))) = in_max_buffer (sm_inner s)"
  "is_terminal (snd (stream_publish now d s)) = is_terminal s"
  "in_max_buffer (sm_inner (with_capacity now m)) = max m 1" "\<not> is_terminal (with_capacity now m)"
  by (simp_all add: touch_def stream_publish_def with_capacity_def is_terminal_def send_def Let_def)

lemma get_or_create_some:
  "mgr_get k mg = Some a \<Longrightarrow> get_or_create ord now k mg = (a, put_stream a (touch now (stream_at a mg)) mg)"
  by (simp add: get_or_create_def)

lemma get_or_create_none:
  assumes "mgr_get k mg = None" and "get_or_create ord now k mg = (a, mg')"
  shows "mgr_get k mg' = Some a" and "stream_at a mg' = with_capacity now (mc_max_buffer (mg_cfg mg))"
  using assms
  by (auto simp: get_or_create_def Let_def mgr_get_def put_stream_def stream_at_def count_metric_def evict_lru_def
      split: list.splits if_splits)

lemma mb_publish_first:
  assumes "mb_absent mg k (Suc n)" and "mb_publish ord now k d mg = (off, mg')"
  shows "off = 0 \<and> mb_holds mg' k [d] n"
proof -
  obtain a mg1 where goc: "get_or_create ord now k mg = (a, mg1)" by force
  note new = get_or_create_none[OF _ goc]
  have s: "stream_at a mg1 = with_capacity now (mc_max_buffer (mg_cfg mg))" "mgr_get k mg1 = Some a"
    using new assms(1) by (simp_all add: mb_absent_def)
  obtain st where pub: "stream_publish now d (with_capacity now (mc_max_buffer (mg_cfg mg))) = (off, st)"
    and mg': "mg' = incr_published (put_stream a st mg1)"
    using assms(2) goc s by (auto simp: mb_publish_def mb_on_def Let_def split: prod.splits)
  have "off = 0" "stream_ok [d] st"
    using stream_ok_publish[OF stream_ok_new[of now "mc_max_buffer (mg_cfg mg)"], where d = d and now = now] pub by simp_all
  moreover have "in_max_buffer (sm_inner st) = max 1 (mc_max_buffer (mg_cfg mg))" "\<not> is_terminal st"
    using arg_cong[OF pub, of snd] stream_facts(3)[of now d] stream_facts(4)[of now d] by (auto simp: max.commute)
  ultimately show ?thesis
    using assms(1) s(2) by (auto simp: mg' mb_holds_def mb_absent_def)
qed

lemma mb_publish_next:
  assumes "mb_holds mg k h (Suc n)" and "mb_publish ord now k d mg = (off, mg')"
  shows "off = of_nat (length h) \<and> mb_holds mg' k (h @ [d]) n"
proof -
  obtain a where a: "mgr_get k mg = Some a" "stream_ok h (stream_at a mg)" "\<not> is_terminal (stream_at a mg)"
    "length h + Suc n \<le> in_max_buffer (sm_inner (stream_at a mg))"
    using assms(1) by (auto simp: mb_holds_def)
  obtain st where pub: "stream_publish now d (touch now (stream_at a mg)) = (off, st)"
    and mg': "mg' = incr_published (put_stream a st mg)"
    using assms(2) a(1) by (auto simp: mb_publish_def mb_on_def get_or_create_some Let_def split: prod.splits)
  have "off = of_nat (length h)" "stream_ok (h @ [d]) st"
    using stream_ok_publish[OF stream_ok_end(3)[OF a(2), of now], where d = d and now = now] pub by simp_all
  moreover have "in_max_buffer (sm_inner st) = in_max_buffer (sm_inner (stream_at a mg))" "\<not> is_terminal st"
    using arg_cong[OF pub, of snd] stream_facts(3,4)[of now d "touch now (stream_at a mg)"] a(3) by auto
  ultimately show ?thesis
    using a by (auto simp: mg' mb_holds_def)
qed

lemma drain_replaying:
  assumes "length (sm_sent (stream_at a mg)) = pos"
  shows "drain (memory_backend ord) (length sigs + 2) (a, Replaying sigs False pos bound) mg
    = (sigs, (a, Receiving [] pos bound), mg)"
  using assms
  by (induction sigs) (simp_all add: memory_backend_def mb_poll_def poll_def recv_def)

lemma replay_open:
  assumes "stream_ok h s" and "length h < 2 ^ 64" and "\<not> is_terminal s" and "length h \<le> in_max_buffer (sm_inner s)"
  shows "replay_of (snapshot_from start s) = (map TokenSig (tokens_between h (unat start) (length h)), False)"
    and "sm_sent s = sm_sent (s\<lparr>sm_subscribers := m\<rparr>)"
proof -
  note ok = assms(1)[unfolded stream_ok_def Let_def]
  have toks: "in_tokens (sm_inner s) = tokens_between h 0 (length h)" using ok assms(4) by simp
  have early: "earliest_retained (sm_inner s) = 0"
    using earliest_unat[OF assms(1,2)] assms(4) by simp
  show "replay_of (snapshot_from start s) = (map TokenSig (tokens_between h (unat start) (length h)), False)"
    using assms(3) filter_tokens[OF assms(2), of start 0]
    by (simp add: replay_of_def snapshot_from_def Let_def early toks is_terminal_def)
qed simp

lemma mb_replays:
  assumes "mb_holds mg k h n" and "length h < 2 ^ 64" and "mb_subscribe ord now k start mg = (sub, mg')"
  shows "\<exists>fuel. fst (drain (memory_backend ord) fuel sub mg')
    = map TokenSig (tokens_between h (unat start) (length h))"
proof -
  obtain a where a: "mgr_get k mg = Some a" "stream_ok h (stream_at a mg)" "\<not> is_terminal (stream_at a mg)"
    "length h + n \<le> in_max_buffer (sm_inner (stream_at a mg))"
    using assms(1) by (auto simp: mb_holds_def)
  let ?s = "touch now (stream_at a mg)" and ?sigs = "map TokenSig (tokens_between h (unat start) (length h))"
  let ?s1 = "?s\<lparr>sm_subscribers := sm_subscribers ?s + 1\<rparr>"
  have sub: "sub = (a, Unpolled start)" "mg' = put_stream a ?s mg"
    using assms(3) a(1) by (auto simp: mb_subscribe_def get_or_create_some)
  have ok1: "stream_ok h ?s1" using stream_ok_end(3)[OF a(2)] by (simp add: stream_ok_def Let_def)
  have rep: "replay_of (snapshot_from start ?s1) = (?sigs, False)"
    using replay_open(1)[OF ok1 assms(2)] a(3,4) by (simp add: is_terminal_def touch_def)
  have p1: "mb_poll (a, Unpolled start) mg' = Some (None, (a, Subscribed start (length (sm_sent ?s))), put_stream a ?s1 mg)"
    by (simp add: mb_poll_def poll_def sub(2))
  have p2: "mb_poll (a, Subscribed start (length (sm_sent ?s))) (put_stream a ?s1 mg)
    = Some (None, (a, Replaying ?sigs False (length (sm_sent ?s)) (sn_total (snapshot_from start ?s1))), put_stream a ?s1 mg)"
    using rep by (simp add: mb_poll_def poll_def Let_def)
  have "drain (memory_backend ord) (Suc (Suc (length ?sigs + 2))) sub mg'
    = (?sigs, (a, Receiving [] (length (sm_sent ?s)) (sn_total (snapshot_from start ?s1))), put_stream a ?s1 mg)"
    using drain_replaying[of a "put_stream a ?s1 mg" "length (sm_sent ?s)" ord ?sigs "sn_total (snapshot_from start ?s1)"]
    by (simp add: p1 p2 sub(1) memory_backend_def)
  then show ?thesis by (metis fst_conv)
qed

interpretation mb: backend_contract "memory_backend ord" mb_holds mb_absent for ord
proof unfold_locales
qed (use mb_publish_first mb_publish_next mb_replays in \<open>auto simp: memory_backend_def\<close>)

end
