(* ===== verification/Events.thy ===== *)
theory Events
  imports Prelude
begin

text \<open>
  Stream events attributed to tenants, \<open>crates/tideline-server/src/events.rs\<close>: the map from a
  namespaced key to its owner, the bounded channel the handlers write to, and the reporter that
  ships what it receives in batches. The channel is tokio's \<open>mpsc\<close>: \<open>try_send\<close> fails when it is
  full. Posting a batch is best effort, so a post is recorded whether or not it arrived.
\<close>

record tenant =
  te_user_id :: string
  te_org_id :: "string option"

definition namespace :: "tenant \<Rightarrow> string" where
  "namespace t = (case te_org_id t of Some org \<Rightarrow> org | None \<Rightarrow> te_user_id t)"

datatype report_kind =
  StreamCreated
| Tokens u64 u64
| SubConnected bool u64 string
| SubDisconnected
| GapSeen u64
| StreamCompleted
| Errored string

record msg =
  msg_tenant :: tenant
  msg_stream_id :: string
  msg_kind :: report_kind

text \<open>\<open>ev_tx\<close> is the channel's content, \<open>None\<close> when no ingest URL is configured.\<close>

record events =
  et_tx :: "msg list option"
  et_owners :: "string \<rightharpoonup> tenant \<times> string"

definition events_disabled :: events where
  "events_disabled = \<lparr>et_tx = None, et_owners = Map.empty\<rparr>"

definition events_new :: "string option \<Rightarrow> events" where
  "events_new url = (case url of
     Some u \<Rightarrow> if u \<noteq> '''' then \<lparr>et_tx = Some [], et_owners = Map.empty\<rparr> else events_disabled
   | None \<Rightarrow> events_disabled)"

definition CHANNEL :: nat where
  "CHANNEL = 10000"

definition enabled :: "events \<Rightarrow> bool" where
  "enabled ev \<longleftrightarrow> et_tx ev \<noteq> None"

definition report :: "tenant \<Rightarrow> string \<Rightarrow> report_kind \<Rightarrow> events \<Rightarrow> events" where
  "report t plain k ev =
     (case et_tx ev of
        None \<Rightarrow> ev
      | Some q \<Rightarrow> if length q < CHANNEL
                  then ev\<lparr>et_tx := Some (q @ [\<lparr>msg_tenant = t, msg_stream_id = plain, msg_kind = k\<rparr>])\<rparr> else ev)"

definition set_owner :: "string \<Rightarrow> tenant \<Rightarrow> string \<Rightarrow> events \<Rightarrow> events" where
  "set_owner key t plain ev =
     (if enabled ev then
        (case et_owners ev key of
           None \<Rightarrow> ev\<lparr>et_owners := (et_owners ev)(key \<mapsto> (t, plain))\<rparr>
         | Some _ \<Rightarrow> ev)
      else ev)"

definition owner :: "string \<Rightarrow> events \<Rightarrow> (tenant \<times> string) option" where
  "owner key ev = (if enabled ev then et_owners ev key else None)"

definition forget :: "string \<Rightarrow> events \<Rightarrow> events" where
  "forget key ev = ev\<lparr>et_owners := (et_owners ev)(key := None)\<rparr>"

definition ev_created :: "tenant \<Rightarrow> string \<Rightarrow> events \<Rightarrow> events" where
  "ev_created t plain = report t plain StreamCreated"

definition ev_tokens :: "tenant \<Rightarrow> string \<Rightarrow> u64 \<Rightarrow> u64 \<Rightarrow> events \<Rightarrow> events" where
  "ev_tokens t plain count last_offset = report t plain (Tokens count last_offset)"

definition report_owner :: "string \<Rightarrow> report_kind \<Rightarrow> events \<Rightarrow> events" where
  "report_owner key k ev = (case owner key ev of Some (t, plain) \<Rightarrow> report t plain k ev | None \<Rightarrow> ev)"

definition sub_connected :: "string \<Rightarrow> bool \<Rightarrow> u64 \<Rightarrow> string \<Rightarrow> events \<Rightarrow> events" where
  "sub_connected key resumed start transport = report_owner key (SubConnected resumed start transport)"

definition sub_disconnected :: "string \<Rightarrow> events \<Rightarrow> events" where
  "sub_disconnected key = report_owner key SubDisconnected"

definition ev_gap :: "string \<Rightarrow> u64 \<Rightarrow> events \<Rightarrow> events" where
  "ev_gap key start = report_owner key (GapSeen start)"

definition ev_completed :: "string \<Rightarrow> events \<Rightarrow> events" where
  "ev_completed key ev = forget key (report_owner key StreamCompleted ev)"

definition ev_errored :: "string \<Rightarrow> string \<Rightarrow> events \<Rightarrow> events" where
  "ev_errored key message ev = forget key (report_owner key (Errored message) ev)"

fun kind_fields :: "report_kind \<Rightarrow> (string \<times> json) list" where
  "kind_fields StreamCreated = [(''type'', JStr ''stream.created'')]"
| "kind_fields (Tokens count last_offset) =
     [(''type'', JStr ''tokens''), (''count'', JNum count), (''lastOffset'', JNum last_offset)]"
| "kind_fields (SubConnected resumed start transport) =
     [(''type'', JStr ''subscriber.connected''), (''resumed'', JBool resumed), (''from'', JNum start),
      (''transport'', JStr transport)]"
| "kind_fields SubDisconnected = [(''type'', JStr ''subscriber.disconnected'')]"
| "kind_fields (GapSeen start) = [(''type'', JStr ''gap''), (''from'', JNum start)]"
| "kind_fields StreamCompleted = [(''type'', JStr ''stream.completed'')]"
| "kind_fields (Errored message) = [(''type'', JStr ''stream.errored''), (''message'', JStr message)]"

definition msg_json :: "msg \<Rightarrow> json" where
  "msg_json m = json_norm (JObj
     ([(''userId'', JStr (te_user_id (msg_tenant m)))]
      @ (case te_org_id (msg_tenant m) of None \<Rightarrow> [] | Some org \<Rightarrow> [(''orgId'', JStr org)])
      @ [(''streamId'', JStr (msg_stream_id m))] @ kind_fields (msg_kind m)))"

section \<open>The reporter\<close>

text \<open>The reporter's buffer, the bodies it has posted, and whether it has returned.\<close>

record reporter =
  re_buf :: "msg list"
  re_posted :: "json list list"
  re_ended :: bool

definition flush :: "reporter \<Rightarrow> reporter" where
  "flush r = (if re_buf r = [] then r
              else r\<lparr>re_buf := [], re_posted := re_posted r @ [map msg_json (re_buf r)]\<rparr>)"

datatype wake = Received msg | Ticked | ChannelClosed

fun reporter_step :: "wake \<Rightarrow> reporter \<Rightarrow> reporter" where
  "reporter_step (Received m) r =
     (let r = r\<lparr>re_buf := re_buf r @ [m]\<rparr> in if 256 \<le> length (re_buf r) then flush r else r)"
| "reporter_step Ticked r = flush r"
| "reporter_step ChannelClosed r = (flush r)\<lparr>re_ended := True\<rparr>"

text \<open>The wakes of a run: what was received, up to the closing of the channel.\<close>

fun reporter_run :: "wake list \<Rightarrow> reporter \<Rightarrow> reporter" where
  "reporter_run [] r = r"
| "reporter_run (w # ws) r = (if re_ended r then r else reporter_run ws (reporter_step w r))"

definition new_reporter :: reporter where
  "new_reporter = \<lparr>re_buf = [], re_posted = [], re_ended = False\<rparr>"

fun received :: "wake list \<Rightarrow> msg list" where
  "received [] = []"
| "received (Received m # ws) = m # received ws"
| "received (Ticked # ws) = received ws"
| "received (ChannelClosed # ws) = []"

definition reporter_ok :: "msg list \<Rightarrow> reporter \<Rightarrow> bool" where
  "reporter_ok ms r \<longleftrightarrow> concat (re_posted r) @ map msg_json (re_buf r) = map msg_json ms \<and>
     length (re_buf r) < 256 \<and> (\<forall>b \<in> set (re_posted r). b \<noteq> [] \<and> length b \<le> 256) \<and>
     (re_ended r \<longrightarrow> re_buf r = [])"

lemma flush_ok:
  assumes "concat (re_posted r) @ map msg_json (re_buf r) = map msg_json ms" and "length (re_buf r) \<le> 256"
    and "\<forall>b \<in> set (re_posted r). b \<noteq> [] \<and> length b \<le> 256" and "\<not> re_ended r"
  shows "reporter_ok ms (flush r)" and "re_buf (flush r) = []" and "re_ended (flush r) = re_ended r"
  using assms by (auto simp: reporter_ok_def flush_def)

lemma reporter_run_ok:
  "reporter_ok ms r \<Longrightarrow> \<not> re_ended r \<Longrightarrow>
   reporter_ok (ms @ received ws) (reporter_run ws r) \<and>
   (ChannelClosed \<in> set ws \<longrightarrow> re_buf (reporter_run ws r) = [])"
proof (induction ws arbitrary: ms r)
  case (Cons w ws)
  note ok = Cons.prems(1)[unfolded reporter_ok_def]
  show ?case
  proof (cases w)
    case (Received m)
    let ?r = "r\<lparr>re_buf := re_buf r @ [m]\<rparr>"
    have "reporter_ok (ms @ [m]) (reporter_step w r)" "\<not> re_ended (reporter_step w r)"
      using flush_ok[of ?r "ms @ [m]"] ok Cons.prems(2) by (auto simp: Received Let_def reporter_ok_def)
    from Cons.IH[OF this] Cons.prems(2) Received show ?thesis by simp
  next
    case Ticked
    have "reporter_ok ms (flush r)" "re_ended (flush r) = re_ended r"
      using flush_ok[of r ms] ok Cons.prems(2) by auto
    with Cons.IH[of ms "flush r"] Cons.prems(2) Ticked show ?thesis by simp
  next
    case ChannelClosed
    have f: "reporter_ok ms (flush r)" "re_buf (flush r) = []"
      using flush_ok[of r ms] ok Cons.prems(2) by auto
    have "reporter_run ws ((flush r)\<lparr>re_ended := True\<rparr>) = (flush r)\<lparr>re_ended := True\<rparr>"
      by (cases ws) simp_all
    with f Cons.prems(2) ChannelClosed show ?thesis by (simp add: reporter_ok_def)
  qed
qed simp

text \<open>
  C36: the reporter ships what it receives, once and in order. Whatever the wakes, the posted
  batches followed by what is still buffered are the messages received, in order; no batch is
  empty or longer than 256, the buffer stays below 256, and once the channel has closed nothing
  is left behind.
\<close>

theorem reporter_ships_in_order:
  "let r = reporter_run ws new_reporter in
     concat (re_posted r) @ map msg_json (re_buf r) = map msg_json (received ws) \<and>
     (\<forall>b \<in> set (re_posted r). b \<noteq> [] \<and> length b \<le> 256) \<and> length (re_buf r) < 256 \<and>
     (ChannelClosed \<in> set ws \<longrightarrow> re_buf r = [])"
  using reporter_run_ok[of "[]" new_reporter ws]
  by (simp add: reporter_ok_def new_reporter_def Let_def)

theorem reporter_ships_in_order_witness:
  "let r = reporter_run [Ticked, Received \<lparr>msg_tenant = \<lparr>te_user_id = ''u'', te_org_id = None\<rparr>,
       msg_stream_id = ''s'', msg_kind = StreamCreated\<rparr>, ChannelClosed] new_reporter in
     re_buf r = [] \<and> length (concat (re_posted r)) = 1"
proof -
  let ?ws = "[Ticked, Received \<lparr>msg_tenant = \<lparr>te_user_id = ''u'', te_org_id = None\<rparr>,
       msg_stream_id = ''s'', msg_kind = StreamCreated\<rparr>, ChannelClosed]"
  obtain r where r: "r = reporter_run ?ws new_reporter" by blast
  from reporter_ships_in_order[of ?ws, unfolded Let_def, folded r]
  have "concat (re_posted r) @ map msg_json (re_buf r) = map msg_json (received ?ws)" "re_buf r = []"
    by (blast, simp del: reporter_run.simps)
  from arg_cong[OF this(1), of length] this(2) show ?thesis unfolding r by (simp del: reporter_run.simps)
qed

end
