(* ===== verification/Api.thy ===== *)
theory Api
  imports Backend Events Routes
begin

text \<open>
  The stream API, \<open>crates/tideline-server/src/api.rs\<close>: access control with keys verified against
  a control plane, the naming of streams by tenant, signed tickets, and the handlers of
  \<open>/streams/:id\<close>, over any backend. The control plane, base64 with HMAC, and the JSON reader are
  parameters. Times are milliseconds, a handler reads the clock once.
\<close>

record auth_config =
  ac_publish_token :: "string option"
  ac_subscribe_token :: "string option"
  ac_verify_url :: "string option"
  ac_verify_secret :: "string option"

definition norm_env :: "string option \<Rightarrow> string option" where
  "norm_env v = (case v of None \<Rightarrow> None | Some s \<Rightarrow> if s = '''' then None else Some s)"

definition auth_from_env :: "(string \<Rightarrow> string option) \<Rightarrow> auth_config" where
  "auth_from_env env =
     \<lparr>ac_publish_token = norm_env (env ''TIDELINE_PUBLISH_TOKEN''),
      ac_subscribe_token = norm_env (env ''TIDELINE_SUBSCRIBE_TOKEN''),
      ac_verify_url = norm_env (env ''TIDELINE_AUTH_URL''),
      ac_verify_secret = norm_env (env ''TIDELINE_AUTH_SECRET'')\<rparr>"

section \<open>Keys\<close>

text \<open>
  What asking the control plane gives: nothing, or a status that is a success or not and, when
  the body decodes, the user and the organisation in it.
\<close>

datatype verify_reply = NoAnswer | Answered bool "(string option \<times> string option) option"

type_synonym control_plane = "string \<Rightarrow> string option \<Rightarrow> string \<Rightarrow> verify_reply"

type_synonym key_cache = "string \<rightharpoonup> tenant \<times> nat"

definition KEY_TTL :: nat where
  "KEY_TTL = 60000"

definition tenant_in :: "(string option \<times> string option) option \<Rightarrow> tenant" where
  "tenant_in body =
     (case body of
        Some (user, org) \<Rightarrow> \<lparr>te_user_id = (case user of None \<Rightarrow> '''' | Some u \<Rightarrow> u), te_org_id = org\<rparr>
      | None \<Rightarrow> \<lparr>te_user_id = '''', te_org_id = None\<rparr>)"

definition ask_key :: "control_plane \<Rightarrow> string \<Rightarrow> string option \<Rightarrow> nat \<Rightarrow> string \<Rightarrow> key_cache
    \<Rightarrow> tenant option \<times> key_cache" where
  "ask_key P url secret now tok cache =
     (case P url secret tok of
        Answered True body \<Rightarrow> (Some (tenant_in body), cache(tok \<mapsto> (tenant_in body, now + KEY_TTL)))
      | _ \<Rightarrow> (None, cache))"

definition verify_key :: "control_plane \<Rightarrow> string \<Rightarrow> string option \<Rightarrow> nat \<Rightarrow> string \<Rightarrow> key_cache
    \<Rightarrow> tenant option \<times> key_cache" where
  "verify_key P url secret now tok cache =
     (case cache tok of
        Some (t, exp) \<Rightarrow> if now < exp then (Some t, cache) else ask_key P url secret now tok cache
      | None \<Rightarrow> ask_key P url secret now tok cache)"

datatype authz = WriteDenied | WriteAllowed "tenant option"

definition authed :: "string option \<Rightarrow> headers \<Rightarrow> bool" where
  "authed token h =
     (case token of None \<Rightarrow> True
      | Some want \<Rightarrow> (case h_authorization h of None \<Rightarrow> False | Some a \<Rightarrow> strip_bearer a = want))"

definition authorize_write ::
  "auth_config \<Rightarrow> control_plane \<Rightarrow> nat \<Rightarrow> headers \<Rightarrow> key_cache \<Rightarrow> authz \<times> key_cache" where
  "authorize_write cfg P now h cache =
     (let presented = bearer h in
      if ac_publish_token cfg \<noteq> None \<and> presented = ac_publish_token cfg then (WriteAllowed None, cache)
      else
        let (tenant, cache) =
          (case (ac_verify_url cfg, presented) of
             (Some url, Some tok) \<Rightarrow> verify_key P url (ac_verify_secret cfg) now tok cache
           | _ \<Rightarrow> (None, cache))
        in case tenant of
             Some t \<Rightarrow> (WriteAllowed (Some t), cache)
           | None \<Rightarrow>
               if ac_publish_token cfg = None \<and> ac_verify_url cfg = None
               then (WriteAllowed None, cache) else (WriteDenied, cache))"

section \<open>Names and tickets\<close>

definition ns_key :: "string option \<Rightarrow> string \<Rightarrow> string" where
  "ns_key ns i =
     (case ns of Some n \<Rightarrow> if n \<noteq> '''' then n @ ''|'' @ i else i | None \<Rightarrow> i)"

text \<open>
  Base64 (URL safe, no padding), the HMAC check of a payload's text under a secret, and the JSON
  of some bytes.
\<close>

record ticket_lib =
  tk_decode :: "string \<Rightarrow> u8 list option"
  tk_verify :: "string \<Rightarrow> string \<Rightarrow> u8 list \<Rightarrow> bool"
  tk_json :: "u8 list \<Rightarrow> json option"

definition opt_bind :: "'a option \<Rightarrow> ('a \<Rightarrow> 'b option) \<Rightarrow> 'b option" where
  "opt_bind v f = (case v of None \<Rightarrow> None | Some x \<Rightarrow> f x)"

definition verify_ticket :: "ticket_lib \<Rightarrow> string \<Rightarrow> u64 \<Rightarrow> string \<Rightarrow> (string \<times> string) option" where
  "verify_ticket L secret now_secs ticket =
     opt_bind (split_once (CHR ''.'') ticket) (\<lambda>(payload_b64, sig_b64).
     opt_bind (tk_decode L sig_b64) (\<lambda>sig.
     if \<not> tk_verify L secret payload_b64 sig then None else
     opt_bind (tk_decode L payload_b64) (\<lambda>payload.
     opt_bind (tk_json L payload) (\<lambda>v.
     opt_bind (opt_bind (json_get v ''ns'') as_str) (\<lambda>ns.
     opt_bind (opt_bind (json_get v ''sid'') as_str) (\<lambda>sid.
     opt_bind (opt_bind (json_get v ''exp'') as_u64) (\<lambda>exp.
     if exp \<le> now_secs then None else Some (ns, sid))))))))"

section \<open>The handlers\<close>

record 'b app =
  ap_backend :: 'b
  ap_cache :: key_cache
  ap_events :: events

record api =
  ai_auth :: auth_config
  ai_control :: control_plane
  ai_tickets :: ticket_lib

definition on_backend :: "('b \<Rightarrow> 'b) \<Rightarrow> 'b app \<Rightarrow> 'b app" where
  "on_backend f app = app\<lparr>ap_backend := f (ap_backend app)\<rparr>"

definition on_events :: "(events \<Rightarrow> events) \<Rightarrow> 'b app \<Rightarrow> 'b app" where
  "on_events f app = app\<lparr>ap_events := f (ap_events app)\<rparr>"

text \<open>The checks the writing handlers share: the id, then the credential.\<close>

definition with_writer ::
  "api \<Rightarrow> nat \<Rightarrow> string \<Rightarrow> headers \<Rightarrow> (tenant option \<Rightarrow> 'b app \<Rightarrow> response \<times> 'b app) \<Rightarrow> 'b app
   \<Rightarrow> response \<times> 'b app" where
  "with_writer A now i h f app =
     (if \<not> valid_id i then (respond 400 (Text ''invalid stream id''), app)
      else (case authorize_write (ai_auth A) (ai_control A) now h (ap_cache app) of
              (WriteDenied, cache) \<Rightarrow> (respond 401 (Text ''unauthorized''), app\<lparr>ap_cache := cache\<rparr>)
            | (WriteAllowed t, cache) \<Rightarrow> f t (app\<lparr>ap_cache := cache\<rparr>)))"

definition key_for :: "tenant option \<Rightarrow> string \<Rightarrow> string" where
  "key_for t i = ns_key (map_option namespace t) i"

definition h_publish ::
  "('b, 'sub) backend \<Rightarrow> api \<Rightarrow> nat \<Rightarrow> string \<Rightarrow> string option \<Rightarrow> headers \<Rightarrow> string \<Rightarrow> 'b app
   \<Rightarrow> response \<times> 'b app" where
  "h_publish B A now i private h body = with_writer A now i h (\<lambda>tenant app.
     let key = key_for tenant i;
         app = (if private = Some ''1'' \<or> private = Some ''true''
                then on_backend (be_set_private B now key) app else app);
         (offset, b) = be_publish B now key body (ap_backend app);
         app = app\<lparr>ap_backend := b\<rparr>;
         app = (case tenant of
                  None \<Rightarrow> app
                | Some t \<Rightarrow>
                    let app = (if owner key (ap_events app) = None
                               then on_events (ev_created t i) (on_events (set_owner key t i) app) else app)
                    in on_events (ev_tokens t i 1 offset) app)
     in (respond 200 (Text (dec offset)), app))"

definition h_complete ::
  "('b, 'sub) backend \<Rightarrow> api \<Rightarrow> nat \<Rightarrow> string \<Rightarrow> headers \<Rightarrow> 'b app \<Rightarrow> response \<times> 'b app" where
  "h_complete B A now i h = with_writer A now i h (\<lambda>tenant app.
     let key = key_for tenant i
     in (respond 200 (Text ''ok''), on_events (ev_completed key) (on_backend (be_complete B now key) app)))"

definition h_fail ::
  "('b, 'sub) backend \<Rightarrow> api \<Rightarrow> nat \<Rightarrow> string \<Rightarrow> headers \<Rightarrow> string \<Rightarrow> 'b app \<Rightarrow> response \<times> 'b app" where
  "h_fail B A now i h body = with_writer A now i h (\<lambda>tenant app.
     let key = key_for tenant i;
         msg = (if body = '''' then ''error'' else body)
     in (respond 200 (Text ''ok''), on_events (ev_errored key msg) (on_backend (be_fail B now key msg) app)))"

definition h_delete ::
  "('b, 'sub) backend \<Rightarrow> api \<Rightarrow> nat \<Rightarrow> string \<Rightarrow> headers \<Rightarrow> 'b app \<Rightarrow> response \<times> 'b app" where
  "h_delete B A now i h = with_writer A now i h (\<lambda>tenant app.
     case be_delete B (key_for tenant i) (ap_backend app) of
       (existed, b) \<Rightarrow>
         (if existed then respond 200 (Text ''deleted'') else respond 404 (Text ''no such stream''),
          app\<lparr>ap_backend := b\<rparr>))"

section \<open>Subscribing\<close>

record sub_params =
  sp_from :: "u64 option"
  sp_ns :: "string option"
  sp_ticket :: "string option"

text \<open>The key a subscription reads: a ticket's, or the id's in the namespace asked for.\<close>

definition subscribe_key ::
  "('b, 'sub) backend \<Rightarrow> api \<Rightarrow> u64 \<Rightarrow> string \<Rightarrow> string option \<Rightarrow> string option \<Rightarrow> 'b app \<Rightarrow> response + string" where
  "subscribe_key B A secs i ns ticket app =
     (case ticket of
        Some tk \<Rightarrow>
          (case opt_bind (ac_verify_secret (ai_auth A)) (\<lambda>s. verify_ticket (ai_tickets A) s secs tk) of
             Some (ns, sid) \<Rightarrow> Inr (ns_key (Some ns) sid)
           | None \<Rightarrow> Inl (respond 401 (Text ''invalid or expired ticket'')))
      | None \<Rightarrow>
          (let k = ns_key ns i
           in if be_is_private B k (ap_backend app)
              then Inl (respond 401 (Text (''private stream '' @ map char_of [0xE2 :: nat, 0x80, 0x94] @ '' a signed ticket is required'')))
              else Inr k))"

record 'sub conn =
  co_key :: string
  co_from :: u64
  co_sub :: 'sub

definition open_conn ::
  "('b, 'sub) backend \<Rightarrow> nat \<Rightarrow> string \<Rightarrow> u64 \<Rightarrow> string \<Rightarrow> 'b app \<Rightarrow> 'sub conn \<times> 'b app" where
  "open_conn B now key start transport app =
     (let app = on_events (sub_connected key (0 < start) start transport) app;
          (sub, b) = be_subscribe B now key start (ap_backend app)
      in (\<lparr>co_key = key, co_from = start, co_sub = sub\<rparr>, app\<lparr>ap_backend := b\<rparr>))"

definition limit_reached :: "('b, 'sub) backend \<Rightarrow> string \<Rightarrow> 'b app \<Rightarrow> bool" where
  "limit_reached B key app \<longleftrightarrow> be_max_subscribers B (ap_backend app) \<le> be_subscriber_count B key (ap_backend app)"

definition resume_from :: "string option \<Rightarrow> u64 option \<Rightarrow> u64" where
  "resume_from last_event_id start =
     (case opt_bind last_event_id parse_u64 of
        Some seen_id \<Rightarrow> seen_id + 1
      | None \<Rightarrow> (case start of Some n \<Rightarrow> n | None \<Rightarrow> 0))"

definition h_subscribe ::
  "('b, 'sub) backend \<Rightarrow> api \<Rightarrow> nat \<Rightarrow> u64 \<Rightarrow> string \<Rightarrow> sub_params \<Rightarrow> headers \<Rightarrow> string option \<Rightarrow> 'b app
   \<Rightarrow> (response + 'sub conn) \<times> 'b app" where
  "h_subscribe B A now secs i q h last_event_id app =
     (if \<not> valid_id i then (Inl (respond 400 (Text ''invalid stream id'')), app)
      else if \<not> authed (ac_subscribe_token (ai_auth A)) h then (Inl (respond 401 (Text ''unauthorized'')), app)
      else (case subscribe_key B A secs i (sp_ns q) (sp_ticket q) app of
              Inl r \<Rightarrow> (Inl r, app)
            | Inr key \<Rightarrow>
                if limit_reached B key app
                then (Inl (respond 503 (Text ''stream subscriber limit reached'')), app)
                else (case open_conn B now key (resume_from last_event_id (sp_from q)) ''sse'' app of
                        (c, app) \<Rightarrow> (Inr c, app))))"

datatype sse_event = SseToken u64 string | SseGap | SseStreamError string | SseDone

fun sse_event_of :: "signal \<Rightarrow> sse_event" where
  "sse_event_of (TokenSig t) = SseToken (tk_offset t) (tk_data t)"
| "sse_event_of Gap = SseGap"
| "sse_event_of (ErrorSig e) = SseStreamError e"
| "sse_event_of Done = SseDone"

text \<open>One poll of the response body.\<close>

definition sse_next ::
  "('b, 'sub) backend \<Rightarrow> 'sub conn \<Rightarrow> 'b app \<Rightarrow> (sse_event option \<times> 'sub conn \<times> 'b app) option" where
  "sse_next B c app =
     (case be_next B (co_sub c) (ap_backend app) of
        None \<Rightarrow> None
      | Some (sig, sub, b) \<Rightarrow>
          (let app = app\<lparr>ap_backend := b\<rparr>;
               app = (if sig = Some Gap
                      then on_events (ev_gap (co_key c) (co_from c)) (on_backend (be_incr_gaps B) app) else app)
           in Some (map_option sse_event_of sig, c\<lparr>co_sub := sub\<rparr>, app)))"

text \<open>The connection ends, or is dropped: the guard reports it.\<close>

definition conn_drop :: "('b, 'sub) backend \<Rightarrow> 'sub conn \<Rightarrow> 'b app \<Rightarrow> 'b app" where
  "conn_drop B c app = on_events (sub_disconnected (co_key c)) (on_backend (be_drop B (co_sub c)) app)"

section \<open>WebSocket\<close>

record ws_params =
  wp_from :: "u64 option"
  wp_token :: "string option"
  wp_ns :: "string option"
  wp_ticket :: "string option"

definition h_subscribe_ws ::
  "('b, 'sub) backend \<Rightarrow> api \<Rightarrow> u64 \<Rightarrow> string \<Rightarrow> ws_params \<Rightarrow> 'b app \<Rightarrow> (response + string \<times> u64) \<times> 'b app" where
  "h_subscribe_ws B A secs i q app =
     (if \<not> valid_id i then (Inl (respond 400 (Text ''invalid stream id'')), app)
      else if ac_subscribe_token (ai_auth A) \<noteq> None \<and> wp_token q \<noteq> ac_subscribe_token (ai_auth A)
      then (Inl (respond 401 (Text ''unauthorized'')), app)
      else (case subscribe_key B A secs i (wp_ns q) (wp_ticket q) app of
              Inl r \<Rightarrow> (Inl r, app)
            | Inr key \<Rightarrow>
                if limit_reached B key app
                then (Inl (respond 503 (Text ''stream subscriber limit reached'')), app)
                else let start = (case wp_from q of Some n \<Rightarrow> n | None \<Rightarrow> 0)
                     in (Inr (key, start), on_events (sub_connected key (0 < start) start ''ws'') app)))"

fun encode_ws :: "json_lib \<Rightarrow> signal \<Rightarrow> string \<times> bool" where
  "encode_ws J (TokenSig t) = (json_text J (json_norm (JObj
     [(''type'', JStr ''token''), (''offset'', JNum (tk_offset t)), (''data'', JStr (tk_data t))])), False)"
| "encode_ws J Gap = (json_text J (json_norm (JObj [(''type'', JStr ''gap'')])), False)"
| "encode_ws J (ErrorSig e) = (json_text J (json_norm (JObj
     [(''type'', JStr ''error''), (''message'', JStr e)])), True)"
| "encode_ws J Done = (json_text J (json_norm (JObj [(''type'', JStr ''done'')])), True)"

datatype ws_frame = WsText string | WsClose

text \<open>
  The pump of an upgraded socket: a turn of its loop is the stream's next result or the
  client's, and whether a send succeeds. It closes itself by a close frame, or returns.
\<close>

record 'sub pump =
  pu_conn :: "'sub conn"
  pu_out :: "ws_frame list"
  pu_open :: bool

datatype ws_turn = StreamReady bool | StreamEnded | ClientFrame | ClientGone

definition pump_start ::
  "('b, 'sub) backend \<Rightarrow> nat \<Rightarrow> string \<Rightarrow> u64 \<Rightarrow> 'b app \<Rightarrow> 'sub pump \<times> 'b app" where
  "pump_start B now key start app =
     (case be_subscribe B now key start (ap_backend app) of
        (sub, b) \<Rightarrow> (\<lparr>pu_conn = \<lparr>co_key = key, co_from = start, co_sub = sub\<rparr>, pu_out = [], pu_open = True\<rparr>,
                     app\<lparr>ap_backend := b\<rparr>))"

definition pump_end :: "('b, 'sub) backend \<Rightarrow> ws_frame list \<Rightarrow> 'sub pump \<Rightarrow> 'b app \<Rightarrow> 'sub pump \<times> 'b app" where
  "pump_end B frames p app =
     (p\<lparr>pu_out := pu_out p @ frames, pu_open := False\<rparr>, conn_drop B (pu_conn p) app)"

fun pump_turn ::
  "json_lib \<Rightarrow> ('b, 'sub) backend \<Rightarrow> ws_turn \<Rightarrow> 'sub pump \<Rightarrow> 'b app \<Rightarrow> 'sub pump \<times> 'b app" where
  "pump_turn J B ClientGone p app = pump_end B [] p app"
| "pump_turn J B ClientFrame p app = (p, app)"
| "pump_turn J B StreamEnded p app = pump_end B [WsClose] p app"
| "pump_turn J B (StreamReady sent) p app =
     (case be_next B (co_sub (pu_conn p)) (ap_backend app) of
        None \<Rightarrow> (p, app)
      | Some (sig, sub, b) \<Rightarrow>
          (let p = p\<lparr>pu_conn := (pu_conn p)\<lparr>co_sub := sub\<rparr>\<rparr>; app = app\<lparr>ap_backend := b\<rparr>
           in case sig of
                None \<Rightarrow> (p, app)
              | Some s \<Rightarrow>
                  (let app = (if s = Gap then on_events (ev_gap (co_key (pu_conn p)) (co_from (pu_conn p))) app else app);
                       (text, terminal) = encode_ws J s
                   in if \<not> sent then pump_end B [] p app
                      else if terminal then pump_end B [WsText text, WsClose] p app
                      else (p\<lparr>pu_out := pu_out p @ [WsText text]\<rparr>, app))))"

section \<open>The record layer's credentials\<close>

definition tlr_mode :: "auth_config \<Rightarrow> auth_mode" where
  "tlr_mode cfg =
     \<lparr>am_publish_token = ac_publish_token cfg, am_subscribe_token = ac_subscribe_token cfg,
      am_cloud_verify = (ac_verify_url cfg \<noteq> None)\<rparr>"

definition cloud_resolve ::
  "auth_config \<Rightarrow> control_plane \<Rightarrow> nat \<Rightarrow> string \<Rightarrow> key_cache \<Rightarrow> string option \<times> key_cache" where
  "cloud_resolve cfg P now tok cache =
     (case ac_verify_url cfg of
        None \<Rightarrow> (None, cache)
      | Some url \<Rightarrow> (case verify_key P url (ac_verify_secret cfg) now tok cache of
                      (t, cache) \<Rightarrow> (map_option namespace t, cache)))"

end
