(* ===== verification/Watch.thy ===== *)
theory Watch
  imports Handlers Store_Views Stream_Core
begin

text \<open>
  The live tail of a record, \<open>watch\<close> of \<open>crates/tideline-server/src/tlr/routes.rs\<close>. The
  response is a generator: it drains the record from the next number on, in batches of 500,
  and then waits for the stream of the run to say that something changed. Its state is the next
  number, whether the stream has ended, the frames sent and where it is. The signals of the
  stream are the argument of a step, so what holds here holds for every streaming backend.
\<close>

datatype frame = EventFrame u64 string | DoneFrame | StreamError string

datatype watch_at = Draining | Waiting | Closed

record watcher =
  wt_next :: u64
  wt_finished :: bool
  wt_at :: watch_at
  wt_out :: "frame list"

definition new_watcher :: "u64 \<Rightarrow> watcher" where
  "new_watcher start = \<lparr>wt_next = start, wt_finished = False, wt_at = Draining, wt_out = []\<rparr>"

definition h_watch ::
  "'s tlr_state \<Rightarrow> string \<Rightarrow> events_query \<Rightarrow> headers \<Rightarrow> 's server
   \<Rightarrow> (response + string \<times> watcher) \<times> 's server" where
  "h_watch st i q h sv =
     (case authorize st h False of
        Inl r \<Rightarrow> (Inl r, sv)
      | Inr ns \<Rightarrow>
          if \<not> valid_id i then (Inl (bad ''invalid run id''), sv)
          else let start = (case eq_from q of None \<Rightarrow> 0 | Some n \<Rightarrow> n)
               in (Inr (ns, new_watcher start), spine (Subscribe (stream_name ns i) 0) sv))"

text \<open>An event that cannot be printed is passed over, and \<open>next\<close> with it.\<close>

definition frames_of :: "decoders \<Rightarrow> run_event \<Rightarrow> frame list" where
  "frames_of C e = (case en_event C e of None \<Rightarrow> [] | Some json \<Rightarrow> [EventFrame (ev_seq e) json])"

definition watch_emit :: "decoders \<Rightarrow> run_event \<Rightarrow> watcher \<Rightarrow> watcher" where
  "watch_emit C e w = w\<lparr>wt_next := ev_seq e + 1, wt_out := wt_out w @ frames_of C e\<rparr>"

text \<open>One round of the inner loop, with the test that follows it when it is the last.\<close>

definition watch_batch :: "decoders \<Rightarrow> run_event list \<Rightarrow> watcher \<Rightarrow> watcher" where
  "watch_batch C batch w =
     (let w = fold (watch_emit C) batch w
      in if length batch < 500 then
           (if wt_finished w then w\<lparr>wt_out := wt_out w @ [DoneFrame], wt_at := Closed\<rparr>
            else w\<lparr>wt_at := Waiting\<rparr>)
         else w)"

definition watch_read ::
  "'s tlr_state \<Rightarrow> string \<Rightarrow> string \<Rightarrow> watcher \<Rightarrow> 's server \<Rightarrow> watcher \<times> 's server" where
  "watch_read st ns i w sv =
     (case on_store (st_events (tl_store st) ns i (wt_next w) 500) sv of
        (Inl e, sv) \<Rightarrow> (w\<lparr>wt_at := Closed\<rparr>, sv)
      | (Inr batch, sv) \<Rightarrow> (watch_batch (tl_codec st) batch w, sv))"

text \<open>What \<open>live.next()\<close> returned.\<close>

fun watch_next :: "signal option \<Rightarrow> watcher \<Rightarrow> watcher" where
  "watch_next (Some (TokenSig t)) w = w\<lparr>wt_at := Draining\<rparr>"
| "watch_next (Some Gap) w = w\<lparr>wt_at := Draining\<rparr>"
| "watch_next (Some (ErrorSig m)) w = w\<lparr>wt_out := wt_out w @ [StreamError m], wt_at := Closed\<rparr>"
| "watch_next (Some Done) w = w\<lparr>wt_finished := True, wt_at := Draining\<rparr>"
| "watch_next None w = w\<lparr>wt_finished := True, wt_at := Draining\<rparr>"

text \<open>
  A watcher among other requests: between any two of its steps the server may serve any, of
  any tenant. The budget is the number of events there is still room for.
\<close>

inductive watching ::
  "db tlr_state \<Rightarrow> string \<Rightarrow> string \<Rightarrow> u64 \<Rightarrow> nat \<Rightarrow> db server \<Rightarrow> watcher \<Rightarrow> bool"
  for st ns i start where
  Opened: "sv_ok st B n sv \<Longrightarrow> watching st ns i start n sv (new_watcher start)"
| Served: "watching st ns i start (n + 5000) sv w \<Longrightarrow> watching st ns i start n (snd (serve st req sv)) w"
| Drained: "watching st ns i start n sv w \<Longrightarrow> wt_at w = Draining \<Longrightarrow> watch_read st ns i w sv = (w', sv') \<Longrightarrow>
    watching st ns i start n sv' w'"
| Woken: "watching st ns i start n sv w \<Longrightarrow> wt_at w = Waiting \<Longrightarrow>
    watching st ns i start n sv (watch_next sig w)"

section \<open>What a watcher has sent\<close>

text \<open>
  The frames sent are those of a list of events that commit to what the record does, from the
  first number on; then at most one closing frame.
\<close>

definition sent_so_far ::
  "db tlr_state \<Rightarrow> string \<Rightarrow> string \<Rightarrow> u64 \<Rightarrow> db server \<Rightarrow> watcher \<Rightarrow> run_event list \<Rightarrow> frame list \<Rightarrow> bool" where
  "sent_so_far st ns i start sv w evs tail \<longleftrightarrow>
     wt_out w = concat (map (frames_of (tl_codec st)) evs) @ tail \<and>
     commitments (tl_sha st) evs
       = take (length evs) (drop (start_index start) (commitments (tl_sha st) (srecord st ns i sv))) \<and>
     wt_next w = (if evs = [] then start else of_nat (start_index start + length evs)) \<and>
     (wt_at w \<noteq> Closed \<longrightarrow> tail = []) \<and> tail \<in> {[], [DoneFrame]} \<union> range (\<lambda>m. [StreamError m])"

lemma length_commitments [simp]: "length (commitments sha evs) = length evs"
  by (simp add: commitments_def)

lemma sent_within:
  assumes "sent_so_far st ns i start sv w evs tail" and "evs \<noteq> []"
  shows "start_index start + length evs \<le> length (srecord st ns i sv)"
proof -
  have "length (commitments (tl_sha st) evs) = length evs" by simp
  with assms(1) have "length evs \<le> length (srecord st ns i sv) - start_index start"
    unfolding sent_so_far_def by (metis length_commitments length_drop length_take min.absorb_iff1 min.commute)
  moreover have "0 < length evs" using assms(2) by simp
  ultimately show ?thesis by linarith
qed

lemma sent_extends:
  assumes "sent_so_far st ns i start sv w evs tail"
    and "extends (tl_json st) (tl_sha st) (sdb sv) (sdb sv')"
  shows "sent_so_far st ns i start sv' w evs tail"
proof (cases "evs = []")
  case False
  let ?C = "\<lambda>sv. commitments (tl_sha st) (srecord st ns i sv)"
  obtain ys where ys: "?C sv' = ?C sv @ ys"
    using assms(2) unfolding extends_def prefix_def srecord_def by blast
  have "start_index start + length evs \<le> length (?C sv)"
    using sent_within[OF assms(1) False] by simp
  with assms(1) show ?thesis unfolding sent_so_far_def ys by simp
qed (use assms(1) in \<open>simp add: sent_so_far_def commitments_def\<close>)

lemma watch_emit_fold:
  "fold (watch_emit C) batch w = w\<lparr>wt_next := (if batch = [] then wt_next w else ev_seq (last batch) + 1),
     wt_out := wt_out w @ concat (map (frames_of C) batch)\<rparr>"
  by (induction batch arbitrary: w) (auto simp: watch_emit_def)

text \<open>A read of the store in a good state fails or returns the window.\<close>

lemma store_events_cases:
  assumes "server_ok J sha S kr B n c"
  shows "(\<exists>e. store_events J ns i start limit s c = (Inl e, c)) \<or>
    store_events J ns i start limit s c =
      (Inr (take (unat (clamp 1 5000 limit)) (drop (start_index start) (record_of J ns i c))), c)"
  by (cases "sys_fault s")
    (simp_all add: store_events_def with_conn_def query_def begin_stmt_def Let_def record_of_def take_map
      drop_map events_rows[OF linked_ok[OF assms] server_okD(4)[OF assms]])

lemma start_index_of_nat: "k < 2 ^ 63 \<Longrightarrow> start_index (of_nat k) = k"
  by (simp add: start_index_def sint_of_nat_u64 unat_of_nat_u64)

lemma watch_read_cases:
  assumes "sqlite_backed X st" and "sv_ok st B n sv" and "watch_read st ns i w sv = (w', sv')"
  shows "sdb sv' = sdb sv" and "w' = w\<lparr>wt_at := Closed\<rparr> \<or>
    w' = watch_batch (tl_codec st) (take 500 (drop (start_index (wt_next w)) (srecord st ns i sv))) w"
proof -
  obtain r sv1 where call: "on_store (st_events (tl_store st) ns i (wt_next w) 500) sv = (r, sv1)" by force
  have "sv' = sv1" using assms(3) call by (auto simp: watch_read_def split: sum.splits)
  with call reads_keep_sdb(3)[OF assms(1), of ns i "wt_next w" 500 sv] show "sdb sv' = sdb sv" by simp
  have "unat (clamp 1 5000 500) = 500" by (simp add: clamp_def)
  with store_events_cases[OF assms(2)[unfolded sv_ok_def], of ns i "wt_next w" 500 "snow sv"]
    on_store_call(1)[of "store_events (tl_json st) ns i (wt_next w) 500" sv] call
  have "(\<exists>e. r = Inl e) \<or> r = Inr (take 500 (drop (start_index (wt_next w)) (srecord st ns i sv)))"
    by (auto simp: sqlite_calls[OF assms(1)] srecord_def)
  with assms(3) call show "w' = w\<lparr>wt_at := Closed\<rparr> \<or>
    w' = watch_batch (tl_codec st) (take 500 (drop (start_index (wt_next w)) (srecord st ns i sv))) w"
    by (auto simp: watch_read_def)
qed

text \<open>Where the next batch starts: after what was sent, wherever the watcher began.\<close>

lemma next_index:
  assumes "sv_ok st B n sv" and "sent_so_far st ns i start sv w evs tail"
  shows "start_index (wt_next w) = start_index start + length evs"
proof (cases "evs = []")
  case False
  have "start_index start + length evs < 2 ^ 63"
    using sent_within[OF assms(2) False] length_record_ok[OF assms(1)[unfolded sv_ok_def], of ns i]
    by (simp add: srecord_def)
  with False assms(2) show ?thesis
    using start_index_of_nat[of "start_index start + length evs"] by (simp add: sent_so_far_def)
qed (use assms(2) in \<open>simp add: sent_so_far_def\<close>)

lemma batch_next:
  assumes "linked sha evs" and "batch = take m (drop k evs)" and "batch \<noteq> []"
  shows "ev_seq (last batch) + 1 = of_nat (k + length batch)"
proof -
  from assms(2,3) have k: "k + (length batch - 1) < length evs" "0 < length batch" by auto
  have "length batch \<le> m" using assms(2) by simp
  then have "length batch - 1 < m" using k(2) by linarith
  then have "batch ! (length batch - 1) = drop k evs ! (length batch - 1)"
    unfolding assms(2) by (rule nth_take)
  then have "last batch = evs ! (k + (length batch - 1))"
    using assms(3) k(1) by (simp add: last_conv_nth)
  then have "ev_seq (last batch) = of_nat (k + (length batch - 1))"
    using linked_seq_nth[OF assms(1) k(1)] by simp
  moreover have "k + length batch = Suc (k + (length batch - 1))" using k(2) by simp
  ultimately show ?thesis by (metis of_nat_Suc add.commute)
qed

lemma sent_batch:
  assumes "sv_ok st B n sv" and "sent_so_far st ns i start sv w evs []" and "wt_at w = Draining"
    and batch: "batch = take 500 (drop (start_index (wt_next w)) (srecord st ns i sv))"
  shows "sent_so_far st ns i start sv (watch_batch (tl_codec st) batch w) (evs @ batch)
    (if length batch < 500 \<and> wt_finished w then [DoneFrame] else [])"
proof -
  let ?rec = "srecord st ns i sv" and ?s = "start_index start" and ?C = "commitments (tl_sha st)"
  note idx = next_index[OF assms(1,2)]
  have "?C batch = take 500 (drop (?s + length evs) (?C ?rec))"
    by (simp add: batch idx commitments_def take_map drop_map)
  then have "?C batch = take (length batch) (drop (?s + length evs) (?C ?rec))"
    by (metis append_eq_conv_conj append_take_drop_id length_commitments)
  then have C: "?C (evs @ batch) = take (length (evs @ batch)) (drop ?s (?C ?rec))"
    using assms(2) by (simp add: sent_so_far_def take_add add.commute[of ?s])
  have "linked (tl_sha st) ?rec" unfolding srecord_def by (rule linked_ok[OF assms(1)[unfolded sv_ok_def]])
  from batch_next[OF this batch[unfolded idx]]
  have "(if batch = [] then wt_next w else ev_seq (last batch) + 1)
    = (if evs @ batch = [] then start else of_nat (?s + length (evs @ batch)))"
    using assms(2) by (simp add: sent_so_far_def add.assoc)
  with C assms(2,3) show ?thesis
    by (simp add: sent_so_far_def watch_batch_def watch_emit_fold Let_def)
qed

section \<open>Any run of a watcher\<close>

lemma sv_ok_self: "sv_ok st B n sv \<Longrightarrow> sv_ok st (sdb sv) n sv"
  by (rule sv_ok_rebase)

lemma served_extends:
  assumes "sqlite_server X st" and "sv_ok st B (n + 5000) sv"
  shows "extends (tl_json st) (tl_sha st) (sdb sv) (sdb (snd (serve st req sv)))"
  using serve_ok[OF assms(1) sv_ok_rebase[OF assms(2)], of req]
  unfolding sv_ok_def by (rule server_okD(7))

lemma sent_cong: "sdb sv' = sdb sv \<Longrightarrow> sent_so_far st ns i start sv' w = sent_so_far st ns i start sv w"
  by (intro ext) (simp add: sent_so_far_def srecord_def)

lemma sent_closed:
  "sent_so_far st ns i start sv w evs [] \<Longrightarrow> sent_so_far st ns i start sv (w\<lparr>wt_at := Closed\<rparr>) evs []"
  by (simp add: sent_so_far_def)

lemma watching_sent:
  assumes "sqlite_server X st" and "watching st ns i start n sv w"
  shows "(\<exists>B. sv_ok st B n sv) \<and> (\<exists>evs tail. sent_so_far st ns i start sv w evs tail)"
  using assms(2)
proof (induction rule: watching.induct)
  case (Opened B n sv)
  then show ?case
    by (auto simp: sent_so_far_def new_watcher_def commitments_def intro!: exI[of _ "[]"])
next
  case (Served n sv w req)
  then obtain B evs tail where ok: "sv_ok st B (n + 5000) sv" and "sent_so_far st ns i start sv w evs tail"
    by blast
  then show ?case
    using sent_extends[OF _ served_extends[OF assms(1) ok]] serve_ok[OF assms(1) ok] by blast
next
  case (Drained n sv w w' sv')
  then obtain B evs tail where ok: "sv_ok st B n sv" and sent: "sent_so_far st ns i start sv w evs tail"
    by blast
  then have sent: "sent_so_far st ns i start sv w evs []"
    using Drained.hyps(2) by (simp add: sent_so_far_def)
  note read = watch_read_cases[OF sqlite_serverD(1)[OF assms(1)] ok Drained.hyps(3)]
  have "sv_ok st B n sv'" using ok read(1) by (simp add: sv_ok_def)
  moreover have "\<exists>evs tail. sent_so_far st ns i start sv w' evs tail"
    using read(2) sent_closed[OF sent] sent_batch[OF ok sent Drained.hyps(2) refl] by metis
  ultimately show ?case unfolding sent_cong[OF read(1)] by blast
next
  case (Woken n sv w sig)
  then obtain evs tail where sent: "sent_so_far st ns i start sv w evs tail" by blast
  then have "tail = []" using Woken.hyps(2) by (simp add: sent_so_far_def)
  with sent have "\<exists>tail. sent_so_far st ns i start sv (watch_next sig w) evs tail"
    by (cases "(sig, w)" rule: watch_next.cases) (auto simp: sent_so_far_def)
  with Woken.IH show ?case by blast
qed

text \<open>
  C15: a watcher sends the record, in order, without a gap or a repeat. However its reads and
  wake-ups interleave with requests of any tenants, store failures and wake-ups that mean
  nothing: the event frames are those of a list of events that commit, one for one, to what
  the record commits to from the first number on, and at most one closing frame follows.
\<close>

theorem watcher_sends_the_record:
  assumes "sqlite_server X st" and "watching st ns i start n sv w"
  shows "\<exists>evs tail. wt_out w = concat (map (frames_of (tl_codec st)) evs) @ tail \<and>
    commitments (tl_sha st) evs
      = take (length evs) (drop (start_index start) (commitments (tl_sha st) (srecord st ns i sv))) \<and>
    (tail = [] \<or> tail = [DoneFrame] \<or> (\<exists>m. tail = [StreamError m]))"
  using watching_sent[OF assms] unfolding sent_so_far_def by blast

text \<open>
  \<open>done\<close> closes a complete copy: when the frame \<open>done\<close> is sent, everything the record held
  at that moment, from the first number on, has been sent before it.
\<close>

theorem done_frame_is_last:
  assumes "sqlite_server X st" and "watching st ns i start n sv w" and "wt_at w = Draining"
    and "watch_read st ns i w sv = (w', sv')" and "DoneFrame \<in> set (wt_out w')"
  shows "\<exists>evs. wt_out w' = concat (map (frames_of (tl_codec st)) evs) @ [DoneFrame] \<and>
    commitments (tl_sha st) evs
      = drop (start_index start) (commitments (tl_sha st) (srecord st ns i sv'))"
proof -
  obtain B evs tail where ok: "sv_ok st B n sv" and "sent_so_far st ns i start sv w evs tail"
    using watching_sent[OF assms(1,2)] by blast
  then have sent: "sent_so_far st ns i start sv w evs []"
    using assms(3) by (simp add: sent_so_far_def)
  note read = watch_read_cases[OF sqlite_serverD(1)[OF assms(1)] ok assms(4)]
  have no: "DoneFrame \<notin> set (concat (map (frames_of C) evs))" for C evs
    by (auto simp: frames_of_def split: option.splits)
  obtain batch where batch: "batch = take 500 (drop (start_index (wt_next w)) (srecord st ns i sv))" by blast
  have "w' \<noteq> w\<lparr>wt_at := Closed\<rparr>" using assms(5) sent no by (auto simp: sent_so_far_def)
  then have w': "w' = watch_batch (tl_codec st) batch w" using read(2) batch by blast
  note sent' = sent_batch[OF ok sent assms(3) batch, folded w']
  then have short: "length batch < 500" "wt_finished w"
    using assms(5) no by (auto simp: sent_so_far_def split: if_splits)
  then have "length (srecord st ns i sv) \<le> start_index start + length (evs @ batch)"
    using next_index[OF ok sent] by (simp add: batch)
  then have all: "take (length (evs @ batch)) (drop (start_index start) (commitments (tl_sha st) (srecord st ns i sv)))
    = drop (start_index start) (commitments (tl_sha st) (srecord st ns i sv))" by simp
  have "srecord st ns i sv' = srecord st ns i sv" by (simp add: srecord_def read(1))
  with sent' short show ?thesis
    unfolding sent_so_far_def all by (intro exI[of _ "evs @ batch"]) simp
qed

section \<open>A drain comes to an end\<close>


lemma watch_read_calm:
  assumes "sqlite_backed X st" and "sv_ok st B n sv" and "calm_world (sv_world sv)"
  shows "\<exists>sv'. watch_read st ns i w sv =
      (watch_batch (tl_codec st) (take 500 (drop (start_index (wt_next w)) (srecord st ns i sv))) w, sv') \<and>
    sdb sv' = sdb sv \<and> calm_world (sv_world sv')"
proof -
  have clamp: "unat (clamp 1 5000 500) = 500" by (simp add: clamp_def)
  have "quiet (w_sys (sv_world sv) (w_tick (sv_world sv)))" using assms(3) by (simp add: calm_world_def)
  from store_events_quiet[OF linked_ok[OF assms(2)[unfolded sv_ok_def]]
      server_okD(4)[OF assms(2)[unfolded sv_ok_def]] this, of ns i "wt_next w" 500] assms(3)
  show ?thesis
    unfolding clamp
    by (simp add: watch_read_def sqlite_calls[OF assms(1)] on_store_def call_def srecord_def sdb_def calm_world_def)
qed


lemma watch_batch_short:
  assumes "length batch < 500"
  shows "wt_at (watch_batch C batch w) = (if wt_finished w then Closed else Waiting)"
    "wt_out (watch_batch C batch w)
       = wt_out w @ concat (map (frames_of C) batch) @ (if wt_finished w then [DoneFrame] else [])"
  using assms by (auto simp: watch_batch_def watch_emit_fold Let_def)




section \<open>A small watch\<close>

lemma demo_watch_ok: "sv_ok demo_state empty_db 5000 (demo_server demo_db)"
  using demo_server_ok by (simp add: sv_ok_def)

lemma demo_watch_length: "length (srecord demo_state ''acme'' ''loan'' (demo_server demo_db)) = 2"
  by (simp add: srecord_def)

text \<open>Opened at the start, drained once, told of the end, and drained again.\<close>

lemma demo_watch:
  "\<exists>w sv. watching demo_state ''acme'' ''loan'' 0 5000 sv w \<and> wt_at w = Draining \<and> wt_finished w \<and>
     calm_world (sv_world sv) \<and> sv_ok demo_state empty_db 5000 sv \<and>
     length (srecord demo_state ''acme'' ''loan'' sv) = 2"
proof -
  let ?w = "new_watcher 0"
  have open_: "watching demo_state ''acme'' ''loan'' 0 5000 (demo_server demo_db) ?w"
    by (rule watching.Opened[OF demo_watch_ok])
  obtain sv1 where read: "watch_read demo_state ''acme'' ''loan'' ?w (demo_server demo_db) =
      (watch_batch (tl_codec demo_state)
        (take 500 (drop (start_index (wt_next ?w)) (srecord demo_state ''acme'' ''loan'' (demo_server demo_db)))) ?w, sv1)"
    and sv1: "sdb sv1 = sdb (demo_server demo_db)" "calm_world (sv_world sv1)"
    using watch_read_calm[OF demo_state_simps(2) demo_watch_ok, of "''acme''" "''loan''" ?w] by auto
  have at: "wt_at ?w = Draining" by (simp add: new_watcher_def)
  let ?w1 = "watch_batch (tl_codec demo_state)
    (take 500 (drop (start_index (wt_next ?w)) (srecord demo_state ''acme'' ''loan'' (demo_server demo_db)))) ?w"
  have "wt_at ?w1 = Waiting"
    using watch_batch_short(1)[of "take 500 (drop (start_index (wt_next ?w))
      (srecord demo_state ''acme'' ''loan'' (demo_server demo_db)))" "tl_codec demo_state" ?w] demo_watch_length
    by (simp add: new_watcher_def)
  from watching.Woken[OF watching.Drained[OF open_ at read] this, of "Some Done"]
  show ?thesis
    using sv1 demo_watch_ok demo_watch_length
    by (intro exI[of _ "watch_next (Some Done) ?w1"] exI[of _ sv1]) (simp add: sv_ok_def srecord_def)
qed

theorem watcher_sends_the_record_witness:
  "\<exists>w sv evs tail. watching demo_state ''acme'' ''loan'' 0 5000 sv w \<and> wt_finished w \<and>
     wt_out w = concat (map (frames_of (tl_codec demo_state)) evs) @ tail"
  using demo_watch watcher_sends_the_record[OF demo_state_simps(1)] by blast

theorem done_frame_is_last_witness:
  "\<exists>(w :: watcher) evs. wt_out w = concat (map (frames_of (tl_codec demo_state)) evs) @ [DoneFrame] \<and> length evs = 2"
proof -
  obtain w sv where w: "watching demo_state ''acme'' ''loan'' 0 5000 sv w" "wt_at w = Draining" "wt_finished w"
    "calm_world (sv_world sv)" "sv_ok demo_state empty_db 5000 sv"
    "length (srecord demo_state ''acme'' ''loan'' sv) = 2" using demo_watch by blast
  let ?batch = "take 500 (drop (start_index (wt_next w)) (srecord demo_state ''acme'' ''loan'' sv))"
  obtain sv' where read: "watch_read demo_state ''acme'' ''loan'' w sv
      = (watch_batch (tl_codec demo_state) ?batch w, sv')" "sdb sv' = sdb sv"
    using watch_read_calm[OF demo_state_simps(2) w(5,4)] by blast
  have "DoneFrame \<in> set (wt_out (watch_batch (tl_codec demo_state) ?batch w))"
    using watch_batch_short(2)[of ?batch "tl_codec demo_state" w] w(3,6) by simp
  from done_frame_is_last[OF demo_state_simps(1) w(1,2) read(1) this] obtain evs
    where out: "wt_out (watch_batch (tl_codec demo_state) ?batch w)
        = concat (map (frames_of (tl_codec demo_state)) evs) @ [DoneFrame]"
      and "commitments (tl_sha demo_state) evs = drop (start_index 0)
        (commitments (tl_sha demo_state) (srecord demo_state ''acme'' ''loan'' sv'))" by blast
  from arg_cong[OF this(2), of length] have "length evs = 2"
    using w(6) read(2) by (simp add: srecord_def start_index_def)
  with out show ?thesis by blast
qed


end
