(* ===== verification/Api_Props.thy ===== *)
theory Api_Props
  imports Api Watch
begin

text \<open>
  Who can reach which stream: names of different tenants never meet, a key is accepted only on
  the control plane's word, and where the stream API and the record API share a backend.
\<close>

section \<open>Names\<close>

definition ns_of :: "tenant option \<Rightarrow> string" where
  "ns_of t = (case t of None \<Rightarrow> '''' | Some t \<Rightarrow> namespace t)"

lemma bar_not_in_id: "valid_id i \<Longrightarrow> CHR ''|'' \<notin> set i"
  by (auto simp: valid_id_def list_all_iff id_char_def Let_def)

lemma append_last_sep:
  "x \<notin> set i \<Longrightarrow> x \<notin> set j \<Longrightarrow> a @ x # i = b @ x # j \<Longrightarrow> a = b \<and> i = j"
proof (induction a arbitrary: b)
  case Nil
  then show ?case by (cases b) auto
next
  case (Cons y a)
  then show ?case by (cases b) auto
qed

lemma key_for_ns: "key_for t i = (if ns_of t = '''' then i else ns_of t @ ''|'' @ i)"
  by (simp add: key_for_def ns_key_def ns_of_def split: option.split)

text \<open>
  C32: no two tenants address the same stream. For ids the API accepts, the key of a stream
  determines its id and the namespace of the credential, the shared namespace of the static
  token included; a namespace may contain the separator.
\<close>

theorem stream_keys_are_separate:
  assumes "valid_id i" and "valid_id j"
  shows "key_for t i = key_for u j \<longleftrightarrow> i = j \<and> ns_of t = ns_of u"
  using bar_not_in_id[OF assms(1)] bar_not_in_id[OF assms(2)] append_last_sep[of "CHR ''|''" i j "ns_of t" "ns_of u"]
  by (auto simp: key_for_ns)

theorem stream_keys_are_separate_witness:
  "key_for (Some \<lparr>te_user_id = ''u|a'', te_org_id = None\<rparr>) ''s''
     \<noteq> key_for (Some \<lparr>te_user_id = ''u'', te_org_id = None\<rparr>) ''s''"
  using stream_keys_are_separate[of "''s''" "''s''" "Some \<lparr>te_user_id = ''u|a'', te_org_id = None\<rparr>"
      "Some \<lparr>te_user_id = ''u'', te_org_id = None\<rparr>"]
  by (simp add: valid_id_def id_char_def ns_of_def namespace_def)

section \<open>Keys\<close>











section \<open>A reply that does not decode\<close>

text \<open>
  C40: a key whose reply does not decode is taken for the operator's. If the control plane
  answers a success whose body is not the expected JSON, the key's tenant has no namespace:
  the stream API lets it publish under the bare id, as the static token does, and the record
  API grants it the shared namespace. Two such keys of different customers share everything.
\<close>

theorem undecoded_reply_is_the_operator:
  assumes "ac_verify_url cfg = Some url" and "bearer h = Some tok" and "ac_publish_token cfg \<noteq> Some tok"
    and "P url (ac_verify_secret cfg) tok = Answered True None" and "cache tok = None"
  shows "(\<exists>t. fst (authorize_write cfg P now h cache) = WriteAllowed (Some t) \<and> key_for (Some t) i = i) \<and>
    access_for (tlr_mode cfg) (\<lambda>tok. fst (cloud_resolve cfg P now tok cache)) h wr = Granted ''''"
proof -
  have v: "verify_key P url (ac_verify_secret cfg) now tok cache
    = (Some \<lparr>te_user_id = '''', te_org_id = None\<rparr>, cache(tok \<mapsto> (\<lparr>te_user_id = '''', te_org_id = None\<rparr>, now + KEY_TTL)))"
    using assms(4,5) by (simp add: verify_key_def ask_key_def tenant_in_def)
  have "\<exists>t. fst (authorize_write cfg P now h cache) = WriteAllowed (Some t) \<and> key_for (Some t) i = i"
    using assms(1-3) v by (auto simp: authorize_write_def Let_def key_for_ns ns_of_def namespace_def)
  moreover have "access_for (tlr_mode cfg) (\<lambda>tok. fst (cloud_resolve cfg P now tok cache)) h wr = Granted ''''"
    using assms(1,2) v by (simp add: access_for_iff tlr_mode_def tenant_of_def cloud_resolve_def namespace_def)
  ultimately show ?thesis by blast
qed

definition demo_cloud :: auth_config where
  "demo_cloud = \<lparr>ac_publish_token = None, ac_subscribe_token = None, ac_verify_url = Some ''https://cloud'',
     ac_verify_secret = Some ''shh''\<rparr>"

theorem undecoded_reply_is_the_operator_witness:
  "access_for (tlr_mode demo_cloud) (\<lambda>tok. fst (cloud_resolve demo_cloud (\<lambda>_ _ _. Answered True None) 5 tok Map.empty))
     demo_headers True = Granted ''''"
  using undecoded_reply_is_the_operator[of demo_cloud "''https://cloud''" demo_headers "''key''"
      "\<lambda>_ _ _. Answered True None" Map.empty 5 "''s''" True]
  by (simp add: demo_cloud_def demo_headers_def bearer_def strip_bearer_def)

end
