(* ===== verification/Manager_Props.thy ===== *)
theory Manager_Props
  imports Manager
begin

text \<open>
  What the registry keeps: its bound, its accounting, whom it evicts and what it reaps.
\<close>

lemma mb_on_ok:
  "order_ok ord \<Longrightarrow> registry_ok n mg \<Longrightarrow> registry_ok n (snd (mb_on ord now k f mg))"
  using get_or_create_ok[of ord n mg now k] by (simp add: mb_on_def case_prod_unfold Let_def)

lemma remove_keys: "fold remove_key ks m = filter (\<lambda>e. fst e \<notin> set ks) m"
  by (induction ks arbitrary: m) (auto simp: remove_key_def intro: filter_cong)

lemma reap_streams:
  assumes "order_ok ord" and "distinct (map fst (mg_streams mg))"
  shows "mg_streams (snd (reap ord now mg)) = filter (\<lambda>e. \<not> expired now mg (snd e)) (mg_streams mg)"
    and "fst (reap ord now mg) = length (filter (\<lambda>e. expired now mg (snd e)) (mg_streams mg))"
proof -
  have "fst e \<in> fst ` {e \<in> set (mg_streams mg). expired now mg (snd e)} \<longleftrightarrow> expired now mg (snd e)"
    if "e \<in> set (mg_streams mg)" for e
    using that assms(2) by (auto simp: distinct_map inj_on_def)
  then show "mg_streams (snd (reap ord now mg)) = filter (\<lambda>e. \<not> expired now mg (snd e)) (mg_streams mg)"
    using order_okD(1)[OF assms(1)]
    by (auto simp: reap_def Let_def count_metric_def remove_keys intro!: filter_cong)
  show "fst (reap ord now mg) = length (filter (\<lambda>e. expired now mg (snd e)) (mg_streams mg))"
    using order_okD(4)[OF assms(1)] by (simp add: reap_def Let_def)
qed

lemma reap_ok:
  assumes "order_ok ord" and "registry_ok n mg"
  shows "registry_ok n (snd (reap ord now mg))"
proof -
  note ok = assms(2)[unfolded registry_ok_def]
  let ?P = "\<lambda>e. expired now mg (snd e)"
  have streams: "mg_streams (snd (reap ord now mg)) = filter (\<lambda>e. \<not> ?P e) (mg_streams mg)"
    using reap_streams(1)[OF assms(1)] ok by blast
  have "length (filter ?P (mg_streams mg)) + length (filter (\<lambda>e. \<not> ?P e) (mg_streams mg))
    = length (mg_streams mg)" by (rule sum_length_filter_compl)
  then have "(of_nat (length (mg_streams mg)) :: u64)
    = of_nat (length (filter (\<lambda>e. \<not> ?P e) (mg_streams mg))) + of_nat (length (filter ?P (mg_streams mg)))"
    by (metis add.commute of_nat_add)
  then show ?thesis
    using ok streams order_okD(4)[OF assms(1), of ?P "mg_streams mg"]
      le_trans[OF length_filter_le[of "\<lambda>e. \<not> ?P e" "mg_streams mg"]]
    by (auto simp: registry_ok_def reap_def Let_def count_metric_def distinct_map_filter)
qed

lemma mgr_delete_ok:
  assumes "registry_ok n mg"
  shows "registry_ok (n + (if fst (mgr_delete k mg) then 1 else 0)) (snd (mgr_delete k mg))"
proof -
  note ok = assms[unfolded registry_ok_def]
  show ?thesis
  proof (cases "k \<in> fst ` set (mg_streams mg)")
    case True
    from remove_key_length[OF _ True] ok have "length (mg_streams mg) = Suc (length (remove_key k (mg_streams mg)))"
      by simp
    with True ok show ?thesis
      by (auto simp: registry_ok_def mgr_delete_def mgr_get_None remove_key_distinct set_remove_key)
  next
    case False
    with assms show ?thesis
      by (simp add: mgr_delete_def mgr_get_None remove_key_absent)
  qed
qed

lemma mb_poll_ok: "mb_poll sub mg = Some (out, sub', mg') \<Longrightarrow> registry_ok n mg' = registry_ok n mg"
  by (auto simp: mb_poll_def split: prod.splits option.splits)

lemma apply_mgr_ok:
  assumes "order_ok ord" and "registry_ok n mg"
  shows "registry_ok (n + deletes op mg) (apply_mgr ord op mg)"
  using assms get_or_create_ok[OF assms] reap_ok[OF assms] mgr_delete_ok[OF assms(2)]
  by (cases op)
    (auto simp: mb_on_ok[OF assms] mb_publish_def mb_complete_def mb_fail_def mb_set_private_def mb_subscribe_def mb_drop_def
      mb_poll_ok case_prod_unfold Let_def split: option.split prod.splits)

lemma run_mgr_ok:
  assumes "order_ok ord"
  shows "registry_ok n mg \<Longrightarrow> registry_ok (snd (run_mgr ord ops (mg, n))) (fst (run_mgr ord ops (mg, n)))"
  by (induction ops arbitrary: mg n) (simp_all add: apply_mgr_ok[OF assms])

lemma get_or_create_cfg: "mg_cfg (snd (get_or_create ord now k mg)) = mg_cfg mg"
  by (auto simp: get_or_create_def Let_def count_metric_def put_stream_def evict_lru_def
      split: option.split list.split)

lemma mb_on_cfg: "mg_cfg (snd (mb_on ord now k f mg)) = mg_cfg mg"
  using get_or_create_cfg[of ord now k mg] by (simp add: mb_on_def case_prod_unfold put_stream_def Let_def)

lemma apply_mgr_cfg: "mg_cfg (apply_mgr ord op mg) = mg_cfg mg"
  using get_or_create_cfg
  by (cases op) (auto simp: mb_on_cfg mb_publish_def mb_complete_def mb_fail_def mb_set_private_def
      mb_subscribe_def mb_drop_def mb_poll_def reap_def mgr_delete_def incr_gaps_def incr_published_def
      count_metric_def put_stream_def case_prod_unfold Let_def split: option.split prod.splits)

lemma run_mgr_cfg: "mg_cfg (fst (run_mgr ord ops (mg, n))) = mg_cfg mg"
  by (induction ops arbitrary: mg n) (simp_all add: apply_mgr_cfg)

lemma with_config_ok: "registry_ok 0 (with_config cfg)"
  by (simp add: registry_ok_def with_config_def)

lemma fresh_run_ok:
  assumes "order_ok ord" and "run_mgr ord ops (with_config cfg, 0) = (mg, deleted)"
  shows "registry_ok deleted mg" and "mg_cfg mg = cfg"
  using run_mgr_ok[OF assms(1) with_config_ok, of ops cfg] run_mgr_cfg[of ord ops "with_config cfg" 0] assms(2)
  by (simp_all add: with_config_def)

text \<open>
  C34: the registry is bounded and loses no stream unnoticed. After any calls on a new
  in-memory backend it holds at most \<open>max_streams\<close> streams (one, if that is 0), one per id, and
  the counter of streams created equals the streams still held, those reaped or evicted and
  those deleted.
\<close>

theorem registry_is_bounded:
  assumes "order_ok ord" and "run_mgr ord ops (with_config cfg, 0) = (mg, deleted)"
  shows "mgr_len mg \<le> max 1 (mc_max_streams cfg) \<and> distinct (map fst (mg_streams mg)) \<and>
    mm_streams_created (mg_metrics mg)
      = of_nat (mgr_len mg) + mm_reaped (mg_metrics mg) + of_nat deleted"
  using fresh_run_ok[OF assms] by (simp add: registry_ok_def mgr_len_def)

definition demo_config :: manager_config where
  "demo_config = default_config\<lparr>mc_max_streams := 2, mc_max_buffer := 8\<rparr>"

lemma order_ok_id [simp]: "order_ok (\<lambda>m. m)"
  by (simp add: order_ok_def)

text \<open>
  Two streams fill the registry, the first is used again, and the third evicts the second; then
  one is deleted.
\<close>

definition demo_ops :: "mgr_op list" where
  "demo_ops = [MPublish 1 ''a'' ''x'', MPublish 2 ''b'' ''y'', MPublish 3 ''a'' ''z'', MPublish 4 ''c'' ''w'',
     MDelete ''a'']"

lemma demo_registry:
  "run_mgr (\<lambda>m. m) demo_ops (with_config demo_config, 0) = (mg, n) \<Longrightarrow>
     map fst (mg_streams mg) = [''c''] \<and> n = 1 \<and> mm_reaped (mg_metrics mg) = 1"
  by (auto simp: demo_ops_def demo_config_def with_config_def default_config_def mb_publish_def mb_on_def
      get_or_create_def mgr_get_def put_stream_def stream_at_def count_metric_def incr_published_def
      stream_publish_def send_def with_capacity_def touch_def evict_lru_def last_activity_def remove_key_def
      mgr_delete_def Let_def)

theorem registry_is_bounded_witness:
  "case run_mgr (\<lambda>m. m) demo_ops (with_config demo_config, 0) of (mg, deleted) \<Rightarrow>
     map fst (mg_streams mg) = [''c''] \<and> mm_streams_created (mg_metrics mg) = 3"
proof -
  obtain mg n where run: "run_mgr (\<lambda>m. m) demo_ops (with_config demo_config, 0) = (mg, n)" by force
  from demo_registry[OF this] have "map fst (mg_streams mg) = [''c'']" "n = 1" "mm_reaped (mg_metrics mg) = 1"
    by simp_all
  moreover from this(1) have "length (mg_streams mg) = 1" by (metis length_Cons list.size(3) length_map One_nat_def)
  ultimately show ?thesis
    using registry_is_bounded[OF order_ok_id run] run by (simp add: mgr_len_def)
qed

section \<open>Eviction and reaping\<close>

text \<open>
  at capacity the least recently active stream goes, and only it. The first use of an id
  when the registry is full drops exactly one stream, than which none has been idle longer,
  and adds an empty one; every other stream stays, untouched.
\<close>

theorem eviction_takes_the_least_recent:
  assumes "order_ok ord" and "run_mgr ord ops (with_config cfg, 0) = (mg, deleted)"
    and "mgr_get k mg = None" and "mc_max_streams cfg \<le> mgr_len mg" and "0 < mgr_len mg"
    and "get_or_create ord now k mg = (a, mg')"
  shows "\<exists>v \<in> set (mg_streams mg).
    (\<forall>e \<in> set (mg_streams mg). last_activity mg (snd v) \<le> last_activity mg (snd e)) \<and>
    mg_streams mg' = (k, a) # remove_key (fst v) (mg_streams mg) \<and>
    stream_at a mg' = with_capacity now (mc_max_buffer cfg) \<and>
    (\<forall>e \<in> set (mg_streams mg). stream_at (snd e) mg' = stream_at (snd e) mg)"
proof -
  note ok = fresh_run_ok[OF assms(1,2)]
  have ne: "mg_streams mg \<noteq> []" using assms(5) by (simp add: mgr_len_def)
  from evict_lru_spec[OF assms(1) ne] obtain v where v: "v \<in> set (mg_streams mg)"
    "\<forall>e \<in> set (mg_streams mg). last_activity mg (snd v) \<le> last_activity mg (snd e)"
    and ev: "evict_lru ord mg = count_metric mm_reaped_update 1 (mg\<lparr>mg_streams := remove_key (fst v) (mg_streams mg)\<rparr>)"
    by blast
  have "a = mg_next mg \<and> mg_streams mg' = (k, a) # remove_key (fst v) (mg_streams mg) \<and>
    mg_heap mg' = (mg_heap mg)(a := with_capacity now (mc_max_buffer cfg))"
    using assms(3,4,6) ok(2)
    by (auto simp: get_or_create_def mgr_len_def ev Let_def count_metric_def put_stream_def)
  moreover have "\<forall>e \<in> set (mg_streams mg). snd e \<noteq> mg_next mg"
    using ok(1) by (auto simp: registry_ok_def)
  ultimately show ?thesis
    using v by (intro bexI[OF _ v(1)]) (simp add: stream_at_def)
qed

definition demo_full :: manager where
  "demo_full = fst (run_mgr (\<lambda>m. m) (take 3 demo_ops) (with_config demo_config, 0))"

lemma demo_full_facts:
  "run_mgr (\<lambda>m. m) (take 3 demo_ops) (with_config demo_config, 0) = (demo_full, 0)"
  "mg_streams demo_full = [(''b'', 1), (''a'', 0)]"
  "last_activity demo_full 0 = 3" "last_activity demo_full 1 = 2"
  "\<not> expired 1800003 demo_full 0" "expired 1800003 demo_full 1"
  by (simp_all add: demo_full_def demo_ops_def demo_config_def with_config_def default_config_def mb_publish_def
      mb_on_def get_or_create_def mgr_get_def put_stream_def stream_at_def count_metric_def incr_published_def
      stream_publish_def send_def with_capacity_def touch_def evict_lru_def last_activity_def expired_def Let_def)

theorem eviction_takes_the_least_recent_witness:
  "map fst (mg_streams (snd (get_or_create (\<lambda>m. m) 4 ''c'' demo_full))) = [''c'', ''a'']"
proof -
  obtain a mg' where run: "get_or_create (\<lambda>m. m) 4 ''c'' demo_full = (a, mg')" by force
  from eviction_takes_the_least_recent[OF order_ok_id demo_full_facts(1) _ _ _ run] show ?thesis
    unfolding run by (auto simp: mgr_get_def mgr_len_def demo_full_facts demo_config_def default_config_def
        remove_key_def simp del: One_nat_def)
qed

text \<open>
  reaping removes exactly the expired streams. A stream goes when it has been idle longer
  than \<open>idle_ttl\<close> or has been terminal longer than \<open>completed_ttl\<close>, whatever the iteration
  order; the others keep their place, and the number removed is returned.
\<close>

theorem reap_removes_the_expired:
  assumes "order_ok ord" and "run_mgr ord ops (with_config cfg, 0) = (mg, deleted)"
  shows "fst (reap ord now mg) = length (filter (\<lambda>e. expired now mg (snd e)) (mg_streams mg)) \<and>
    mg_streams (snd (reap ord now mg)) = filter (\<lambda>e. \<not> expired now mg (snd e)) (mg_streams mg) \<and>
    mg_heap (snd (reap ord now mg)) = mg_heap mg"
  using reap_streams[OF assms(1), of mg now] fresh_run_ok(1)[OF assms]
  by (simp add: registry_ok_def) (simp add: reap_def Let_def count_metric_def)

theorem reap_removes_the_expired_witness:
  "mg_streams (snd (reap (\<lambda>m. m) 1800003 demo_full)) = [(''a'', 0)]"
  using reap_removes_the_expired[OF order_ok_id demo_full_facts(1), of 1800003]
  by (simp add: demo_full_facts del: One_nat_def)

end
