(* ===== verification/Spine.thy ===== *)
theory Spine
  imports Api_Props Manager_Props
begin

text \<open>
  The record API and the stream API over one backend, as \<open>router_full\<close> of \<open>api.rs\<close> builds them:
  what the record's handlers call on the spine is applied to the backend whose streams the
  stream API serves.
\<close>

fun spine_apply :: "('b, 'sub) backend \<Rightarrow> nat \<Rightarrow> spine_call \<Rightarrow> 'b \<Rightarrow> 'b" where
  "spine_apply B now (Publish k d) b = snd (be_publish B now k d b)"
| "spine_apply B now (Complete k) b = be_complete B now k b"
| "spine_apply B now (Subscribe k start) b = snd (be_subscribe B now k start b)"

text \<open>An appended event is published with its JSON.\<close>

lemma publish_head_calls:
  assumes "sqlite_backed X st" and "sv_ok st B n sv" and "calm_world (sv_world sv)"
    and "k < length (srecord st ns i sv)" and "en_event (tl_codec st) (srecord st ns i sv ! k) = Some json"
  shows "sv_spine (publish_head st ns i (of_nat k) sv) = sv_spine sv @ [Publish (stream_name ns i) json]"
proof -
  have clamp: "unat (clamp 1 5000 1) = 1" by (simp add: clamp_def)
  have "quiet (w_sys (sv_world sv) (w_tick (sv_world sv)))" using assms(3) by (simp add: calm_world_def)
  note read = store_events_quiet[OF linked_ok[OF assms(2)[unfolded sv_ok_def]]
      server_okD(4)[OF assms(2)[unfolded sv_ok_def]] this, of ns i "of_nat k" 1]
  have "k < 2 ^ 63"
    using assms(4) length_record_ok[OF assms(2)[unfolded sv_ok_def], of ns i] by (simp add: srecord_def)
  then have "start_index (of_nat k) = k" by (rule start_index_of_nat)
  moreover have "take 1 (drop k (srecord st ns i sv)) = [srecord st ns i sv ! k]"
    using assms(4) by (simp add: take_Suc_conv_app_nth hd_drop_conv_nth take_Suc)
  ultimately have "fst (on_store (st_events (tl_store st) ns i (of_nat k) 1) sv) = Inr [srecord st ns i sv ! k]"
    using read unfolding clamp
    by (simp add: sqlite_calls[OF assms(1)] on_store_def call_def srecord_def sdb_def Let_def)
  moreover have "sv_spine (snd (on_store (st_events (tl_store st) ns i (of_nat k) 1) sv)) = sv_spine sv"
    by (simp add: on_store_def case_prod_unfold Let_def)
  ultimately show ?thesis
    using assms(5) by (cases "on_store (st_events (tl_store st) ns i (of_nat k) 1) sv")
      (simp add: publish_head_def spine_def)
qed

lemma mb_publish_present:
  assumes "mgr_get k mg = None" and "mb_publish ord now k d mg = (off, mg')"
  shows "mb_is_private k mg' = False" and "mb_subscriber_count k mg' = 0"
proof -
  obtain a mg1 where goc: "get_or_create ord now k mg = (a, mg1)" by force
  note new = get_or_create_none[OF assms(1) goc]
  obtain st where pub: "stream_publish now d (with_capacity now (mc_max_buffer (mg_cfg mg))) = (off, st)"
    and mg': "mg' = incr_published (put_stream a st mg1)"
    using assms(2) goc new by (auto simp: mb_publish_def mb_on_def Let_def split: prod.splits)
  have "st = snd (stream_publish now d (with_capacity now (mc_max_buffer (mg_cfg mg))))" by (simp add: pub)
  then have "\<not> sm_private st" "sm_subscribers st = 0"
    by (simp_all add: stream_publish_def with_capacity_def send_def Let_def)
  with new(1) show "mb_is_private k mg' = False" "mb_subscriber_count k mg' = 0"
    by (simp_all add: mg' mb_is_private_def mb_subscriber_count_def)
qed

lemma mb_publish_cfg: "mb_publish ord now k d mg = (off, mg') \<Longrightarrow> mg_cfg mg' = mg_cfg mg"
  using mb_on_cfg[of ord now k "stream_publish now d" mg]
  by (auto simp: mb_publish_def incr_published_def count_metric_def Let_def split: prod.splits)

text \<open>
  C13: the stream API serves the record without a credential. In the default Cloud set-up, with
  keys verified by a control plane and no subscribe token, a request without a credential is
  refused by every route of the record. But an appended event is published to the stream
  \<open>tlr.<namespace>.<run>\<close> of the shared backend, that name is an id \<open>GET /streams/:id\<close> accepts,
  the stream is not private, and so a subscriber with no credential, no ticket and no namespace
  is given the event's JSON.
\<close>

theorem stream_api_bypasses_record_access:
  assumes "sqlite_backed X st" and "sv_ok st base n sv" and "calm_world (sv_world sv)"
    and "k < length (srecord st ns i sv)" and "en_event (tl_codec st) (srecord st ns i sv ! k) = Some json"
    and "tl_mode st = tlr_mode (ai_auth A)" and "ac_verify_url (ai_auth A) \<noteq> None"
    and "ac_subscribe_token (ai_auth A) = None" and "h_authorization h = None"
    and "valid_id (stream_name ns i)" and "mgr_get (stream_name ns i) mg = None"
    and "0 < mc_max_subscribers (mg_cfg mg)"
    and "sv_spine (publish_head st ns i (of_nat k) sv) = sv_spine sv @ calls"
    and "ap_backend app = fold (spine_apply (memory_backend ord) now) calls mg"
    and "q = \<lparr>sp_from = None, sp_ns = None, sp_ticket = None\<rparr>"
  shows "authorize st h False = Inl (respond 401 (Text ''unauthorized'')) \<and>
    (\<exists>c app'. h_subscribe (memory_backend ord) A now' secs (stream_name ns i) q h None app = (Inr c, app') \<and>
      (\<exists>fuel. fst (drain (memory_backend ord) fuel (co_sub c) (ap_backend app'))
         = [TokenSig \<lparr>tk_offset = 0, tk_data = json\<rparr>]))"
proof
  let ?k = "stream_name ns i" and ?B = "memory_backend ord"
  show "authorize st h False = Inl (respond 401 (Text ''unauthorized''))"
    using assms(6-9) by (simp add: authorize_def access_for_def tlr_mode_def tenant_of_def bearer_def
        resolve_read_def wide_open_def token_matches_def Let_def split: option.split)
  have "calls = [Publish ?k json]"
    using publish_head_calls[OF assms(1-5)] assms(13) by simp
  then have app: "ap_backend app = snd (mb_publish ord now ?k json mg)"
    using assms(14) by (simp add: memory_backend_def)
  obtain off mg1 where pub: "mb_publish ord now ?k json mg = (off, mg1)" by force
  have all: "publish_all ?B now ?k [json] mg = ([off], mg1)"
    using pub by (simp add: memory_backend_def)
  obtain sub mg2 where sub: "be_subscribe ?B now' ?k 0 mg1 = (sub, mg2)" by (meson surj_pair)
  have "mb_absent mg ?k (length [json] + 0)" using assms(11) by (simp add: mb_absent_def)
  from mb.published_is_replayed(2)[OF this _ _ all sub] obtain fuel where
    "fst (drain ?B fuel sub mg2) = [TokenSig \<lparr>tk_offset = 0, tk_data = json\<rparr>]"
    by (auto simp: tokens_between_def token_at_def)
  moreover have "\<not> be_is_private ?B ?k mg1" "\<not> be_max_subscribers ?B mg1 \<le> be_subscriber_count ?B ?k mg1"
    using mb_publish_present[OF assms(11) pub] mb_publish_cfg[OF pub] assms(12)
    by (simp_all add: memory_backend_def not_le)
  then have "h_subscribe ?B A now' secs ?k q h None app
    = (Inr \<lparr>co_key = ?k, co_from = 0, co_sub = sub\<rparr>,
       (on_events (sub_connected ?k False 0 ''sse'') app)\<lparr>ap_backend := mg2\<rparr>)"
    using assms(8,10,15) sub pub
    by (simp add: h_subscribe_def authed_def subscribe_key_def ns_key_def limit_reached_def app resume_from_def
        opt_bind_def open_conn_def on_events_def Let_def)
  ultimately show "\<exists>c app'. h_subscribe ?B A now' secs ?k q h None app = (Inr c, app') \<and>
      (\<exists>fuel. fst (drain ?B fuel (co_sub c) (ap_backend app')) = [TokenSig \<lparr>tk_offset = 0, tk_data = json\<rparr>])"
    by (intro exI[of _ "\<lparr>co_key = ?k, co_from = 0, co_sub = sub\<rparr>"]
        exI[of _ "(on_events (sub_connected ?k False 0 ''sse'') app)\<lparr>ap_backend := mg2\<rparr>"]) auto
qed

text \<open>The event of number 1 of a small record, read back by an anonymous subscriber.\<close>

definition demo_cloud_state :: "db tlr_state" where
  "demo_cloud_state = demo_state\<lparr>tl_mode := tlr_mode demo_cloud\<rparr>"

definition demo_api :: api where
  "demo_api = \<lparr>ai_auth = demo_cloud, ai_control = (\<lambda>_ _ _. NoAnswer),
     ai_tickets = \<lparr>tk_decode = (\<lambda>_. None), tk_verify = (\<lambda>_ _ _. False), tk_json = (\<lambda>_. None)\<rparr>\<rparr>"

definition no_headers :: headers where
  "no_headers = \<lparr>h_authorization = None, h_idempotency_key = None\<rparr>"

lemma demo_cloud_facts:
  "sqlite_backed no_extract demo_cloud_state" "sv_ok demo_cloud_state empty_db 5000 (demo_server demo_db)"
  "length (srecord demo_cloud_state ns i sv) = length (srecord demo_state ns i sv)"
  "tl_mode demo_cloud_state = tlr_mode (ai_auth demo_api)" "tl_codec demo_cloud_state = demo_codec"
  "ai_auth demo_api = demo_cloud"
  using demo_state_simps(2) demo_watch_ok
  by (simp_all add: demo_cloud_state_def sqlite_backed_def sv_ok_def srecord_def demo_api_def)

theorem stream_api_bypasses_record_access_witness:
  "authorize demo_cloud_state no_headers False = Inl (respond 401 (Text ''unauthorized'')) \<and>
   (\<exists>mg json c app'. h_subscribe (memory_backend (\<lambda>m. m)) demo_api 7 8 ''tlr.acme.loan''
        \<lparr>sp_from = None, sp_ns = None, sp_ticket = None\<rparr> no_headers None
        \<lparr>ap_backend = mg, ap_cache = Map.empty, ap_events = events_disabled\<rparr> = (Inr c, app') \<and>
      (\<exists>fuel. fst (drain (memory_backend (\<lambda>m. m)) fuel (co_sub c) (ap_backend app'))
         = [TokenSig \<lparr>tk_offset = 0, tk_data = json\<rparr>]))"
proof -
  let ?sv = "demo_server demo_db" and ?mg = "with_config default_config"
  obtain json where json: "en_event (tl_codec demo_cloud_state) (srecord demo_cloud_state ''acme'' ''loan'' ?sv ! 1) = Some json"
    by (simp add: demo_cloud_facts(5) demo_codec_def)
  have len: "1 < length (srecord demo_cloud_state ''acme'' ''loan'' ?sv)"
    using demo_watch_length by (simp add: demo_cloud_facts(3))
  have calm: "calm_world (sv_world ?sv)" by simp
  note calls = publish_head_calls[OF demo_cloud_facts(1,2) calm len json]
  have name: "stream_name ''acme'' ''loan'' = ''tlr.acme.loan''" by (simp add: stream_name_def)
  let ?b = "fold (spine_apply (memory_backend (\<lambda>m. m)) 6) [Publish ''tlr.acme.loan'' json] ?mg"
  have fresh: "mgr_get ''tlr.acme.loan'' ?mg = None" "0 < mc_max_subscribers (mg_cfg ?mg)"
    by (simp_all add: mgr_get_def with_config_def default_config_def)
  have "valid_id ''tlr.acme.loan''" by (simp add: valid_id_def id_char_def)
  note leak = stream_api_bypasses_record_access[OF demo_cloud_facts(1,2) calm len json demo_cloud_facts(4), of no_headers ?mg
      "[Publish ''tlr.acme.loan'' json]" "\<lparr>ap_backend = ?b, ap_cache = Map.empty, ap_events = events_disabled\<rparr>"
      "\<lambda>m. m" 6 _ 7 8, unfolded name, OF _ _ _ this fresh calls[unfolded name] _ refl]
  from leak show ?thesis
    unfolding demo_cloud_facts(6) by (simp add: demo_cloud_def no_headers_def) blast
qed

end
