(* ===== verification/Utf8.thy ===== *)
theory Utf8
  imports Prelude "HOL-Library.Sublist"
begin

text \<open>
  Text of the Rust standard library on the bytes of a string: \<open>from_utf8\<close>, \<open>lines\<close>,
  \<open>trim_start\<close> and \<open>trim\<close>, with what they do at ASCII characters.
\<close>

definition LF :: char where "LF = CHR 0x0A"
definition CR :: char where "CR = CHR 0x0D"

definition continues :: "nat \<Rightarrow> nat \<Rightarrow> char list \<Rightarrow> bool" where
  "continues lo hi cs = (case cs of [] \<Rightarrow> False | c # _ \<Rightarrow> lo \<le> of_char c \<and> of_char c \<le> hi)"

text \<open>The length of the character at the head, 0 if the bytes are not one.\<close>

definition utf8_width :: "string \<Rightarrow> nat" where
  "utf8_width s =
     (case s of
        [] \<Rightarrow> 0
      | c # r \<Rightarrow>
          (let b = of_char c :: nat;
               second = continues 0x80 0xBF (drop 1 r);
               third = continues 0x80 0xBF (drop 2 r)
           in if b \<le> 0x7F then 1
              else if 0xC2 \<le> b \<and> b \<le> 0xDF \<and> continues 0x80 0xBF r then 2
              else if b = 0xE0 \<and> continues 0xA0 0xBF r \<and> second then 3
              else if 0xE1 \<le> b \<and> b \<le> 0xEF \<and> b \<noteq> 0xED \<and> continues 0x80 0xBF r \<and> second then 3
              else if b = 0xED \<and> continues 0x80 0x9F r \<and> second then 3
              else if b = 0xF0 \<and> continues 0x90 0xBF r \<and> second \<and> third then 4
              else if 0xF1 \<le> b \<and> b \<le> 0xF3 \<and> continues 0x80 0xBF r \<and> second \<and> third then 4
              else if b = 0xF4 \<and> continues 0x80 0x8F r \<and> second \<and> third then 4
              else 0))"

fun valid_utf8 :: "string \<Rightarrow> bool" where
  "valid_utf8 [] = True"
| "valid_utf8 (c # r) = (case utf8_width (c # r) of 0 \<Rightarrow> False | Suc n \<Rightarrow> valid_utf8 (drop n r))"

text \<open>\<open>lines\<close>: the end of a line is a line feed, or a carriage return and a line feed.\<close>

definition strip_cr :: "string \<Rightarrow> string" where
  "strip_cr l = (if l \<noteq> [] \<and> last l = CR then butlast l else l)"

function str_lines :: "string \<Rightarrow> string list" where
  "str_lines s =
     (if s = [] then []
      else case dropWhile (\<lambda>c. c \<noteq> LF) s of
             [] \<Rightarrow> [s]
           | _ # rest \<Rightarrow> strip_cr (takeWhile (\<lambda>c. c \<noteq> LF) s) # str_lines rest)"
  by pat_completeness auto
termination
proof (relation "measure length")
  fix s rest :: string and c assume "dropWhile (\<lambda>c. c \<noteq> LF) s = c # rest"
  then have "Suc (length rest) \<le> length s" using length_dropWhile_le[of "\<lambda>c. c \<noteq> LF" s] by simp
  then show "(rest, s) \<in> measure length" by simp
qed simp

declare str_lines.simps [simp del]

text \<open>\<open>trim\<close>: the characters of the property White_Space.\<close>

definition WHITE_SPACE :: "string list" where
  "WHITE_SPACE =
     [[CHR 0x09], [CHR 0x0A], [CHR 0x0B], [CHR 0x0C], [CHR 0x0D], [CHR 0x20], [CHR 0xC2, CHR 0x85],
      [CHR 0xC2, CHR 0xA0], [CHR 0xE1, CHR 0x9A, CHR 0x80], [CHR 0xE2, CHR 0x80, CHR 0x80],
      [CHR 0xE2, CHR 0x80, CHR 0x81], [CHR 0xE2, CHR 0x80, CHR 0x82], [CHR 0xE2, CHR 0x80, CHR 0x83],
      [CHR 0xE2, CHR 0x80, CHR 0x84], [CHR 0xE2, CHR 0x80, CHR 0x85], [CHR 0xE2, CHR 0x80, CHR 0x86],
      [CHR 0xE2, CHR 0x80, CHR 0x87], [CHR 0xE2, CHR 0x80, CHR 0x88], [CHR 0xE2, CHR 0x80, CHR 0x89],
      [CHR 0xE2, CHR 0x80, CHR 0x8A], [CHR 0xE2, CHR 0x80, CHR 0xA8], [CHR 0xE2, CHR 0x80, CHR 0xA9],
      [CHR 0xE2, CHR 0x80, CHR 0xAF], [CHR 0xE2, CHR 0x81, CHR 0x9F], [CHR 0xE3, CHR 0x80, CHR 0x80]]"

lemma white_space_nonempty: "w \<in> set WHITE_SPACE \<Longrightarrow> w \<noteq> []"
  by (auto simp: WHITE_SPACE_def)

function trim_start :: "string \<Rightarrow> string" where
  "trim_start s = (case find (\<lambda>w. prefix w s) WHITE_SPACE of None \<Rightarrow> s | Some w \<Rightarrow> trim_start (drop (length w) s))"
  by pat_completeness auto
termination
  by (relation "measure length")
    (auto simp: find_Some_iff white_space_nonempty prefix_def dest: nth_mem)

function trim_end :: "string \<Rightarrow> string" where
  "trim_end s = (case find (\<lambda>w. suffix w s) WHITE_SPACE of
     None \<Rightarrow> s | Some w \<Rightarrow> trim_end (take (length s - length w) s))"
  by pat_completeness auto
termination
  by (relation "measure length")
    (auto simp: find_Some_iff white_space_nonempty suffix_def dest: nth_mem)

declare trim_start.simps [simp del] trim_end.simps [simp del]

definition trim :: "string \<Rightarrow> string" where
  "trim s = trim_end (trim_start s)"

section \<open>Lines and ASCII characters\<close>

lemma str_lines_last: "l \<noteq> [] \<Longrightarrow> LF \<notin> set l \<Longrightarrow> str_lines l = [l]"
proof -
  assume l: "l \<noteq> []" "LF \<notin> set l"
  then have "dropWhile (\<lambda>c. c \<noteq> LF) l = []" by auto
  with l(1) show ?thesis by (subst str_lines.simps) (simp del: dropWhile_eq_Nil_conv)
qed

lemma str_lines_first: "LF \<notin> set l \<Longrightarrow> str_lines (l @ LF # s) = strip_cr l # str_lines s"
proof -
  assume "LF \<notin> set l"
  then have "takeWhile (\<lambda>c. c \<noteq> LF) (l @ LF # s) = l" "dropWhile (\<lambda>c. c \<noteq> LF) (l @ LF # s) = LF # s"
    by (induction l) auto
  then show ?thesis by (subst str_lines.simps) simp
qed

text \<open>An ASCII character ends what precedes it.\<close>

lemma continues_Cons [simp]: "continues lo hi (c # cs) \<longleftrightarrow> lo \<le> of_char c \<and> of_char c \<le> hi"
  and continues_Nil [simp]: "\<not> continues lo hi []"
  by (simp_all add: continues_def)

lemma utf8_width_ascii:
  assumes "(of_char c :: nat) \<le> 127"
  shows "utf8_width (b # x @ c # y) = utf8_width (b # x)"
proof (cases x)
  case Nil
  with assms show ?thesis by (simp add: utf8_width_def Let_def)
next
  case (Cons b1 x1)
  show ?thesis
  proof (cases x1)
    case Nil
    with Cons assms show ?thesis by (simp add: utf8_width_def Let_def)
  next
    case (Cons b2 x2)
    with \<open>x = b1 # x1\<close> assms show ?thesis by (cases x2) (simp_all add: utf8_width_def Let_def)
  qed
qed

lemma utf8_width_bound: "utf8_width s \<le> length s"
proof (cases s)
  case (Cons c r)
  consider "r = []" | a where "r = [a]" | a b where "r = [a, b]" | a b d u where "r = a # b # d # u"
    by (metis remdups_adj.cases)
  then show ?thesis using Cons by cases (simp_all add: utf8_width_def Let_def)
qed (simp add: utf8_width_def)

lemma valid_utf8_ascii:
  "(of_char c :: nat) \<le> 127 \<Longrightarrow> valid_utf8 (x @ c # y) \<longleftrightarrow> valid_utf8 x \<and> valid_utf8 y"
proof (induction x rule: valid_utf8.induct)
  case 1
  then have "utf8_width (c # y) = Suc 0" by (simp add: utf8_width_def)
  then show ?case by simp
next
  case (2 b r)
  show ?case
  proof (cases "utf8_width (b # r)")
    case (Suc n)
    then have "n \<le> length r" using utf8_width_bound[of "b # r"] by simp
    with 2 Suc utf8_width_ascii[of c b r y] show ?thesis by simp
  qed (use 2 utf8_width_ascii[of c b r y] in simp)
qed

definition ascii :: "string \<Rightarrow> bool" where
  "ascii s \<longleftrightarrow> list_all (\<lambda>c. (of_char c :: nat) \<le> 127) s"

lemma valid_utf8_prefix: "ascii x \<Longrightarrow> valid_utf8 (x @ y) \<longleftrightarrow> valid_utf8 y"
  by (induction x) (use valid_utf8_ascii[of _ "[]"] in \<open>auto simp: ascii_def\<close>)

lemma LF_ascii [simp]: "(of_char LF :: nat) \<le> 127"
  by (simp add: LF_def)

lemma trim_start_space [simp]: "trim_start (CHR 0x20 # s) = trim_start s"
  by (subst trim_start.simps) (simp add: WHITE_SPACE_def)

lemma trim_start_Nil [simp]: "trim_start [] = []"
  by (subst trim_start.simps) (simp add: WHITE_SPACE_def)

lemma trim_start_suffix: "suffix (trim_start s) s"
proof (induction s rule: trim_start.induct)
  case (1 s)
  show ?case
  proof (cases "find (\<lambda>w. prefix w s) WHITE_SPACE")
    case (Some w)
    with 1[OF Some] show ?thesis
      by (subst trim_start.simps) (simp add: suffix_order.trans[OF _ suffix_drop])
  qed (subst trim_start.simps, simp)
qed

end
