(* ===== verification/Startup.thy ===== *)
theory Startup
  imports Api Utf8
begin

text \<open>
  Starting the server: \<open>crates/tideline-server/src/main.rs\<close> with its two guards, the choice of the
  backend and the port, \<open>default_tlr_store\<close> of \<open>api.rs\<close>, and where the signing key comes from,
  \<open>tlr/keys.rs\<close>. The environment, the files and the random seeds are a host. Logging is left out,
  and a file's mode.
\<close>

text \<open>What writing to a file does: all, nothing, or the first bytes before an error.\<close>

datatype write_outcome = Written | Refused | Cut nat

record host =
  ho_env :: "string \<Rightarrow> string option"
  ho_files :: "string \<Rightarrow> string option"
  ho_readable :: "string \<Rightarrow> bool"
  ho_write :: "string \<Rightarrow> write_outcome"
  ho_seeds :: "nat \<Rightarrow> u8 list"
  ho_drawn :: nat

text \<open>\<open>process::exit\<close> and a panic end the start.\<close>

datatype stopped = Exit nat | Panic string

definition read_to_string :: "host \<Rightarrow> string \<Rightarrow> string option" where
  "read_to_string H path =
     (case ho_files H path of
        None \<Rightarrow> None
      | Some c \<Rightarrow> if ho_readable H path \<and> valid_utf8 c then Some c else None)"

text \<open>The file is opened, truncated if it exists, and then written.\<close>

definition write_private :: "string \<Rightarrow> string \<Rightarrow> host \<Rightarrow> bool \<times> host" where
  "write_private path contents H =
     (case ho_write H path of
        Written \<Rightarrow> (True, H\<lparr>ho_files := (ho_files H)(path \<mapsto> contents @ [LF])\<rparr>)
      | Refused \<Rightarrow> (False, H)
      | Cut n \<Rightarrow> (False, H\<lparr>ho_files := (ho_files H)(path \<mapsto> take n (contents @ [LF]))\<rparr>))"

section \<open>The signing key\<close>

text \<open>
  \<open>Path::with_extension\<close>: the last component, without trailing slashes and dots, gets the
  extension in place of its own; a path without a file name stays as it is.
\<close>

definition rstrip_slash :: "string \<Rightarrow> string" where
  "rstrip_slash s = rev (dropWhile (\<lambda>c. c = CHR ''/'') (rev s))"

function file_end :: "string \<Rightarrow> string" where
  "file_end s =
     (let t = rstrip_slash s
      in if suffix ''/.'' t then file_end (take (length t - 2) t) else t)"
  by pat_completeness auto
termination
proof (relation "measure length")
  fix s t assume t: "t = rstrip_slash s" and "suffix ''/.'' t"
  have "length t \<le> length s"
    unfolding t rstrip_slash_def by (simp add: length_dropWhile_le[of _ "rev s", simplified])
  moreover have "2 \<le> length t" using suffix_length_le[OF \<open>suffix ''/.'' t\<close>] by simp
  ultimately show "(take (length t - 2) t, s) \<in> measure length" by simp
qed simp

declare file_end.simps [simp del]

definition after_last :: "char \<Rightarrow> string \<Rightarrow> string" where
  "after_last c s = rev (takeWhile (\<lambda>d. d \<noteq> c) (rev s))"

definition with_extension :: "string \<Rightarrow> string \<Rightarrow> string" where
  "with_extension p ext =
     (let q = file_end p;
          name = after_last (CHR ''/'') q;
          dir = take (length q - length name) q;
          before = take (length name - length (after_last (CHR ''.'') name) - 1) name;
          stem = (if CHR ''.'' \<in> set name \<and> before \<noteq> [] then before else name)
      in if name = [] \<or> name = ''.'' \<or> name = ''..'' then p
         else dir @ stem @ ''.'' @ ext)"

definition key_path :: "host \<Rightarrow> string option" where
  "key_path H =
     (case norm_env (ho_env H ''TIDELINE_CHECKPOINT_KEY_FILE'') of
        Some p \<Rightarrow> Some p
      | None \<Rightarrow>
          (case norm_env (ho_env H ''TIDELINE_RECORD_DB'') of
             None \<Rightarrow> None
           | Some db \<Rightarrow> Some (with_extension db ''signing-key'')))"

definition generate :: "sha \<Rightarrow> sig_lib \<Rightarrow> host \<Rightarrow> keyring \<times> host" where
  "generate sha S H = (from_seed sha S (ho_seeds H (ho_drawn H)), H\<lparr>ho_drawn := ho_drawn H + 1\<rparr>)"

definition from_file_or_generate :: "sha \<Rightarrow> sig_lib \<Rightarrow> host \<Rightarrow> (stopped + keyring) \<times> host" where
  "from_file_or_generate sha S H =
     (case key_path H of
        None \<Rightarrow> (case generate sha S H of (k, H) \<Rightarrow> (Inr k, H))
      | Some path \<Rightarrow>
          (case read_to_string H path of
             Some seed \<Rightarrow>
               (case from_seed_b64 sha S (trim seed) of
                  Some k \<Rightarrow> (Inr k, H)
                | None \<Rightarrow> (Inl (Exit 1), H))
           | None \<Rightarrow>
               (case generate sha S H of
                  (k, H) \<Rightarrow> (Inr k, snd (write_private path (to_seed_b64 S k) H)))))"

definition keys_from_env :: "sha \<Rightarrow> sig_lib \<Rightarrow> host \<Rightarrow> (stopped + keyring) \<times> host" where
  "keys_from_env sha S H =
     (case norm_env (ho_env H ''TIDELINE_CHECKPOINT_KEY'') of
        Some seed \<Rightarrow>
          (case from_seed_b64 sha S seed of
             Some k \<Rightarrow> (Inr k, H)
           | None \<Rightarrow> from_file_or_generate sha S H)
      | None \<Rightarrow> from_file_or_generate sha S H)"

section \<open>The start\<close>

definition guard_record_durability :: "host \<Rightarrow> stopped + unit" where
  "guard_record_durability H =
     (if norm_env (ho_env H ''TIDELINE_RECORD_DB'') \<noteq> None then Inr ()
      else if ho_env H ''TIDELINE_EPHEMERAL_RECORDS'' \<noteq> None then Inr ()
      else Inl (Exit 1))"

definition guard_record_storage :: "host \<Rightarrow> bool \<Rightarrow> stopped + unit" where
  "guard_record_storage H redis_configured =
     (if \<not> redis_configured then Inr ()
      else if ho_env H ''TIDELINE_ALLOW_LOCAL_RECORDS'' \<noteq> None then Inr ()
      else Inl (Exit 1))"

definition server_port :: "host \<Rightarrow> nat" where
  "server_port H =
     (case (case ho_env H ''TIDELINE_PORT'' of None \<Rightarrow> ho_env H ''PORT'' | Some p \<Rightarrow> Some p) of
        None \<Rightarrow> 8080
      | Some p \<Rightarrow> (case parse_unsigned (2 ^ 16) p of None \<Rightarrow> 8080 | Some n \<Rightarrow> n))"

datatype record_db = DbFile string | DbMemory

text \<open>\<open>open\<close> of the record database is SQLite; here only whether it succeeds.\<close>

definition default_tlr_store :: "(string \<Rightarrow> bool) \<Rightarrow> host \<Rightarrow> stopped + record_db" where
  "default_tlr_store opens H =
     (case norm_env (ho_env H ''TIDELINE_RECORD_DB'') of
        Some path \<Rightarrow> if opens path then Inr (DbFile path) else Inl (Panic ''open TIDELINE_RECORD_DB'')
      | None \<Rightarrow> Inr DbMemory)"

datatype stream_backend = RedisStreams string | MemoryStreams

record started =
  sd_auth :: auth_config
  sd_mode :: auth_mode
  sd_db :: record_db
  sd_keys :: keyring
  sd_backend :: stream_backend
  sd_events :: "string option \<times> string option"
  sd_port :: nat

text \<open>\<open>main\<close> up to serving, with the state \<open>router_with_backend\<close> builds on the way.\<close>

definition server_start ::
  "sha \<Rightarrow> sig_lib \<Rightarrow> (string \<Rightarrow> bool) \<Rightarrow> (string \<Rightarrow> bool) \<Rightarrow> (nat \<Rightarrow> bool) \<Rightarrow> host \<Rightarrow> (stopped + started) \<times> host" where
  "server_start sha S connects opens binds H =
     (let auth = auth_from_env (ho_env H)
      in case guard_record_durability H of Inl x \<Rightarrow> (Inl x, H) | Inr _ \<Rightarrow>
     (let redis_url = norm_env (ho_env H ''TIDELINE_REDIS_URL'')
      in case guard_record_storage H (redis_url \<noteq> None) of Inl x \<Rightarrow> (Inl x, H) | Inr _ \<Rightarrow>
     (case (case redis_url of
              Some url \<Rightarrow> if connects url then Inr (RedisStreams url)
                          else Inl (Panic ''failed to connect to TIDELINE_REDIS_URL'')
            | None \<Rightarrow> Inr MemoryStreams) of Inl x \<Rightarrow> (Inl x, H) | Inr backend \<Rightarrow>
     (case default_tlr_store opens H of Inl x \<Rightarrow> (Inl x, H) | Inr db \<Rightarrow>
     (case keys_from_env sha S H of (Inl x, H) \<Rightarrow> (Inl x, H) | (Inr keys, H) \<Rightarrow>
     (let port = server_port H
      in if binds port
         then (Inr \<lparr>sd_auth = auth, sd_mode = tlr_mode auth, sd_db = db, sd_keys = keys, sd_backend = backend,
                 sd_events = (norm_env (ho_env H ''TIDELINE_EVENTS_URL''), norm_env (ho_env H ''TIDELINE_AUTH_SECRET'')),
                 sd_port = port\<rparr>, H)
         else (Inl (Exit 1), H)))))))"


section \<open>Printable text is read back\<close>

definition printable :: "string \<Rightarrow> bool" where
  "printable s \<longleftrightarrow> list_all (\<lambda>c. 33 \<le> (of_char c :: nat) \<and> (of_char c :: nat) \<le> 126) s"

lemma white_space_ends:
  "list_all (\<lambda>w. w \<noteq> [] \<and> \<not> (33 \<le> (of_char (hd w) :: nat) \<and> (of_char (hd w) :: nat) \<le> 126) \<and>
     \<not> (33 \<le> (of_char (last w) :: nat) \<and> (of_char (last w) :: nat) \<le> 126)) WHITE_SPACE"
  unfolding WHITE_SPACE_def by simp

lemma printable_no_space:
  assumes "33 \<le> (of_char c :: nat)" and "(of_char c :: nat) \<le> 126"
  shows "find (\<lambda>w. prefix w (c # s)) WHITE_SPACE = None" and "find (\<lambda>w. suffix w (s @ [c])) WHITE_SPACE = None"
proof -
  have "\<not> prefix w (c # s) \<and> \<not> suffix w (s @ [c])" if w: "w \<in> set WHITE_SPACE" for w
  proof -
    have "w \<noteq> []" "hd w \<noteq> c" "last w \<noteq> c"
      using white_space_ends w assms unfolding list_all_iff by blast+
    then have "\<not> prefix w (c # s)" by (cases w) auto
    moreover have "\<not> suffix w (s @ [c])" using \<open>w \<noteq> []\<close> \<open>last w \<noteq> c\<close> by (auto simp: suffix_def) (metis last_append last_snoc)
    ultimately show ?thesis by simp
  qed
  then show "find (\<lambda>w. prefix w (c # s)) WHITE_SPACE = None" "find (\<lambda>w. suffix w (s @ [c])) WHITE_SPACE = None"
    by (auto simp: find_None_iff)
qed

lemma trim_printable:
  assumes "printable s" and "s \<noteq> []"
  shows "trim (s @ [LF]) = s"
proof -
  obtain c r where s: "s = c # r" using assms(2) by (cases s) auto
  obtain b d where e: "s = b @ [d]" using assms(2) by (metis append_butlast_last_id)
  have c: "33 \<le> (of_char c :: nat)" "(of_char c :: nat) \<le> 126" using assms(1) by (simp_all add: s printable_def)
  have d: "33 \<le> (of_char d :: nat)" "(of_char d :: nat) \<le> 126" using assms(1) by (simp_all add: e printable_def)
  have "trim_start (s @ [LF]) = s @ [LF]"
    using printable_no_space(1)[OF c, of "r @ [LF]"] by (subst trim_start.simps) (simp add: s)
  moreover have "find (\<lambda>w. suffix w (s @ [LF])) WHITE_SPACE = Some [LF]"
    by (simp add: WHITE_SPACE_def LF_def)
  moreover have "trim_end s = s"
    using printable_no_space(2)[OF d, of b] by (subst trim_end.simps) (simp add: e)
  ultimately show ?thesis
    unfolding trim_def by (subst trim_end.simps) simp
qed

lemma printable_utf8: "printable s \<Longrightarrow> valid_utf8 (s @ [LF])"
proof -
  assume "printable s"
  then have "ascii (s @ [LF])" unfolding printable_def ascii_def by (induction s) auto
  then show ?thesis using valid_utf8_prefix[of "s @ [LF]" "[]"] by simp
qed


section \<open>What a start guarantees\<close>

lemma server_start_inverse:
  assumes "server_start sha S connects opens binds H = (Inr st, H')"
  shows "guard_record_durability H = Inr ()"
    and "guard_record_storage H (norm_env (ho_env H ''TIDELINE_REDIS_URL'') \<noteq> None) = Inr ()"
    and "sd_backend st = RedisStreams url \<Longrightarrow> norm_env (ho_env H ''TIDELINE_REDIS_URL'') = Some url"
    and "default_tlr_store opens H = Inr (sd_db st)"
  using assms unfolding server_start_def Let_def
  by (cases "guard_record_durability H"; cases "guard_record_storage H (norm_env (ho_env H ''TIDELINE_REDIS_URL'') \<noteq> None)";
      cases "default_tlr_store opens H"; auto split: option.splits sum.splits prod.splits if_splits)+

lemma norm_env_Some: "norm_env v = Some x \<Longrightarrow> v = Some x"
  by (auto simp: norm_env_def split: option.splits if_splits)

text \<open>
  A server that starts with its records in memory was told to by TIDELINE_EPHEMERAL_RECORDS,
  and one that starts on Redis, with its records in a local file, was told to by
  TIDELINE_ALLOW_LOCAL_RECORDS. Whatever the environment, no other start leads to serving.
\<close>

theorem start_is_guarded:
  assumes "server_start sha S connects opens binds H = (Inr st, H')"
  shows "(sd_db st = DbMemory \<longrightarrow> ho_env H ''TIDELINE_EPHEMERAL_RECORDS'' \<noteq> None) \<and>
    (\<forall>url. sd_backend st = RedisStreams url \<longrightarrow>
       ho_env H ''TIDELINE_ALLOW_LOCAL_RECORDS'' \<noteq> None \<and> ho_env H ''TIDELINE_REDIS_URL'' = Some url) \<and>
    (\<forall>path. sd_db st = DbFile path \<longrightarrow> ho_env H ''TIDELINE_RECORD_DB'' = Some path)"
proof -
  note i = server_start_inverse[OF assms]
  have "ho_env H ''TIDELINE_EPHEMERAL_RECORDS'' \<noteq> None" if "sd_db st = DbMemory"
    using i(1,4) that
    by (cases "norm_env (ho_env H ''TIDELINE_RECORD_DB'')")
      (simp_all add: guard_record_durability_def default_tlr_store_def split: if_splits)
  moreover have "ho_env H ''TIDELINE_ALLOW_LOCAL_RECORDS'' \<noteq> None \<and> ho_env H ''TIDELINE_REDIS_URL'' = Some url"
    if "sd_backend st = RedisStreams url" for url
    using i(2) i(3)[OF that] norm_env_Some by (auto simp: guard_record_storage_def split: if_splits)
  moreover have "ho_env H ''TIDELINE_RECORD_DB'' = Some path" if "sd_db st = DbFile path" for path
    using i(4) that norm_env_Some
    by (auto simp: default_tlr_store_def split: option.splits if_splits)
  ultimately show ?thesis by blast
qed

text \<open>
  C33: A generated key survives a restart. The first start without a key in the environment
  generates one and writes it to the key file; a later start with the same environment that
  finds the file has the same key, and writes nothing.
\<close>

theorem key_survives_restart:
  assumes "sig_ok S" and "key_path H = Some p" and "norm_env (ho_env H ''TIDELINE_CHECKPOINT_KEY'') = None"
    and "ho_files H p = None" and "ho_write H p = Written" and "length (ho_seeds H (ho_drawn H)) = 32"
    and "printable (b64_encode S (ho_seeds H (ho_drawn H)))" and "b64_encode S (ho_seeds H (ho_drawn H)) \<noteq> []"
    and "keys_from_env sha S H = (r, H')"
    and "ho_env H2 = ho_env H" and "ho_files H2 p = ho_files H' p" and "ho_readable H2 p"
  shows "\<exists>k. r = Inr k \<and> kr_key k = ho_seeds H (ho_drawn H) \<and> keys_from_env sha S H2 = (Inr k, H2)"
proof -
  let ?seed = "ho_seeds H (ho_drawn H)"
  have path: "key_path H2 = Some p" using assms(2) unfolding key_path_def assms(10) .
  have r: "r = Inr (from_seed sha S ?seed)" and H': "ho_files H' p = Some (b64_encode S ?seed @ [LF])"
    using assms(2-5,9)
    by (auto simp: keys_from_env_def from_file_or_generate_def read_to_string_def generate_def write_private_def
        to_seed_b64_def from_seed_def)
  have "read_to_string H2 p = Some (b64_encode S ?seed @ [LF])"
    using assms(7,11,12) H' printable_utf8 by (simp add: read_to_string_def)
  moreover have "from_seed_b64 sha S (b64_encode S ?seed) = Some (from_seed sha S ?seed)"
    using assms(1,6) by (simp add: from_seed_b64_def sig_ok_def)
  ultimately show ?thesis
    using r path assms(3,7,8,10) trim_printable by (simp add: keys_from_env_def from_file_or_generate_def from_seed_def)
qed

text \<open>
  A key file that exists but cannot be read as text, because of its permissions or because
  it is not UTF-8, is overwritten by a newly generated key. The comment on the branch beside it
  says a key file that does not parse is not overwritten, since a new key invalidates every
  checkpoint signed before.
\<close>

theorem unreadable_key_is_replaced:
  assumes "key_path H = Some p" and "norm_env (ho_env H ''TIDELINE_CHECKPOINT_KEY'') = None"
    and "ho_files H p = Some old" and "\<not> ho_readable H p \<or> \<not> valid_utf8 old" and "ho_write H p = Written"
  shows "\<exists>H'. keys_from_env sha S H = (Inr (from_seed sha S (ho_seeds H (ho_drawn H))), H') \<and>
    ho_files H' p = Some (b64_encode S (ho_seeds H (ho_drawn H)) @ [LF])"
  using assms
  by (auto simp: keys_from_env_def from_file_or_generate_def read_to_string_def generate_def write_private_def
      to_seed_b64_def from_seed_def)

section \<open>A host\<close>

definition sample_host :: "(string \<times> string) list \<Rightarrow> (string \<times> string) list \<Rightarrow> host" where
  "sample_host env files =
     \<lparr>ho_env = map_of env, ho_files = map_of files, ho_readable = (\<lambda>_. True), ho_write = (\<lambda>_. Written),
      ho_seeds = (\<lambda>n. replicate 32 (of_nat (65 + n))), ho_drawn = 0\<rparr>"

lemma sample_host_simps [simp]:
  "ho_env (sample_host env files) = map_of env" "ho_files (sample_host env files) = map_of files"
  "ho_readable (sample_host env files) p" "ho_write (sample_host env files) p = Written"
  "ho_seeds (sample_host env files) n = replicate 32 (of_nat (65 + n))"
  "ho_drawn (sample_host env files) = 0"
  by (simp_all add: sample_host_def)

lemma key_beside_database: "with_extension ''/data/tideline.db'' ''signing-key'' = ''/data/tideline.signing-key''"
  by code_simp

theorem start_is_guarded_witness:
  "case server_start prefix_sha demo_sig (\<lambda>_. True) (\<lambda>_. True) (\<lambda>_. True)
       (sample_host [(''TIDELINE_EPHEMERAL_RECORDS'', ''1'')] []) of
     (Inr st, _) \<Rightarrow> sd_db st = DbMemory \<and> ho_env (sample_host [(''TIDELINE_EPHEMERAL_RECORDS'', ''1'')] []) ''TIDELINE_EPHEMERAL_RECORDS'' \<noteq> None
   | _ \<Rightarrow> False"
proof -
  let ?H = "sample_host [(''TIDELINE_EPHEMERAL_RECORDS'', ''1'')] []"
  obtain st H' where run: "server_start prefix_sha demo_sig (\<lambda>_. True) (\<lambda>_. True) (\<lambda>_. True) ?H = (Inr st, H')"
    and db: "sd_db st = DbMemory"
    by (simp add: server_start_def guard_record_durability_def guard_record_storage_def default_tlr_store_def
        norm_env_def keys_from_env_def from_file_or_generate_def key_path_def generate_def Let_def)
  from start_is_guarded[OF run] run db show ?thesis by simp
qed

definition key_env :: "(string \<times> string) list" where
  "key_env = [(''TIDELINE_CHECKPOINT_KEY_FILE'', ''key'')]"

lemma key_env_path: "key_path (sample_host key_env files) = Some ''key''"
  and key_env_none: "norm_env (ho_env (sample_host key_env files) ''TIDELINE_CHECKPOINT_KEY'') = None"
  by (simp_all add: key_path_def key_env_def norm_env_def)

theorem key_survives_restart_witness:
  "\<exists>k. fst (keys_from_env prefix_sha demo_sig (sample_host key_env [])) = Inr k \<and>
     keys_from_env prefix_sha demo_sig (snd (keys_from_env prefix_sha demo_sig (sample_host key_env []))) =
       (Inr k, snd (keys_from_env prefix_sha demo_sig (sample_host key_env [])))"
proof -
  let ?H = "sample_host key_env []"
  let ?H2 = "snd (keys_from_env prefix_sha demo_sig ?H)"
  have enc: "b64_encode demo_sig (replicate 32 65) = replicate 32 (CHR ''A'')"
    by (simp add: demo_sig_def) code_simp
  have shown: "printable (replicate 32 (CHR ''A''))" by (simp add: printable_def list_all_iff)
  have H2: "ho_env ?H2 = ho_env ?H" "ho_readable ?H2 ''key''"
    by (simp_all add: keys_from_env_def from_file_or_generate_def key_env_path key_env_none[simplified] read_to_string_def
        generate_def write_private_def)
  show ?thesis
    using key_survives_restart[OF demo_sig_ok key_env_path key_env_none, of "[]" prefix_sha
        "fst (keys_from_env prefix_sha demo_sig ?H)" ?H2 ?H2] enc shown H2
    by auto
qed

theorem unreadable_key_is_replaced_witness:
  "\<exists>H'. keys_from_env prefix_sha demo_sig (sample_host key_env [(''key'', [CHR 0xFF])])
      = (Inr (from_seed prefix_sha demo_sig (replicate 32 65)), H') \<and>
    ho_files H' ''key'' = Some (b64_encode demo_sig (replicate 32 65) @ [LF])"
  using unreadable_key_is_replaced[OF key_env_path key_env_none, of "[(''key'', [CHR 0xFF])]" "[CHR 0xFF]"]
  by (simp add: utf8_width_def)

end
