(* ===== verification/Redis.thy ===== *)
theory Redis
  imports Backend Store "HOL-Library.AList"
begin

text \<open>
  The streams of a fleet, \<open>crates/tideline-server/src/redis_backend.rs\<close>. Redis is a parameter: a
  record of the commands the source issues, each a function of a state of the server that may
  fail. The generator of \<open>subscribe\<close> is a state with the signals it has still to yield. Time to
  live is passed to the commands and acts in the parameter.
\<close>

type_synonym fields = "(string \<times> string) list"
type_synonym entry = "string \<times> fields"

text \<open>
  \<open>rd_script\<close> runs a script on the server, \<open>rd_xread\<close> answers no entries when it timed out, and
  None is an error of a command.
\<close>

record 'r redis =
  rd_connect :: "'r \<Rightarrow> bool \<times> 'r"
  rd_script :: "('r \<Rightarrow> u64 option \<times> 'r) \<Rightarrow> 'r \<Rightarrow> u64 option \<times> 'r"
  rd_incr :: "string \<Rightarrow> 'r \<Rightarrow> u64 option \<times> 'r"
  rd_xadd :: "string \<Rightarrow> nat option \<Rightarrow> fields \<Rightarrow> 'r \<Rightarrow> string option \<times> 'r"
  rd_pexpire :: "string \<Rightarrow> int \<Rightarrow> 'r \<Rightarrow> bool option \<times> 'r"
  rd_del :: "string list \<Rightarrow> 'r \<Rightarrow> nat option \<times> 'r"
  rd_set_px :: "string \<Rightarrow> string \<Rightarrow> int \<Rightarrow> 'r \<Rightarrow> unit option \<times> 'r"
  rd_exists :: "string \<Rightarrow> 'r \<Rightarrow> bool option"
  rd_xrange :: "string \<Rightarrow> 'r \<Rightarrow> entry list option \<times> 'r"
  rd_xread :: "string \<Rightarrow> string \<Rightarrow> nat \<Rightarrow> nat \<Rightarrow> 'r \<Rightarrow> entry list option \<times> 'r"

record redis_config =
  rc_key_prefix :: string
  rc_max_buffer :: nat
  rc_idle_ttl_ms :: int
  rc_completed_ttl_ms :: int
  rc_max_subscribers_per_stream :: u64
  rc_block_ms :: nat

definition default_redis_config :: redis_config where
  "default_redis_config = \<lparr>rc_key_prefix = ''tideline'', rc_max_buffer = 65536,
     rc_idle_ttl_ms = 30 * 60 * 1000, rc_completed_ttl_ms = 5 * 60 * 1000,
     rc_max_subscribers_per_stream = 50000, rc_block_ms = 5000\<rparr>"

section \<open>What one instance counts\<close>

record local_state =
  lo_subs :: "(string \<times> u64) list"
  lo_published :: u64
  lo_gaps :: u64

definition lo_count :: "string \<Rightarrow> local_state \<Rightarrow> u64" where
  "lo_count i l = (case map_of (lo_subs l) i of None \<Rightarrow> 0 | Some c \<Rightarrow> c)"

definition lo_incr :: "string \<Rightarrow> local_state \<Rightarrow> local_state" where
  "lo_incr i l = l\<lparr>lo_subs := AList.update i (lo_count i l + 1) (lo_subs l)\<rparr>"

definition lo_decr :: "string \<Rightarrow> local_state \<Rightarrow> local_state" where
  "lo_decr i l =
     (case map_of (lo_subs l) i of
        None \<Rightarrow> l
      | Some c \<Rightarrow>
          (let c = (if c = 0 then 0 else c - 1)
           in if c = 0 then l\<lparr>lo_subs := AList.delete i (lo_subs l)\<rparr>
              else l\<lparr>lo_subs := AList.update i c (lo_subs l)\<rparr>))"

definition lo_total :: "local_state \<Rightarrow> u64" where
  "lo_total l = sum_list (map snd (lo_subs l))"

definition lo_streams :: "local_state \<Rightarrow> u64" where
  "lo_streams l = of_nat (length (lo_subs l))"

record 'r fleet =
  fl_redis :: 'r
  fl_local :: local_state

definition on_redis :: "('r \<Rightarrow> 'a \<times> 'r) \<Rightarrow> 'r fleet \<Rightarrow> 'a \<times> 'r fleet" where
  "on_redis f b = (case f (fl_redis b) of (x, r) \<Rightarrow> (x, b\<lparr>fl_redis := r\<rparr>))"

section \<open>Writing\<close>

definition skey :: "redis_config \<Rightarrow> string \<Rightarrow> string" where
  "skey cfg i = rc_key_prefix cfg @ '':s:{'' @ i @ ''}''"

definition okey :: "redis_config \<Rightarrow> string \<Rightarrow> string" where
  "okey cfg i = rc_key_prefix cfg @ '':o:{'' @ i @ ''}''"

definition pkey :: "redis_config \<Rightarrow> string \<Rightarrow> string" where
  "pkey cfg i = rc_key_prefix cfg @ '':p:{'' @ i @ ''}''"

text \<open>The script: an error of a call ends it, and what it did before stays.\<close>

definition publish_lua ::
  "'r redis \<Rightarrow> string \<Rightarrow> string \<Rightarrow> string \<Rightarrow> string \<Rightarrow> nat \<Rightarrow> int \<Rightarrow> 'r \<Rightarrow> u64 option \<times> 'r" where
  "publish_lua R sk ok pk data maxlen ttl r =
     (case rd_incr R ok r of (None, r) \<Rightarrow> (None, r) | (Some n, r) \<Rightarrow>
     (let off = n - 1
      in case rd_xadd R sk (Some maxlen) [(''o'', dec off), (''d'', data)] r of (None, r) \<Rightarrow> (None, r) | (Some _, r) \<Rightarrow>
     (case rd_pexpire R sk ttl r of (None, r) \<Rightarrow> (None, r) | (Some _, r) \<Rightarrow>
     (case rd_pexpire R ok ttl r of (None, r) \<Rightarrow> (None, r) | (Some _, r) \<Rightarrow>
     (case rd_pexpire R pk ttl r of (None, r) \<Rightarrow> (None, r) | (Some _, r) \<Rightarrow> (Some off, r))))))"

definition rb_publish ::
  "'r redis \<Rightarrow> redis_config \<Rightarrow> nat \<Rightarrow> string \<Rightarrow> string \<Rightarrow> 'r fleet \<Rightarrow> u64 \<times> 'r fleet" where
  "rb_publish R cfg now i data b =
     (case on_redis (rd_script R (publish_lua R (skey cfg i) (okey cfg i) (pkey cfg i) data
              (rc_max_buffer cfg) (rc_idle_ttl_ms cfg))) b of
        (offset, b) \<Rightarrow>
          (case offset of None \<Rightarrow> 0 | Some n \<Rightarrow> n,
           b\<lparr>fl_local := (fl_local b)\<lparr>lo_published := lo_published (fl_local b) + 1\<rparr>\<rparr>))"

definition mark_terminal :: "'r redis \<Rightarrow> redis_config \<Rightarrow> string \<Rightarrow> fields \<Rightarrow> 'r \<Rightarrow> unit \<times> 'r" where
  "mark_terminal R cfg i items r =
     (case rd_xadd R (skey cfg i) None items r of
        (None, r) \<Rightarrow> ((), r)
      | (Some _, r) \<Rightarrow>
          ((), snd (rd_pexpire R (pkey cfg i) (rc_completed_ttl_ms cfg)
             (snd (rd_pexpire R (okey cfg i) (rc_completed_ttl_ms cfg)
             (snd (rd_pexpire R (skey cfg i) (rc_completed_ttl_ms cfg) r)))))))"

definition rb_complete :: "'r redis \<Rightarrow> redis_config \<Rightarrow> nat \<Rightarrow> string \<Rightarrow> 'r fleet \<Rightarrow> 'r fleet" where
  "rb_complete R cfg now i b = snd (on_redis (mark_terminal R cfg i [(''t'', ''done'')]) b)"

definition rb_fail :: "'r redis \<Rightarrow> redis_config \<Rightarrow> nat \<Rightarrow> string \<Rightarrow> string \<Rightarrow> 'r fleet \<Rightarrow> 'r fleet" where
  "rb_fail R cfg now i message b =
     snd (on_redis (mark_terminal R cfg i [(''t'', ''error''), (''m'', message)]) b)"

definition rb_delete :: "'r redis \<Rightarrow> redis_config \<Rightarrow> string \<Rightarrow> 'r fleet \<Rightarrow> bool \<times> 'r fleet" where
  "rb_delete R cfg i b =
     (case on_redis (rd_del R [skey cfg i, okey cfg i, pkey cfg i]) b of
        (n, b) \<Rightarrow> (case n of None \<Rightarrow> False | Some c \<Rightarrow> 0 < c, b))"

definition rb_set_private :: "'r redis \<Rightarrow> redis_config \<Rightarrow> nat \<Rightarrow> string \<Rightarrow> 'r fleet \<Rightarrow> 'r fleet" where
  "rb_set_private R cfg now i b = snd (on_redis (rd_set_px R (pkey cfg i) ''1'' (rc_idle_ttl_ms cfg)) b)"

definition rb_is_private :: "'r redis \<Rightarrow> redis_config \<Rightarrow> string \<Rightarrow> 'r fleet \<Rightarrow> bool" where
  "rb_is_private R cfg i b = (case rd_exists R (pkey cfg i) (fl_redis b) of None \<Rightarrow> False | Some x \<Rightarrow> x)"

section \<open>Reading\<close>

datatype stream_entry = TokenEntry u64 string | DoneEntry | ErrorEntry string | OtherEntry

definition parse_entry :: "fields \<Rightarrow> stream_entry" where
  "parse_entry fs =
     (case map_of fs ''t'' of
        Some t \<Rightarrow>
          if t = ''done'' then DoneEntry
          else if t = ''error'' then ErrorEntry (case map_of fs ''m'' of None \<Rightarrow> '''' | Some m \<Rightarrow> m)
          else OtherEntry
      | None \<Rightarrow>
          (case (Option.bind (map_of fs ''o'') parse_u64, map_of fs ''d'') of
             (Some off, Some d) \<Rightarrow> TokenEntry off d
           | _ \<Rightarrow> OtherEntry))"

fun earliest_entry :: "entry list \<Rightarrow> u64 option" where
  "earliest_entry [] = None"
| "earliest_entry (e # es) =
     (case parse_entry (snd e) of TokenEntry off d \<Rightarrow> Some off | _ \<Rightarrow> earliest_entry es)"

text \<open>The signals of a batch of entries, and whether one of them ends the stream.\<close>

fun scan_entries :: "(u64 \<Rightarrow> bool) \<Rightarrow> entry list \<Rightarrow> signal list \<times> bool" where
  "scan_entries keep [] = ([], False)"
| "scan_entries keep (e # es) =
     (case parse_entry (snd e) of
        TokenEntry off d \<Rightarrow>
          (case scan_entries keep es of (sigs, ended) \<Rightarrow>
             (if keep off then TokenSig \<lparr>tk_offset = off, tk_data = d\<rparr> # sigs else sigs, ended))
      | DoneEntry \<Rightarrow> ([Done], True)
      | ErrorEntry m \<Rightarrow> ([ErrorSig m, Done], True)
      | OtherEntry \<Rightarrow> scan_entries keep es)"

definition replay_entries :: "u64 \<Rightarrow> entry list \<Rightarrow> signal list \<times> bool" where
  "replay_entries start ids =
     (let earliest = earliest_entry ids;
          gap = (case earliest of None \<Rightarrow> [] | Some e \<Rightarrow> if start < e then [Gap] else []);
          lower = (case earliest of None \<Rightarrow> start | Some e \<Rightarrow> max start e)
      in case scan_entries (\<lambda>off. lower \<le> off) ids of (sigs, ended) \<Rightarrow> (gap @ sigs, ended))"

datatype redis_at = Starting u64 | Tailing string | Finished

record redis_sub =
  rs_id :: string
  rs_out :: "signal list"
  rs_at :: redis_at

definition rb_subscribe ::
  "'r redis \<Rightarrow> redis_config \<Rightarrow> nat \<Rightarrow> string \<Rightarrow> u64 \<Rightarrow> 'r fleet \<Rightarrow> redis_sub \<times> 'r fleet" where
  "rb_subscribe R cfg now i start b =
     (\<lparr>rs_id = i, rs_out = [], rs_at = Starting start\<rparr>, b\<lparr>fl_local := lo_incr i (fl_local b)\<rparr>)"

definition ends_with :: "string \<Rightarrow> redis_sub \<Rightarrow> redis_sub" where
  "ends_with m sub = sub\<lparr>rs_out := [ErrorSig m, Done], rs_at := Finished\<rparr>"

text \<open>The commands of the generator: the connection and the snapshot, then one blocking read.\<close>

definition take_snapshot :: "'r redis \<Rightarrow> redis_config \<Rightarrow> u64 \<Rightarrow> redis_sub \<Rightarrow> 'r \<Rightarrow> redis_sub \<times> 'r" where
  "take_snapshot R cfg start sub r =
     (case rd_connect R r of (False, r) \<Rightarrow> (ends_with ''redis unavailable'' sub, r) | (True, r) \<Rightarrow>
     (case rd_xrange R (skey cfg (rs_id sub)) r of
        (None, r) \<Rightarrow> (ends_with ''redis read failed'' sub, r)
      | (Some ids, r) \<Rightarrow>
          (case replay_entries start ids of (sigs, ended) \<Rightarrow>
             (sub\<lparr>rs_out := sigs, rs_at := (if ended then Finished
                else Tailing (if ids = [] then ''0'' else fst (last ids)))\<rparr>, r))))"

text \<open>None when the read timed out, after which the generator reads again.\<close>

definition read_tail :: "'r redis \<Rightarrow> redis_config \<Rightarrow> string \<Rightarrow> redis_sub \<Rightarrow> 'r \<Rightarrow> redis_sub option \<times> 'r" where
  "read_tail R cfg cursor sub r =
     (case rd_xread R (skey cfg (rs_id sub)) cursor 512 (rc_block_ms cfg) r of
        (None, r) \<Rightarrow> (Some (ends_with ''redis read failed'' sub), r)
      | (Some [], r) \<Rightarrow> (None, r)
      | (Some (e # es), r) \<Rightarrow>
          (case scan_entries (\<lambda>_. True) (e # es) of (sigs, ended) \<Rightarrow>
             (Some (sub\<lparr>rs_out := sigs, rs_at := (if ended then Finished else Tailing (fst (last (e # es))))\<rparr>), r)))"

definition rb_next :: "'r redis \<Rightarrow> redis_config \<Rightarrow> redis_sub \<Rightarrow> 'r fleet \<Rightarrow> (signal option \<times> redis_sub \<times> 'r fleet) option" where
  "rb_next R cfg sub b =
     (case rs_out sub of
        s # out \<Rightarrow> Some (Some s, sub\<lparr>rs_out := out\<rparr>, b)
      | [] \<Rightarrow>
          (case rs_at sub of
             Starting start \<Rightarrow>
               (case on_redis (take_snapshot R cfg start sub) b of (sub, b) \<Rightarrow> Some (None, sub, b))
           | Tailing cursor \<Rightarrow>
               (case on_redis (read_tail R cfg cursor sub) b of
                  (None, b) \<Rightarrow> None
                | (Some sub, b) \<Rightarrow> Some (None, sub, b))
           | Finished \<Rightarrow> None))"

definition rb_drop :: "redis_sub \<Rightarrow> 'r fleet \<Rightarrow> 'r fleet" where
  "rb_drop sub b = b\<lparr>fl_local := lo_decr (rs_id sub) (fl_local b)\<rparr>"

definition rb_metrics :: "'r fleet \<Rightarrow> metrics_snapshot" where
  "rb_metrics b =
     \<lparr>ms_active_streams = lo_streams (fl_local b), ms_active_subscribers = lo_total (fl_local b),
      ms_buffered_tokens = 0,
      ms_metrics = \<lparr>mm_streams_created = 0, mm_tokens_published = lo_published (fl_local b),
        mm_gaps_served = lo_gaps (fl_local b), mm_reaped = 0\<rparr>\<rparr>"

definition redis_backend :: "'r redis \<Rightarrow> redis_config \<Rightarrow> ('r fleet, redis_sub) backend" where
  "redis_backend R cfg =
     \<lparr>be_publish = rb_publish R cfg, be_complete = rb_complete R cfg, be_fail = rb_fail R cfg,
      be_delete = rb_delete R cfg, be_subscriber_count = (\<lambda>i b. lo_count i (fl_local b)),
      be_max_subscribers = (\<lambda>_. rc_max_subscribers_per_stream cfg),
      be_incr_gaps = (\<lambda>b. b\<lparr>fl_local := (fl_local b)\<lparr>lo_gaps := lo_gaps (fl_local b) + 1\<rparr>\<rparr>),
      be_subscribe = rb_subscribe R cfg, be_next = rb_next R cfg, be_drop = rb_drop,
      be_set_private = rb_set_private R cfg, be_is_private = rb_is_private R cfg, be_metrics = rb_metrics\<rparr>"

end
