(* ===== verification/Redis_Fleet.thy ===== *)
theory Redis_Fleet
  imports Redis "HOL-Library.Sublist"
begin

text \<open>
  What the streams of a fleet promise: the documented behaviour of the Redis commands the source
  uses, stated as laws of the parameter; the interpretation of the contract of a backend; and the
  join of replay and live tail while other instances write.
\<close>

section \<open>The commands of Redis\<close>

datatype redis_value = StreamVal "entry list" | CounterVal nat | TextVal string

definition entries_of :: "redis_value option \<Rightarrow> entry list option" where
  "entries_of v = (case v of None \<Rightarrow> Some [] | Some (StreamVal es) \<Rightarrow> Some es | _ \<Rightarrow> None)"

definition counter_of :: "redis_value option \<Rightarrow> nat option" where
  "counter_of v = (case v of None \<Rightarrow> Some 0 | Some (CounterVal n) \<Rightarrow> Some n | _ \<Rightarrow> None)"

lemma value_simps [simp]:
  "entries_of (Some (StreamVal es)) = Some es" "counter_of (Some (CounterVal n)) = Some n"
  by (simp_all add: entries_of_def counter_of_def)

text \<open>
  While a server is ready it answers every command and no key expires. \<open>keys\<close> reads its keyspace.
  A key that is absent reads as an empty stream and counts from zero; \<open>MAXLEN ~\<close> trims nothing
  that fits; an id is never given twice in a stream; a script runs alone; \<open>XREAD\<close> answers the
  entries after an id, at most \<open>COUNT\<close>, and from the beginning after \<open>0\<close>.
\<close>

definition redis_laws :: "'r redis \<Rightarrow> ('r \<Rightarrow> string \<Rightarrow> redis_value option) \<Rightarrow> ('r \<Rightarrow> bool) \<Rightarrow> bool" where
  "redis_laws R keys ready \<longleftrightarrow> (\<forall>r. ready r \<longrightarrow>
     (case rd_connect R r of (ok, r') \<Rightarrow> ok \<and> ready r' \<and> keys r' = keys r) \<and>
     (\<forall>f. rd_script R f r = f r) \<and>
     (\<forall>k n. counter_of (keys r k) = Some n \<longrightarrow> Suc n < 2 ^ 63 \<longrightarrow>
        (case rd_incr R k r of (x, r') \<Rightarrow>
           x = Some (of_nat (Suc n)) \<and> ready r' \<and> keys r' = (keys r)(k \<mapsto> CounterVal (Suc n)))) \<and>
     (\<forall>k limit fs es. entries_of (keys r k) = Some es \<longrightarrow> (\<forall>n. limit = Some n \<longrightarrow> length es < n) \<longrightarrow>
        (case rd_xadd R k limit fs r of (x, r') \<Rightarrow>
           ready r' \<and> (\<exists>i. x = Some i \<and> i \<notin> fst ` set es \<and> i \<noteq> ''0'' \<and>
             keys r' = (keys r)(k \<mapsto> StreamVal (es @ [(i, fs)]))))) \<and>
     (\<forall>k ttl. 0 < ttl \<longrightarrow>
        (case rd_pexpire R k ttl r of (x, r') \<Rightarrow> x \<noteq> None \<and> ready r' \<and> keys r' = keys r)) \<and>
     (\<forall>k es. entries_of (keys r k) = Some es \<longrightarrow>
        (case rd_xrange R k r of (x, r') \<Rightarrow> x = Some es \<and> ready r' \<and> keys r' = keys r)) \<and>
     (\<forall>k cursor count block a b. entries_of (keys r k) = Some (a @ b) \<longrightarrow> distinct (map fst (a @ b)) \<longrightarrow>
        (a = [] \<and> cursor = ''0'' \<or> a \<noteq> [] \<and> cursor = fst (last a)) \<longrightarrow>
        (case rd_xread R k cursor count block r of (x, r') \<Rightarrow>
           x = Some (take count b) \<and> ready r' \<and> keys r' = keys r)))"

section \<open>What a stream has been given\<close>

datatype item = Tok string | Fin | Failed string

fun tokens_in :: "item list \<Rightarrow> nat" where
  "tokens_in [] = 0"
| "tokens_in (Tok d # is) = Suc (tokens_in is)"
| "tokens_in (_ # is) = tokens_in is"

text \<open>The entries that stand for a history, and the signals a reader from \<open>start\<close> is owed.\<close>

fun entries_for :: "nat \<Rightarrow> item list \<Rightarrow> stream_entry list" where
  "entries_for n [] = []"
| "entries_for n (Tok d # is) = TokenEntry (of_nat n) d # entries_for (Suc n) is"
| "entries_for n (Fin # is) = DoneEntry # entries_for n is"
| "entries_for n (Failed m # is) = ErrorEntry m # entries_for n is"

fun owed :: "nat \<Rightarrow> nat \<Rightarrow> item list \<Rightarrow> signal list" where
  "owed start n [] = []"
| "owed start n (Tok d # is) =
     (if start \<le> n then [TokenSig \<lparr>tk_offset = of_nat n, tk_data = d\<rparr>] else []) @ owed start (Suc n) is"
| "owed start n (Fin # is) = [Done]"
| "owed start n (Failed m # is) = [ErrorSig m, Done]"

fun ended_in :: "item list \<Rightarrow> bool" where
  "ended_in [] = False"
| "ended_in (Tok d # is) = ended_in is"
| "ended_in (_ # is) = True"

definition decoded :: "entry list \<Rightarrow> stream_entry list" where
  "decoded es = map (\<lambda>e. parse_entry (snd e)) es"

definition stream_has :: "('r \<Rightarrow> string \<Rightarrow> redis_value option) \<Rightarrow> redis_config \<Rightarrow> 'r \<Rightarrow> string \<Rightarrow> item list \<Rightarrow> bool" where
  "stream_has keys cfg r k is \<longleftrightarrow> (\<exists>es. entries_of (keys r (skey cfg k)) = Some es \<and>
     distinct (map fst es) \<and> decoded es = entries_for 0 is \<and> counter_of (keys r (okey cfg k)) = Some (tokens_in is))"

lemma tokens_in_append [simp]: "tokens_in (a @ b) = tokens_in a + tokens_in b"
  by (induction a rule: tokens_in.induct) auto

lemma entries_for_append [simp]: "entries_for n (a @ b) = entries_for n a @ entries_for (n + tokens_in a) b"
  by (induction n a rule: entries_for.induct) auto

lemma owed_append:
  "owed start n (a @ b) = owed start n a @ (if ended_in a then [] else owed start (n + tokens_in a) b)"
  by (induction start n a rule: owed.induct) auto

lemma owed_from: "start \<le> n \<Longrightarrow> owed start n is = owed 0 n is"
  by (induction start n "is" rule: owed.induct) auto

lemma decoded_simps [simp]:
  "decoded [] = []" "decoded (e # es) = parse_entry (snd e) # decoded es" "decoded (a @ b) = decoded a @ decoded b"
  "length (decoded es) = length es"
  by (simp_all add: decoded_def)

lemma length_entries_for [simp]: "length (entries_for n is) = length is"
  by (induction n "is" rule: entries_for.induct) auto

lemma entries_for_split:
  "entries_for n is = a @ b \<Longrightarrow>
   \<exists>ia ib. is = ia @ ib \<and> a = entries_for n ia \<and> b = entries_for (n + tokens_in ia) ib"
proof -
  assume h: "entries_for n is = a @ b"
  let ?a = "take (length a) is" and ?b = "drop (length a) is"
  have "entries_for n ?a @ entries_for (n + tokens_in ?a) ?b = a @ b"
    using h by (metis append_take_drop_id entries_for_append)
  moreover have "length (entries_for n ?a) = length a"
    using arg_cong[OF h, of length] by simp
  ultimately show ?thesis by (metis append_eq_append_conv append_take_drop_id)
qed


lemma ended_in_append [simp]: "ended_in (a @ b) \<longleftrightarrow> ended_in a \<or> ended_in b"
  by (induction a rule: ended_in.induct) auto

lemma length_owed: "length (owed start n is) \<le> Suc (length is)"
  by (induction start n "is" rule: owed.induct) auto

lemma offset_le_iff: "n < 2 ^ 64 \<Longrightarrow> (start :: u64) \<le> of_nat n \<longleftrightarrow> unat start \<le> n"
  by (simp add: word_le_nat_alt unat_of_nat take_bit_eq_mod)

lemma scan_decoded:
  "decoded es = entries_for n is \<Longrightarrow> n + tokens_in is < 2 ^ 64 \<Longrightarrow>
   scan_entries (\<lambda>off. start \<le> off) es = (owed (unat start) n is, ended_in is) \<and>
   scan_entries (\<lambda>_. True) es = (owed 0 n is, ended_in is)"
proof (induction es arbitrary: n "is")
  case Nil
  then show ?case by (cases "is" rule: ended_in.cases) auto
next
  case (Cons e es)
  then show ?case by (cases "is" rule: ended_in.cases) (auto simp: offset_le_iff)
qed

lemma earliest_decoded:
  "decoded es = entries_for n is \<Longrightarrow> earliest_entry es = None \<or> earliest_entry es = Some (of_nat n)"
proof (induction es arbitrary: n "is")
  case (Cons e es)
  then show ?case by (cases "is" rule: ended_in.cases) auto
qed simp

lemma replay_decoded:
  assumes "decoded es = entries_for 0 is" and "tokens_in is < 2 ^ 64"
  shows "replay_entries start es = (owed (unat start) 0 is, ended_in is)"
  using earliest_decoded[OF assms(1)] scan_decoded[OF assms(1), of start] assms(2)
  by (auto simp: replay_entries_def Let_def max_def)

section \<open>Writing to a stream\<close>

definition stream_is ::
  "('r \<Rightarrow> string \<Rightarrow> redis_value option) \<Rightarrow> redis_config \<Rightarrow> 'r \<Rightarrow> string \<Rightarrow> entry list \<Rightarrow> item list \<Rightarrow> bool" where
  "stream_is keys cfg r k es is \<longleftrightarrow> entries_of (keys r (skey cfg k)) = Some es \<and> distinct (map fst es) \<and>
     decoded es = entries_for 0 is \<and> counter_of (keys r (okey cfg k)) = Some (tokens_in is)"

lemma stream_has_is: "stream_has keys cfg r k is \<longleftrightarrow> (\<exists>es. stream_is keys cfg r k es is)"
  by (simp add: stream_has_def stream_is_def)

lemma key_names [simp]: "skey cfg i \<noteq> okey cfg j" "okey cfg i \<noteq> skey cfg j"
  by (simp_all add: skey_def okey_def)

lemma stream_is_length: "stream_is keys cfg r k es is \<Longrightarrow> length es = length is"
  unfolding stream_is_def by (metis decoded_simps(4) length_entries_for)

lemma parse_written [simp]:
  "parse_entry [(''o'', dec off), (''d'', d)] = TokenEntry off d" "parse_entry [(''t'', ''done'')] = DoneEntry"
  "parse_entry [(''t'', ''error''), (''m'', m)] = ErrorEntry m"
  by (simp_all add: parse_entry_def)

lemma redis_lawsD:
  assumes "redis_laws R keys ready" and "ready r"
  shows "case rd_connect R r of (ok, r') \<Rightarrow> ok \<and> ready r' \<and> keys r' = keys r"
    and "rd_script R f r = f r"
    and "counter_of (keys r k) = Some n \<Longrightarrow> Suc n < 2 ^ 63 \<Longrightarrow>
      \<exists>r'. rd_incr R k r = (Some (of_nat (Suc n)), r') \<and> ready r' \<and> keys r' = (keys r)(k \<mapsto> CounterVal (Suc n))"
    and "entries_of (keys r k) = Some es \<Longrightarrow> (\<forall>n. limit = Some n \<longrightarrow> length es < n) \<Longrightarrow>
      \<exists>i r'. rd_xadd R k limit fs r = (Some i, r') \<and> ready r' \<and> i \<notin> fst ` set es \<and> i \<noteq> ''0'' \<and>
        keys r' = (keys r)(k \<mapsto> StreamVal (es @ [(i, fs)]))"
    and "0 < ttl \<Longrightarrow> \<exists>x r'. rd_pexpire R k ttl r = (Some x, r') \<and> ready r' \<and> keys r' = keys r"
    and "entries_of (keys r k) = Some es \<Longrightarrow> \<exists>r'. rd_xrange R k r = (Some es, r') \<and> ready r' \<and> keys r' = keys r"
    and "entries_of (keys r k) = Some (a @ b) \<Longrightarrow> distinct (map fst (a @ b)) \<Longrightarrow>
      a = [] \<and> cursor = ''0'' \<or> a \<noteq> [] \<and> cursor = fst (last a) \<Longrightarrow>
      \<exists>r'. rd_xread R k cursor len block r = (Some (take len b), r') \<and> ready r' \<and> keys r' = keys r"
proof -
  note l = assms(1)[unfolded redis_laws_def, THEN spec, THEN mp, OF assms(2)]
  note l1 = l[THEN conjunct1] and l2 = l[THEN conjunct2, THEN conjunct1] and m = l[THEN conjunct2, THEN conjunct2]
  note l3 = m[THEN conjunct1] and l4 = m[THEN conjunct2, THEN conjunct1] and n = m[THEN conjunct2, THEN conjunct2]
  note l5 = n[THEN conjunct1] and l6 = n[THEN conjunct2, THEN conjunct1] and l7 = n[THEN conjunct2, THEN conjunct2]
  show "case rd_connect R r of (ok, r') \<Rightarrow> ok \<and> ready r' \<and> keys r' = keys r" by (rule l1)
  show "rd_script R f r = f r" using l2 by blast
  show "\<exists>r'. rd_incr R k r = (Some (of_nat (Suc n)), r') \<and> ready r' \<and> keys r' = (keys r)(k \<mapsto> CounterVal (Suc n))"
    if "counter_of (keys r k) = Some n" "Suc n < 2 ^ 63"
    using l3[rule_format, OF that] by (auto split: prod.splits)
  show "\<exists>i r'. rd_xadd R k limit fs r = (Some i, r') \<and> ready r' \<and> i \<notin> fst ` set es \<and> i \<noteq> ''0'' \<and>
      keys r' = (keys r)(k \<mapsto> StreamVal (es @ [(i, fs)]))"
    if "entries_of (keys r k) = Some es" "\<forall>n. limit = Some n \<longrightarrow> length es < n"
    using l4[THEN spec, THEN spec, THEN spec, THEN spec, THEN mp, OF that(1), THEN mp, OF that(2), of fs]
    by (auto split: prod.splits)
  show "\<exists>x r'. rd_pexpire R k ttl r = (Some x, r') \<and> ready r' \<and> keys r' = keys r" if "0 < ttl"
    using l5[rule_format, OF that, of k] by (auto split: prod.splits)
  show "\<exists>r'. rd_xrange R k r = (Some es, r') \<and> ready r' \<and> keys r' = keys r" if "entries_of (keys r k) = Some es"
    using l6[rule_format, OF that] by (auto split: prod.splits)
  show "\<exists>r'. rd_xread R k cursor len block r = (Some (take len b), r') \<and> ready r' \<and> keys r' = keys r"
    if "entries_of (keys r k) = Some (a @ b)" "distinct (map fst (a @ b))"
      "a = [] \<and> cursor = ''0'' \<or> a \<noteq> [] \<and> cursor = fst (last a)"
    using l7[rule_format, OF that, of len block] by (auto split: prod.splits)
qed


text \<open>A write appends one entry, which stands for what was written.\<close>

lemma publish_stream:
  assumes "redis_laws R keys ready" and "ready r" and "stream_is keys cfg r k es is"
    and "length is < rc_max_buffer cfg" and "Suc (tokens_in is) < 2 ^ 63" and "0 < rc_idle_ttl_ms cfg"
  obtains r' e where
    "publish_lua R (skey cfg k) (okey cfg k) (pkey cfg k) d (rc_max_buffer cfg) (rc_idle_ttl_ms cfg) r
       = (Some (of_nat (tokens_in is)), r')"
    "ready r'" "stream_is keys cfg r' k (es @ [e]) (is @ [Tok d])"
proof -
  note L = redis_lawsD[OF assms(1)]
  let ?off = "of_nat (tokens_in is) :: u64" and ?ttl = "rc_idle_ttl_ms cfg"
  obtain r1 where r1: "rd_incr R (okey cfg k) r = (Some (of_nat (Suc (tokens_in is))), r1)" "ready r1"
    "keys r1 = (keys r)(okey cfg k \<mapsto> CounterVal (Suc (tokens_in is)))"
    using L(3)[OF assms(2) _ assms(5)] assms(3) unfolding stream_is_def by blast
  have "entries_of (keys r1 (skey cfg k)) = Some es" using assms(3) r1(3) by (simp add: stream_is_def)
  moreover have "length es < rc_max_buffer cfg" using assms(3,4) stream_is_length by fastforce
  ultimately obtain i r2 where r2: "rd_xadd R (skey cfg k) (Some (rc_max_buffer cfg)) [(''o'', dec ?off), (''d'', d)] r1 = (Some i, r2)"
    "ready r2" "i \<notin> fst ` set es" "keys r2 = (keys r1)(skey cfg k \<mapsto> StreamVal (es @ [(i, [(''o'', dec ?off), (''d'', d)])]))"
    using L(4)[OF r1(2), of "skey cfg k" es "Some (rc_max_buffer cfg)"] by (metis option.inject)
  obtain x3 r3 where r3: "rd_pexpire R (skey cfg k) ?ttl r2 = (Some x3, r3)" "ready r3" "keys r3 = keys r2"
    using L(5)[OF r2(2) assms(6)] by blast
  obtain x4 r4 where r4: "rd_pexpire R (okey cfg k) ?ttl r3 = (Some x4, r4)" "ready r4" "keys r4 = keys r3"
    using L(5)[OF r3(2) assms(6)] by blast
  obtain x5 r5 where r5: "rd_pexpire R (pkey cfg k) ?ttl r4 = (Some x5, r5)" "ready r5" "keys r5 = keys r4"
    using L(5)[OF r4(2) assms(6)] by blast
  have "publish_lua R (skey cfg k) (okey cfg k) (pkey cfg k) d (rc_max_buffer cfg) ?ttl r = (Some ?off, r5)"
    by (simp add: publish_lua_def r1(1) r2(1) r3(1) r4(1) r5(1) Let_def)
  moreover have "stream_is keys cfg r5 k (es @ [(i, [(''o'', dec ?off), (''d'', d)])]) (is @ [Tok d])"
    using assms(3) r2(3) by (simp add: stream_is_def r1(3) r2(4) r3(3) r4(3) r5(3))
  ultimately show thesis using r5(2) that by blast
qed

definition terminal_fields :: "item \<Rightarrow> fields" where
  "terminal_fields i = (case i of Failed m \<Rightarrow> [(''t'', ''error''), (''m'', m)] | _ \<Rightarrow> [(''t'', ''done'')])"

lemma terminal_stream:
  assumes "redis_laws R keys ready" and "ready r" and "stream_is keys cfg r k es is"
    and "0 < rc_completed_ttl_ms cfg" and "\<forall>d. t \<noteq> Tok d"
  obtains e where "ready (snd (mark_terminal R cfg k (terminal_fields t) r))"
    "stream_is keys cfg (snd (mark_terminal R cfg k (terminal_fields t) r)) k (es @ [e]) (is @ [t])"
proof -
  note L = redis_lawsD[OF assms(1)]
  let ?ttl = "rc_completed_ttl_ms cfg" and ?fs = "terminal_fields t"
  obtain i r2 where r2: "rd_xadd R (skey cfg k) None ?fs r = (Some i, r2)"
    "ready r2" "i \<notin> fst ` set es" "keys r2 = (keys r)(skey cfg k \<mapsto> StreamVal (es @ [(i, ?fs)]))"
    using L(4)[OF assms(2), of "skey cfg k" es None] assms(3) unfolding stream_is_def by blast
  obtain x3 r3 where r3: "rd_pexpire R (skey cfg k) ?ttl r2 = (Some x3, r3)" "ready r3" "keys r3 = keys r2"
    using L(5)[OF r2(2) assms(4)] by blast
  obtain x4 r4 where r4: "rd_pexpire R (okey cfg k) ?ttl r3 = (Some x4, r4)" "ready r4" "keys r4 = keys r3"
    using L(5)[OF r3(2) assms(4)] by blast
  obtain x5 r5 where r5: "rd_pexpire R (pkey cfg k) ?ttl r4 = (Some x5, r5)" "ready r5" "keys r5 = keys r4"
    using L(5)[OF r4(2) assms(4)] by blast
  have done_eq: "snd (mark_terminal R cfg k ?fs r) = r5"
    by (simp add: mark_terminal_def r2(1) r3(1) r4(1) r5(1))
  have "stream_is keys cfg r5 k (es @ [(i, ?fs)]) (is @ [t])"
    using assms(3,5) r2(3)
    by (cases t) (simp_all add: stream_is_def terminal_fields_def r2(4) r3(3) r4(3) r5(3))
  with r5(2) done_eq show thesis using that by simp
qed


section \<open>A reader\<close>

text \<open>
  \<open>D\<close> has been yielded; the entries are split at the cursor, and \<open>m\<close> bounds the polls left.
\<close>

definition reader_is ::
  "u64 \<Rightarrow> string \<Rightarrow> redis_sub \<Rightarrow> entry list \<Rightarrow> item list \<Rightarrow> signal list \<Rightarrow> nat \<Rightarrow> bool" where
  "reader_is start k sub es is D m \<longleftrightarrow> rs_id sub = k \<and>
     (case rs_at sub of
        Starting s \<Rightarrow> s = start \<and> D = [] \<and> rs_out sub = [] \<and> 3 * length es + 4 \<le> m
      | Tailing cursor \<Rightarrow> (\<exists>a b ia ib. es = a @ b \<and> is = ia @ ib \<and> decoded a = entries_for 0 ia \<and> \<not> ended_in ia \<and>
          (b = [] \<or> unat start \<le> tokens_in ia) \<and> (a = [] \<and> cursor = ''0'' \<or> a \<noteq> [] \<and> cursor = fst (last a)) \<and>
          D @ rs_out sub = owed (unat start) 0 ia \<and> length (rs_out sub) + 3 * length b \<le> m)
      | Finished \<Rightarrow> ended_in is \<and> D @ rs_out sub = owed (unat start) 0 is \<and> length (rs_out sub) \<le> m)"

lemma reader_tailing:
  assumes "rs_at sub = Tailing cursor" and "rs_id sub = k" and "es = a @ b" and "is = ia @ ib"
    and "decoded a = entries_for 0 ia" and "\<not> ended_in ia" and "b = [] \<or> unat start \<le> tokens_in ia"
    and "a = [] \<and> cursor = ''0'' \<or> a \<noteq> [] \<and> cursor = fst (last a)"
    and "D @ rs_out sub = owed (unat start) 0 ia" and "length (rs_out sub) + 3 * length b \<le> m"
  shows "reader_is start k sub es is D m"
  unfolding reader_is_def using assms by (simp only: redis_at.case) blast

lemma reader_tailingE:
  assumes "reader_is start k sub es is D m" and "rs_at sub = Tailing cursor"
  obtains a b ia ib where "es = a @ b" "is = ia @ ib" "decoded a = entries_for 0 ia" "\<not> ended_in ia"
    "b = [] \<or> unat start \<le> tokens_in ia" "a = [] \<and> cursor = ''0'' \<or> a \<noteq> [] \<and> cursor = fst (last a)"
    "D @ rs_out sub = owed (unat start) 0 ia" "length (rs_out sub) + 3 * length b \<le> m" "rs_id sub = k"
  using assms unfolding reader_is_def by auto

lemma reader_pop:
  assumes "reader_is start k sub es is D m" and "rs_out sub = s # out"
  shows "0 < m \<and> reader_is start k (sub\<lparr>rs_out := out\<rparr>) es is (D @ [s]) (m - 1)"
proof (cases "rs_at sub")
  case (Tailing cursor)
  from assms(1) Tailing show ?thesis
  proof (rule reader_tailingE)
    fix a b ia ib
    assume h: "es = a @ b" "is = ia @ ib" "decoded a = entries_for 0 ia" "\<not> ended_in ia"
      "b = [] \<or> unat start \<le> tokens_in ia" "a = [] \<and> cursor = ''0'' \<or> a \<noteq> [] \<and> cursor = fst (last a)"
      "D @ rs_out sub = owed (unat start) 0 ia" "length (rs_out sub) + 3 * length b \<le> m" "rs_id sub = k"
    show ?thesis
    proof
      show "0 < m" using h(8) assms(2) by simp
      show "reader_is start k (sub\<lparr>rs_out := out\<rparr>) es is (D @ [s]) (m - 1)"
        using assms(2) Tailing h(7-9) by (intro reader_tailing[OF _ _ h(1-6)]) simp_all
    qed
  qed
qed (use assms in \<open>auto simp: reader_is_def\<close>)

lemma reader_prefix: "reader_is start k sub es is D m \<Longrightarrow> prefix D (owed (unat start) 0 is)"
  by (auto simp: reader_is_def owed_append prefix_def split: redis_at.splits) (metis append.assoc)+

lemma decoded_take: "decoded (a @ b) = entries_for n (ia @ ib) \<Longrightarrow> decoded a = entries_for n ia \<Longrightarrow>
  decoded b = entries_for (n + tokens_in ia) ib"
  by simp

lemma reader_written:
  assumes "reader_is start k sub es is D m" and "unat start \<le> tokens_in is" and "length es = length is"
  shows "reader_is start k sub (es @ [e]) (is @ [i]) D (m + 3)"
proof (cases "rs_at sub")
  case (Tailing cursor)
  from assms(1) Tailing obtain a b ia ib where h: "es = a @ b" "is = ia @ ib" "decoded a = entries_for 0 ia" "\<not> ended_in ia"
    "b = [] \<or> unat start \<le> tokens_in ia" "a = [] \<and> cursor = ''0'' \<or> a \<noteq> [] \<and> cursor = fst (last a)"
    "D @ rs_out sub = owed (unat start) 0 ia" "length (rs_out sub) + 3 * length b \<le> m"
    by (rule reader_tailingE) auto
  have "length a = length ia" using h(3) by (metis decoded_simps(4) length_entries_for)
  then have "b = [] \<Longrightarrow> ib = []" using h(1,2) assms(3) by simp
  then have "unat start \<le> tokens_in ia" using h(2,5) assms(2) by auto
  then have "es @ [e] = a @ (b @ [e]) \<and> is @ [i] = ia @ (ib @ [i]) \<and> decoded a = entries_for 0 ia \<and> \<not> ended_in ia \<and>
      (b @ [e] = [] \<or> unat start \<le> tokens_in ia) \<and> (a = [] \<and> cursor = ''0'' \<or> a \<noteq> [] \<and> cursor = fst (last a)) \<and>
      D @ rs_out sub = owed (unat start) 0 ia \<and> length (rs_out sub) + 3 * length (b @ [e]) \<le> m + 3"
    using h by simp
  then show ?thesis using assms(1) Tailing unfolding reader_is_def by (simp only: redis_at.case) blast
qed (use assms in \<open>auto simp: reader_is_def owed_append\<close>)

lemma take_cursor:
  assumes "c \<noteq> []"
  shows "a @ c \<noteq> [] \<and> fst (last c) = fst (last (a @ c))"
  using assms by simp

lemma read_tail_step:
  assumes laws: "redis_laws R keys ready" and ok: "ready r" "stream_is keys cfg r k es is" "tokens_in is < 2 ^ 64"
    and rd: "reader_is start k sub es is D m" "rs_at sub = Tailing cursor" "rs_out sub = []"
    and step: "read_tail R cfg cursor sub r = (x, r')"
  shows "ready r' \<and> keys r' = keys r \<and>
    (case x of None \<Rightarrow> D = owed (unat start) 0 is
     | Some sub' \<Rightarrow> 0 < m \<and> reader_is start k sub' es is D (m - 1))"
proof -
  obtain a b ia ib where h: "es = a @ b" "is = ia @ ib" "decoded a = entries_for 0 ia" "\<not> ended_in ia"
    "b = [] \<or> unat start \<le> tokens_in ia" "a = [] \<and> cursor = ''0'' \<or> a \<noteq> [] \<and> cursor = fst (last a)"
    "D = owed (unat start) 0 ia" "3 * length b \<le> m" and id: "rs_id sub = k"
    using rd unfolding reader_is_def by auto
  have dist: "distinct (map fst (a @ b))" and ent: "entries_of (keys r (skey cfg k)) = Some (a @ b)"
    and dec: "decoded b = entries_for (tokens_in ia) ib"
    using ok(2) h(1,2,3) unfolding stream_is_def by auto
  obtain r2 where r2: "rd_xread R (skey cfg k) cursor 512 (rc_block_ms cfg) r = (Some (take 512 b), r2)" "ready r2" "keys r2 = keys r"
    using redis_lawsD(7)[OF laws ok(1) ent dist h(6)] by blast
  show ?thesis
  proof (cases "take 512 b")
    case Nil
    then have "b = []" by simp
    moreover have "ib = []" using dec \<open>b = []\<close> by (metis decoded_simps(1) length_0_conv length_entries_for)
    ultimately show ?thesis using step r2 Nil h(2,7) by (auto simp: read_tail_def id)
  next
    case (Cons e c)
    define w where "w = take 512 b"
    have w: "w \<noteq> []" "b = w @ drop 512 b" using Cons unfolding w_def by (simp, metis append_take_drop_id)
    then have start: "unat start \<le> tokens_in ia" using h(5) by auto
    obtain iw iz where iw: "ib = iw @ iz" "decoded w = entries_for (tokens_in ia) iw"
      using entries_for_split[of "tokens_in ia" ib "decoded w" "decoded (drop 512 b)"] dec w(2) by (metis decoded_simps(3))
    have scan: "scan_entries (\<lambda>_. True) w = (owed 0 (tokens_in ia) iw, ended_in iw)"
      using scan_decoded[OF iw(2)] ok(3) h(2) iw(1) by simp
    have lenw: "length w = length iw" using iw(2) by (metis decoded_simps(4) length_entries_for)
    have len: "length (owed 0 (tokens_in ia) iw) + 3 * length (drop 512 b) \<le> m - 1" "0 < m"
    proof -
      have "length b = length w + length (drop 512 b)" using w(2) by (metis length_append)
      moreover have "0 < length w" using w(1) by simp
      ultimately show "length (owed 0 (tokens_in ia) iw) + 3 * length (drop 512 b) \<le> m - 1" "0 < m"
        using length_owed[of 0 "tokens_in ia" iw] lenw h(8) by linarith+
    qed
    have x: "x = Some (sub\<lparr>rs_out := owed 0 (tokens_in ia) iw, rs_at := (if ended_in iw then Finished else Tailing (fst (last w)))\<rparr>)"
      "r' = r2"
    proof -
      have w2: "w = e # c" using Cons w_def by simp
      have "rd_xread R (skey cfg (rs_id sub)) cursor 512 (rc_block_ms cfg) r = (Some (e # c), r2)"
        using r2(1) Cons id by simp
      then have "read_tail R cfg cursor sub r = (Some (sub\<lparr>rs_out := owed 0 (tokens_in ia) iw,
          rs_at := (if ended_in iw then Finished else Tailing (fst (last w)))\<rparr>), r2)"
        using scan unfolding read_tail_def w2 by (simp only: prod.case option.case list.case)
      then show "x = Some (sub\<lparr>rs_out := owed 0 (tokens_in ia) iw, rs_at := (if ended_in iw then Finished else Tailing (fst (last w)))\<rparr>)"
        "r' = r2"
        using step by simp_all
    qed
    have "reader_is start k (sub\<lparr>rs_out := owed 0 (tokens_in ia) iw, rs_at := (if ended_in iw then Finished else Tailing (fst (last w)))\<rparr>)
        es is D (m - 1)"
    proof (cases "ended_in iw")
      case True
      then show ?thesis
        using h(2,4,7) iw(1) len start by (simp add: reader_is_def id owed_append owed_from[OF start])
    next
      case False
      have split: "es = (a @ w) @ drop 512 b" "is = (ia @ iw) @ iz"
        using h(1,2) iw(1) w(2) by (metis append.assoc)+
      have facts: "decoded (a @ w) = entries_for 0 (ia @ iw)" "\<not> ended_in (ia @ iw)" "unat start \<le> tokens_in (ia @ iw)"
        "D @ owed 0 (tokens_in ia) iw = owed (unat start) 0 (ia @ iw)"
        using h(3,4,7) iw(2) False start by (simp_all add: owed_append owed_from[OF start])
      have pos: "a @ w \<noteq> []" "fst (last w) = fst (last (a @ w))" using w(1) by simp_all
      show ?thesis
        using False id len(1) facts pos by (intro reader_tailing[where cursor = "fst (last w)", OF _ _ split]) simp_all
    qed
    with x r2 len(2) show ?thesis by simp
  qed
qed


lemma snapshot_step:
  assumes laws: "redis_laws R keys ready" and ok: "ready r" "stream_is keys cfg r k es is" "tokens_in is < 2 ^ 64"
    and rd: "reader_is start k sub es is D m" "rs_at sub = Starting s"
    and step: "take_snapshot R cfg s sub r = (sub', r')"
  shows "ready r' \<and> keys r' = keys r \<and> 0 < m \<and> reader_is start k sub' es is D (m - 1)"
proof -
  have h: "s = start" "D = []" "rs_out sub = []" "3 * length es + 4 \<le> m" "rs_id sub = k"
    using rd unfolding reader_is_def by auto
  have st: "entries_of (keys r (skey cfg k)) = Some es" "decoded es = entries_for 0 is"
    using ok(2) unfolding stream_is_def by auto
  note L = redis_lawsD[OF laws]
  obtain r1 where r1: "rd_connect R r = (True, r1)" "ready r1" "keys r1 = keys r"
    using L(1)[OF ok(1)] by (auto split: prod.splits)
  obtain r2 where r2: "rd_xrange R (skey cfg k) r1 = (Some es, r2)" "ready r2" "keys r2 = keys r"
    using L(6)[OF r1(2), of "skey cfg k" es] st(1) r1(3) by metis
  have len: "length (owed (unat start) 0 is) \<le> m - 1" "0 < m"
    using length_owed[of "unat start" 0 "is"] stream_is_length[OF ok(2)] h(4) by simp_all
  let ?cur = "if es = [] then ''0'' else fst (last es)"
  let ?new = "sub\<lparr>rs_out := owed (unat start) 0 is, rs_at := (if ended_in is then Finished else Tailing ?cur)\<rparr>"
  have "(sub', r') = (?new, r2)"
    using step r1(1) r2(1) replay_decoded[OF st(2) ok(3), of start] by (simp add: take_snapshot_def h(1,5))
  moreover have "reader_is start k ?new es is D (m - 1)"
  proof (cases "ended_in is")
    case True
    then show ?thesis using h len by (simp add: reader_is_def)
  next
    case False
    then show ?thesis
      using h len st(2) by (intro reader_tailing[where a = es and b = "[]" and ia = "is" and ib = "[]" and cursor = ?cur]) auto
  qed
  ultimately show ?thesis using r2(2,3) len(2) by simp
qed

abbreviation yielded :: "signal option \<Rightarrow> signal list" where
  "yielded sig \<equiv> (case sig of None \<Rightarrow> [] | Some s \<Rightarrow> [s])"

lemma next_step:
  assumes laws: "redis_laws R keys ready" and ok: "ready (fl_redis b)" "stream_is keys cfg (fl_redis b) k es is" "tokens_in is < 2 ^ 64"
    and rd: "reader_is start k sub es is D m"
  shows "case rb_next R cfg sub b of
      None \<Rightarrow> D = owed (unat start) 0 is
    | Some (sig, sub', b') \<Rightarrow> ready (fl_redis b') \<and> keys (fl_redis b') = keys (fl_redis b) \<and> 0 < m \<and>
        reader_is start k sub' es is (D @ yielded sig) (m - 1)"
proof (cases "rs_out sub")
  case (Cons s out)
  then show ?thesis
    using reader_pop[OF rd Cons] ok(1) by (simp add: rb_next_def)
next
  case Nil
  show ?thesis
  proof (cases "rs_at sub")
    case (Starting s)
    obtain sub' r' where step: "take_snapshot R cfg s sub (fl_redis b) = (sub', r')" by force
    show ?thesis
      using snapshot_step[OF laws ok rd Starting step] by (simp add: rb_next_def Nil Starting on_redis_def step)
  next
    case (Tailing cursor)
    obtain x r' where step: "read_tail R cfg cursor sub (fl_redis b) = (x, r')" by force
    show ?thesis
      using read_tail_step[OF laws ok rd Tailing Nil step] by (cases x) (simp_all add: rb_next_def Nil Tailing on_redis_def step)
  next
    case Finished
    then show ?thesis using rd by (simp add: rb_next_def Nil reader_is_def)
  qed
qed


lemma redis_backend_simps [simp]:
  "be_next (redis_backend R cfg) = rb_next R cfg" "be_publish (redis_backend R cfg) = rb_publish R cfg"
  "be_subscribe (redis_backend R cfg) = rb_subscribe R cfg" "be_is_private (redis_backend R cfg) = rb_is_private R cfg"
  by (simp_all add: redis_backend_def)

lemma drain_Suc:
  "be_next B sub b = Some (sig, sub', b') \<Longrightarrow> fst (drain B (Suc fuel) sub b) = yielded sig @ fst (drain B fuel sub' b')"
  by (simp split: prod.splits)

lemma drain_owed:
  assumes "redis_laws R keys ready" and "ready (fl_redis b)" and "stream_is keys cfg (fl_redis b) k es is"
    and "tokens_in is < 2 ^ 64" and "reader_is start k sub es is D m"
  shows "\<exists>fuel. D @ fst (drain (redis_backend R cfg) fuel sub b) = owed (unat start) 0 is"
  using assms(2,3,5)
proof (induction m arbitrary: sub b D rule: less_induct)
  case (less m)
  note step = next_step[OF assms(1) less.prems(1,2) assms(4) less.prems(3)]
  show ?case
  proof (cases "rb_next R cfg sub b")
    case None
    then have "D @ fst (drain (redis_backend R cfg) (Suc 0) sub b) = owed (unat start) 0 is"
      using step by simp
    then show ?thesis by blast
  next
    case (Some x)
    then obtain sig sub' b' where x: "rb_next R cfg sub b = Some (sig, sub', b')" by (cases x) auto
    have h: "ready (fl_redis b')" "keys (fl_redis b') = keys (fl_redis b)" "0 < m"
      "reader_is start k sub' es is (D @ yielded sig) (m - 1)"
      using step x by simp_all
    have "stream_is keys cfg (fl_redis b') k es is" using less.prems(2) h(2) by (simp add: stream_is_def)
    with less.IH[OF _ h(1) _ h(4)] h(3) obtain fuel where
      "(D @ yielded sig) @ fst (drain (redis_backend R cfg) fuel sub' b') = owed (unat start) 0 is" by auto
    then have "D @ fst (drain (redis_backend R cfg) (Suc fuel) sub b) = owed (unat start) 0 is"
      using drain_Suc[of "redis_backend R cfg" sub b sig sub' b' fuel] x by simp
    then show ?thesis by blast
  qed
qed

lemma reader_new:
  assumes "rb_subscribe R cfg now k start b = (sub, b')"
  shows "fl_redis b' = fl_redis b \<and> reader_is start k sub es is [] (3 * length es + 4)"
  using assms by (auto simp: rb_subscribe_def reader_is_def)

section \<open>The contract of a backend\<close>

definition rb_holds ::
  "'r redis \<Rightarrow> ('r \<Rightarrow> string \<Rightarrow> redis_value option) \<Rightarrow> ('r \<Rightarrow> bool) \<Rightarrow> redis_config \<Rightarrow>
   'r fleet \<Rightarrow> string \<Rightarrow> string list \<Rightarrow> nat \<Rightarrow> bool" where
  "rb_holds R keys ready cfg b k h n \<longleftrightarrow> redis_laws R keys ready \<and> ready (fl_redis b) \<and> 0 < rc_idle_ttl_ms cfg \<and>
     stream_has keys cfg (fl_redis b) k (map Tok h) \<and> length h + n \<le> rc_max_buffer cfg \<and> length h + n < 2 ^ 63"

definition rb_absent ::
  "'r redis \<Rightarrow> ('r \<Rightarrow> string \<Rightarrow> redis_value option) \<Rightarrow> ('r \<Rightarrow> bool) \<Rightarrow> redis_config \<Rightarrow>
   'r fleet \<Rightarrow> string \<Rightarrow> nat \<Rightarrow> bool" where
  "rb_absent R keys ready cfg b k n \<longleftrightarrow> rb_holds R keys ready cfg b k [] n"

lemma tokens_in_map [simp]: "tokens_in (map Tok h) = length h"
  by (induction h) auto

lemma owed_tokens:
  "h = pre @ ds \<Longrightarrow> owed start (length pre) (map Tok ds) = map TokenSig (tokens_between h (max start (length pre)) (length h))"
proof (induction ds arbitrary: pre)
  case (Cons d ds)
  have "owed start (length (pre @ [d])) (map Tok ds)
    = map TokenSig (tokens_between h (max start (length (pre @ [d]))) (length h))"
    using Cons.prems by (intro Cons.IH) simp
  moreover have "[length pre..<length h] = length pre # [Suc (length pre)..<length h]"
    using Cons.prems by (intro upt_conv_Cons) simp
  ultimately show ?case
    using Cons.prems le_antisym
    by (auto simp: tokens_between_def token_at_def nth_append max_def not_less_eq_eq simp del: upt_Suc)
qed (simp add: tokens_between_def)

lemma rb_publish_next:
  assumes "rb_holds R keys ready cfg b k h (Suc n)" and "rb_publish R cfg now k d b = (off, b')"
  shows "off = of_nat (length h) \<and> rb_holds R keys ready cfg b' k (h @ [d]) n"
proof -
  obtain es where h: "redis_laws R keys ready" "ready (fl_redis b)" "stream_is keys cfg (fl_redis b) k es (map Tok h)"
    "length (map Tok h) < rc_max_buffer cfg" "Suc (tokens_in (map Tok h)) < 2 ^ 63" "0 < rc_idle_ttl_ms cfg"
    "length h + Suc n \<le> rc_max_buffer cfg" "length h + Suc n < 2 ^ 63"
    using assms(1) unfolding rb_holds_def stream_has_is by auto
  obtain r' e where pub: "publish_lua R (skey cfg k) (okey cfg k) (pkey cfg k) d (rc_max_buffer cfg) (rc_idle_ttl_ms cfg) (fl_redis b)
      = (Some (of_nat (tokens_in (map Tok h))), r')" "ready r'" "stream_is keys cfg r' k (es @ [e]) (map Tok h @ [Tok d])"
    using publish_stream[OF h(1-6), of d] by blast
  have "off = of_nat (length h)" "fl_redis b' = r'"
    using assms(2) pub(1) redis_lawsD(2)[OF h(1,2)] by (auto simp: rb_publish_def on_redis_def)
  then show ?thesis
    using h pub(2,3) unfolding rb_holds_def stream_has_is by auto
qed

lemma rb_replays:
  assumes "rb_holds R keys ready cfg b k h n" and "rb_subscribe R cfg now k start b = (sub, b')"
  shows "\<exists>fuel. fst (drain (redis_backend R cfg) fuel sub b') = map TokenSig (tokens_between h (unat start) (length h))"
proof -
  obtain es where h: "redis_laws R keys ready" "ready (fl_redis b)" "stream_is keys cfg (fl_redis b) k es (map Tok h)" "length h < 2 ^ 64"
    using assms(1) unfolding rb_holds_def stream_has_is by auto
  note new = reader_new[OF assms(2), of es "map Tok h"]
  have "\<exists>fuel. [] @ fst (drain (redis_backend R cfg) fuel sub b') = owed (unat start) 0 (map Tok h)"
    using new h(2-4) by (intro drain_owed[OF h(1) _ _ _ conjunct2[OF new]]) simp_all
  then show ?thesis using owed_tokens[of h "[]" h "unat start"] by simp
qed

interpretation rb: backend_contract "redis_backend R cfg" "rb_holds R keys ready cfg" "rb_absent R keys ready cfg" for R keys ready cfg
proof
  fix b k n d off b' now
  assume "rb_absent R keys ready cfg b k (Suc n)" and "be_publish (redis_backend R cfg) now k d b = (off, b')"
  then show "off = 0 \<and> rb_holds R keys ready cfg b' k [d] n"
    using rb_publish_next[of R keys ready cfg b k "[]"] by (simp add: rb_absent_def)
next
  fix b k h n d off b' now
  assume "rb_holds R keys ready cfg b k h (Suc n)" and "be_publish (redis_backend R cfg) now k d b = (off, b')"
  then show "off = of_nat (length h) \<and> rb_holds R keys ready cfg b' k (h @ [d]) n"
    using rb_publish_next by simp
next
  fix b k h n start sub b' now
  assume "rb_holds R keys ready cfg b k h n" and "be_subscribe (redis_backend R cfg) now k start b = (sub, b')"
  then show "\<exists>fuel. fst (drain (redis_backend R cfg) fuel sub b') = map TokenSig (tokens_between h (unat start) (length h))"
    using rb_replays by simp
qed

end
