(* ===== verification/Redis_Props.thy ===== *)
theory Redis_Props
  imports Redis_Fleet Api
begin

text \<open>
  A subscriber on one instance while another instance writes: whatever the order of its polls and
  the writes, it is given what the stream was given. A keyspace as a function is an instance of the
  laws of Redis.
\<close>

section \<open>Two instances\<close>

datatype fleet_step = Write item | Poll

definition write_item :: "'r redis \<Rightarrow> redis_config \<Rightarrow> nat \<Rightarrow> string \<Rightarrow> item \<Rightarrow> 'r fleet \<Rightarrow> 'r fleet" where
  "write_item R cfg now k i b =
     (case i of
        Tok d \<Rightarrow> snd (rb_publish R cfg now k d b)
      | Fin \<Rightarrow> rb_complete R cfg now k b
      | Failed m \<Rightarrow> rb_fail R cfg now k m b)"

text \<open>The writer has its own counters, \<open>w\<close>; the server is shared.\<close>

fun run_fleet ::
  "'r redis \<Rightarrow> redis_config \<Rightarrow> nat \<Rightarrow> string \<Rightarrow> local_state \<Rightarrow> fleet_step list \<Rightarrow> redis_sub \<Rightarrow> 'r fleet \<Rightarrow>
   signal list \<times> redis_sub \<times> 'r fleet" where
  "run_fleet R cfg now k w [] sub b = ([], sub, b)"
| "run_fleet R cfg now k w (Write i # steps) sub b =
     (let wb = write_item R cfg now k i \<lparr>fl_redis = fl_redis b, fl_local = w\<rparr>
      in run_fleet R cfg now k (fl_local wb) steps sub (b\<lparr>fl_redis := fl_redis wb\<rparr>))"
| "run_fleet R cfg now k w (Poll # steps) sub b =
     (case rb_next R cfg sub b of
        None \<Rightarrow> run_fleet R cfg now k w steps sub b
      | Some (sig, sub, b) \<Rightarrow>
          (case run_fleet R cfg now k w steps sub b of (sigs, r) \<Rightarrow> (yielded sig @ sigs, r)))"


fun written :: "fleet_step list \<Rightarrow> item list" where
  "written [] = []"
| "written (Write i # steps) = i # written steps"
| "written (Poll # steps) = written steps"

lemma write_item_stream:
  assumes "redis_laws R keys ready" and "ready (fl_redis b)" and "stream_is keys cfg (fl_redis b) k es is"
    and "length is < rc_max_buffer cfg" and "Suc (tokens_in is) < 2 ^ 63"
    and "0 < rc_idle_ttl_ms cfg" and "0 < rc_completed_ttl_ms cfg"
  shows "ready (fl_redis (write_item R cfg now k i b)) \<and>
    (\<exists>e. stream_is keys cfg (fl_redis (write_item R cfg now k i b)) k (es @ [e]) (is @ [i]))"
proof (cases i)
  case (Tok d)
  obtain r' e where "publish_lua R (skey cfg k) (okey cfg k) (pkey cfg k) d (rc_max_buffer cfg) (rc_idle_ttl_ms cfg) (fl_redis b)
      = (Some (of_nat (tokens_in is)), r')" "ready r'" "stream_is keys cfg r' k (es @ [e]) (is @ [Tok d])"
    using publish_stream[OF assms(1-6), of d] by blast
  then show ?thesis
    using redis_lawsD(2)[OF assms(1,2)] by (simp add: write_item_def Tok rb_publish_def on_redis_def del: split_paired_Ex) blast
next
  case Fin
  obtain e where "ready (snd (mark_terminal R cfg k (terminal_fields Fin) (fl_redis b)))"
    "stream_is keys cfg (snd (mark_terminal R cfg k (terminal_fields Fin) (fl_redis b))) k (es @ [e]) (is @ [Fin])"
    using terminal_stream[OF assms(1-3,7), of Fin] by blast
  then show ?thesis
    by (auto simp: write_item_def Fin rb_complete_def on_redis_def terminal_fields_def simp del: split_paired_Ex split: prod.splits)
next
  case (Failed m)
  obtain e where "ready (snd (mark_terminal R cfg k (terminal_fields (Failed m)) (fl_redis b)))"
    "stream_is keys cfg (snd (mark_terminal R cfg k (terminal_fields (Failed m)) (fl_redis b))) k (es @ [e]) (is @ [Failed m])"
    using terminal_stream[OF assms(1-3,7), of "Failed m"] by blast
  then show ?thesis
    by (auto simp: write_item_def Failed rb_fail_def on_redis_def terminal_fields_def simp del: split_paired_Ex split: prod.splits)
qed

lemma run_fleet_owed:
  assumes laws: "redis_laws R keys ready" and ttl: "0 < rc_idle_ttl_ms cfg" "0 < rc_completed_ttl_ms cfg"
  shows "ready (fl_redis b) \<Longrightarrow> stream_is keys cfg (fl_redis b) k es is \<Longrightarrow> reader_is start k sub es is D m \<Longrightarrow>
    unat start \<le> tokens_in is \<Longrightarrow> length (is @ written steps) \<le> rc_max_buffer cfg \<Longrightarrow>
    tokens_in (is @ written steps) < 2 ^ 63 - 1 \<Longrightarrow> run_fleet R cfg now k w steps sub b = (sigs, sub', b') \<Longrightarrow>
    \<exists>fuel. (D @ sigs) @ fst (drain (redis_backend R cfg) fuel sub' b') = owed (unat start) 0 (is @ written steps)"
proof (induction steps arbitrary: w b es "is" sub D m sigs)
  case Nil
  then show ?case using drain_owed[OF laws, of b cfg k es "is" start sub D m] by simp
next
  case (Cons s steps)
  show ?case
  proof (cases s)
    case (Write i)
    let ?wb = "write_item R cfg now k i \<lparr>fl_redis = fl_redis b, fl_local = w\<rparr>"
    have room: "length is < rc_max_buffer cfg" "Suc (tokens_in is) < 2 ^ 63"
      using Cons.prems(5,6) by (simp_all add: Write)
    obtain e where h: "ready (fl_redis ?wb)" "stream_is keys cfg (fl_redis ?wb) k (es @ [e]) (is @ [i])"
      using write_item_stream[OF laws _ _ room ttl, of "\<lparr>fl_redis = fl_redis b, fl_local = w\<rparr>" k es now i] Cons.prems(1,2)
      by (simp del: split_paired_Ex) blast
    have rd: "reader_is start k sub (es @ [e]) (is @ [i]) D (m + 3)"
      by (rule reader_written[OF Cons.prems(3,4) stream_is_length[OF Cons.prems(2)]])
    have "run_fleet R cfg now k (fl_local ?wb) steps sub (b\<lparr>fl_redis := fl_redis ?wb\<rparr>) = (sigs, sub', b')"
      using Cons.prems(7) by (simp add: Write Let_def)
    from Cons.IH[OF _ _ rd _ _ _ this] h Cons.prems(4-6) show ?thesis by (simp add: Write)
  next
    case Poll
    have lt: "tokens_in is < 2 ^ 64" using Cons.prems(6) by simp
    note step = next_step[OF laws Cons.prems(1,2) lt Cons.prems(3)]
    show ?thesis
    proof (cases "rb_next R cfg sub b")
      case None
      then show ?thesis using Cons.IH[OF Cons.prems(1-4)] Cons.prems(5-7) by (simp add: Poll)
    next
      case (Some x)
      obtain sig sub1 b1 where x: "x = (sig, sub1, b1)" by (cases x) auto
      obtain sigs1 where run: "run_fleet R cfg now k w steps sub1 b1 = (sigs1, sub', b')" "sigs = yielded sig @ sigs1"
        using Cons.prems(7) by (auto simp: Poll Some x split: prod.splits)
      have h: "ready (fl_redis b1)" "keys (fl_redis b1) = keys (fl_redis b)" "reader_is start k sub1 es is (D @ yielded sig) (m - 1)"
        using step by (simp_all add: Some x)
      have "stream_is keys cfg (fl_redis b1) k es is" using Cons.prems(2) h(2) by (simp add: stream_is_def)
      from Cons.IH[OF h(1) this h(3) Cons.prems(4) _ _ run(1)] Cons.prems(5,6) run(2) show ?thesis by (simp add: Poll)
    qed
  qed
qed

text \<open>
  C17: On a fleet, a subscriber that starts inside a stream is given exactly what the stream
  was given from there on, in order: every token once with its offset, then the end or the error.
  This holds whatever another instance writes before, between and after its polls, for a
  server that answers and a stream within its retention; enough further polls deliver the rest.
\<close>

theorem fleet_seam_is_exact:
  assumes "redis_laws R keys ready" and "0 < rc_idle_ttl_ms cfg" and "0 < rc_completed_ttl_ms cfg"
    and "ready (fl_redis b)" and "stream_has keys cfg (fl_redis b) k is" and "unat start \<le> tokens_in is"
    and "length (is @ written steps) \<le> rc_max_buffer cfg" and "tokens_in (is @ written steps) < 2 ^ 63 - 1"
    and "rb_subscribe R cfg now k start b = (sub, b1)"
    and "run_fleet R cfg now k w steps sub b1 = (sigs, sub2, b2)"
  shows "\<exists>fuel. sigs @ fst (drain (redis_backend R cfg) fuel sub2 b2) = owed (unat start) 0 (is @ written steps)"
proof -
  obtain es where es: "stream_is keys cfg (fl_redis b) k es is" using assms(5) unfolding stream_has_is by blast
  note new = reader_new[OF assms(9), of es "is"]
  show ?thesis
    using run_fleet_owed[OF assms(1-3) _ _ conjunct2[OF new] assms(6-8,10)] assms(4) es new by simp
qed


section \<open>Reading a private stream\<close>

text \<open>
  While Redis does not answer, a private stream is open: the error of EXISTS reads as not
  private, and a subscription without a ticket is accepted, which with a working Redis is
  answered 401. The read of the stream uses another connection and may well succeed.
\<close>

theorem private_stream_opens_on_error:
  assumes "valid_id i" and "authed (ac_subscribe_token (ai_auth A)) h" and "sp_ticket q = None"
    and "\<not> limit_reached (redis_backend R cfg) (ns_key (sp_ns q) i) app"
  shows "(rd_exists R (pkey cfg (ns_key (sp_ns q) i)) (fl_redis (ap_backend app)) = None \<longrightarrow>
      (\<exists>c app'. h_subscribe (redis_backend R cfg) A now secs i q h last_id app = (Inr c, app'))) \<and>
    (rd_exists R (pkey cfg (ns_key (sp_ns q) i)) (fl_redis (ap_backend app)) = Some True \<longrightarrow>
      (\<exists>r. h_subscribe (redis_backend R cfg) A now secs i q h last_id app = (Inl r, app) \<and> rs_status r = 401))"
  using assms by (auto simp: h_subscribe_def subscribe_key_def Let_def rb_is_private_def respond_def split: prod.splits)

section \<open>A keyspace\<close>

type_synonym keyspace = "string \<Rightarrow> redis_value option"

definition fresh_id :: "entry list \<Rightarrow> string" where
  "fresh_id es = replicate (Suc (fold (\<lambda>e n. max (length (fst e)) n) es 0)) (CHR ''1'')"

definition after_cursor :: "string \<Rightarrow> entry list \<Rightarrow> entry list" where
  "after_cursor c es = (if c \<in> fst ` set es then tl (dropWhile (\<lambda>e. fst e \<noteq> c) es) else es)"

definition keyspace_redis :: "keyspace redis" where
  "keyspace_redis =
     \<lparr>rd_connect = (\<lambda>r. (True, r)), rd_script = (\<lambda>f r. f r),
      rd_incr = (\<lambda>k r. case counter_of (r k) of
         None \<Rightarrow> (None, r) | Some n \<Rightarrow> (Some (of_nat (Suc n)), r(k \<mapsto> CounterVal (Suc n)))),
      rd_xadd = (\<lambda>k limit fs r. case entries_of (r k) of
         None \<Rightarrow> (None, r)
       | Some es \<Rightarrow>
           (let all = es @ [(fresh_id es, fs)];
                kept = (case limit of None \<Rightarrow> all | Some n \<Rightarrow> drop (length all - n) all)
            in (Some (fresh_id es), r(k \<mapsto> StreamVal kept)))),
      rd_pexpire = (\<lambda>k ttl r. (Some (r k \<noteq> None), r)),
      rd_del = (\<lambda>ks r. (Some (length (filter (\<lambda>k. r k \<noteq> None) ks)), \<lambda>k. if k \<in> set ks then None else r k)),
      rd_set_px = (\<lambda>k v ttl r. (Some (), r(k \<mapsto> TextVal v))),
      rd_exists = (\<lambda>k r. Some (r k \<noteq> None)),
      rd_xrange = (\<lambda>k r. (entries_of (r k), r)),
      rd_xread = (\<lambda>k c n block r. (map_option (\<lambda>es. take n (after_cursor c es)) (entries_of (r k)), r))\<rparr>"

definition keyspace_ready :: "keyspace \<Rightarrow> bool" where
  "keyspace_ready r \<longleftrightarrow> (\<forall>k es. entries_of (r k) = Some es \<longrightarrow> ''0'' \<notin> fst ` set es)"

lemma fold_max_ge: "m \<le> fold (\<lambda>e n. max (length (fst e)) n) es (m :: nat)"
  by (induction es arbitrary: m) (auto intro: order_trans[OF max.cobounded2])

lemma fold_max_member: "e \<in> set es \<Longrightarrow> length (fst e) \<le> fold (\<lambda>e n. max (length (fst e)) n) es m"
proof (induction es arbitrary: m)
  case (Cons x es)
  then show ?case using fold_max_ge[of "max (length (fst x)) m" es] by auto
qed simp

lemma fresh_id_new: "fresh_id es \<notin> fst ` set es" and fresh_id_nonzero: "fresh_id es \<noteq> ''0''"
proof
  assume "fresh_id es \<in> fst ` set es"
  then obtain e where "e \<in> set es" "fst e = fresh_id es" by auto
  then show False using fold_max_member[of e es 0] by (simp add: fresh_id_def)
qed (simp add: fresh_id_def)

lemma after_cursor_split:
  assumes "distinct (map fst (a @ b))" and "''0'' \<notin> fst ` set (a @ b)"
    and "a = [] \<and> c = ''0'' \<or> a \<noteq> [] \<and> c = fst (last a)"
  shows "after_cursor c (a @ b) = b"
proof (cases "a = []")
  case False
  then obtain a' e where a: "a = a' @ [e]" by (metis append_butlast_last_id)
  have "dropWhile (\<lambda>x. fst x \<noteq> c) (a' @ e # b) = e # b"
    using assms(1,3) by (subst dropWhile_append2) (auto simp: a image_iff rev_image_eqI)
  then show ?thesis using assms(3) by (simp add: after_cursor_def a)
qed (use assms in \<open>auto simp: after_cursor_def\<close>)

lemma keyspace_laws: "redis_laws keyspace_redis (\<lambda>r. r) keyspace_ready"
  unfolding redis_laws_def
proof (intro allI impI)
  fix r assume r: "keyspace_ready r"
  have upd: "keyspace_ready (r(k \<mapsto> v))" if "\<And>es. entries_of (Some v) = Some es \<Longrightarrow> ''0'' \<notin> fst ` set es" for k v
    using r that by (auto simp: keyspace_ready_def)
  have cut: "drop (Suc (length es) - n) (es @ [x]) = es @ [x]" if "length es < n" for es :: "entry list" and x n
    using that by simp
  have zero: "''0'' \<notin> fst ` set es" if "entries_of (r k) = Some es" for k es
    using r that by (auto simp: keyspace_ready_def)
  have read: "rd_xread keyspace_redis k c n block r = (Some (take n b), r)"
    if "entries_of (r k) = Some (a @ b)" "distinct (map fst (a @ b))" "a = [] \<and> c = ''0'' \<or> a \<noteq> [] \<and> c = fst (last a)"
    for k c n block a b
    using that(1) after_cursor_split[OF that(2) zero[OF that(1)] that(3)] by (simp add: keyspace_redis_def)
  have add: "keyspace_ready (r(k \<mapsto> StreamVal (es @ [(fresh_id es, fs)])))" if "entries_of (r k) = Some es" for k es fs
    using zero[OF that] fresh_id_nonzero[of es] by (intro upd) auto
  have incr: "keyspace_ready (r(k \<mapsto> CounterVal n))" for k n
    by (rule upd) (simp add: entries_of_def)
  have xadd: "case rd_xadd keyspace_redis k limit fs r of (x, r') \<Rightarrow> keyspace_ready r' \<and>
      (\<exists>i. x = Some i \<and> i \<notin> fst ` set es \<and> i \<noteq> ''0'' \<and> r' = r(k \<mapsto> StreamVal (es @ [(i, fs)])))"
    if "entries_of (r k) = Some es" "\<forall>n. limit = Some n \<longrightarrow> length es < n" for k limit fs es
    using that add[OF that(1), of fs] fresh_id_new[of es] fresh_id_nonzero[of es] cut[of es _ "(fresh_id es, fs)"]
    by (cases limit) (simp_all add: keyspace_redis_def Let_def)
  show "(case rd_connect keyspace_redis r of (ok, r') \<Rightarrow> ok \<and> keyspace_ready r' \<and> r' = r) \<and>
     (\<forall>f. rd_script keyspace_redis f r = f r) \<and>
     (\<forall>k n. counter_of (r k) = Some n \<longrightarrow> Suc n < 2 ^ 63 \<longrightarrow>
        (case rd_incr keyspace_redis k r of (x, r') \<Rightarrow>
           x = Some (of_nat (Suc n)) \<and> keyspace_ready r' \<and> r' = r(k \<mapsto> CounterVal (Suc n)))) \<and>
     (\<forall>k limit fs es. entries_of (r k) = Some es \<longrightarrow> (\<forall>n. limit = Some n \<longrightarrow> length es < n) \<longrightarrow>
        (case rd_xadd keyspace_redis k limit fs r of (x, r') \<Rightarrow>
           keyspace_ready r' \<and> (\<exists>i. x = Some i \<and> i \<notin> fst ` set es \<and> i \<noteq> ''0'' \<and>
             r' = r(k \<mapsto> StreamVal (es @ [(i, fs)]))))) \<and>
     (\<forall>k ttl. 0 < ttl \<longrightarrow>
        (case rd_pexpire keyspace_redis k ttl r of (x, r') \<Rightarrow> x \<noteq> None \<and> keyspace_ready r' \<and> r' = r)) \<and>
     (\<forall>k es. entries_of (r k) = Some es \<longrightarrow>
        (case rd_xrange keyspace_redis k r of (x, r') \<Rightarrow> x = Some es \<and> keyspace_ready r' \<and> r' = r)) \<and>
     (\<forall>k cursor count block a b. entries_of (r k) = Some (a @ b) \<longrightarrow> distinct (map fst (a @ b)) \<longrightarrow>
        (a = [] \<and> cursor = ''0'' \<or> a \<noteq> [] \<and> cursor = fst (last a)) \<longrightarrow>
        (case rd_xread keyspace_redis k cursor count block r of (x, r') \<Rightarrow>
           x = Some (take count b) \<and> keyspace_ready r' \<and> r' = r))"
  proof (intro conjI allI impI)
    show "case rd_xadd keyspace_redis k limit fs r of (x, r') \<Rightarrow> keyspace_ready r' \<and>
      (\<exists>i. x = Some i \<and> i \<notin> fst ` set es \<and> i \<noteq> ''0'' \<and> r' = r(k \<mapsto> StreamVal (es @ [(i, fs)])))"
      if "entries_of (r k) = Some es" "\<forall>n. limit = Some n \<longrightarrow> length es < n" for k limit fs es
      by (rule xadd[OF that])
    show "case rd_xread keyspace_redis k c n block r of (x, r') \<Rightarrow> x = Some (take n b) \<and> keyspace_ready r' \<and> r' = r"
      if "entries_of (r k) = Some (a @ b)" "distinct (map fst (a @ b))" "a = [] \<and> c = ''0'' \<or> a \<noteq> [] \<and> c = fst (last a)"
      for k c n block a b
      using read[OF that] r by simp
  qed (use r incr in \<open>simp_all add: keyspace_redis_def\<close>)
qed

definition empty_fleet :: "keyspace fleet" where
  "empty_fleet = \<lparr>fl_redis = (\<lambda>_. None), fl_local = \<lparr>lo_subs = [], lo_published = 0, lo_gaps = 0\<rparr>\<rparr>"

definition sample_subscription :: "redis_sub \<times> keyspace fleet" where
  "sample_subscription = rb_subscribe keyspace_redis default_redis_config 0 ''k'' 0 empty_fleet"

definition sample_run :: "signal list \<times> redis_sub \<times> keyspace fleet" where
  "sample_run = run_fleet keyspace_redis default_redis_config 0 ''k'' (fl_local empty_fleet)
     [Poll, Write (Tok ''a''), Poll, Write (Tok ''b''), Write Fin] (fst sample_subscription) (snd sample_subscription)"

theorem fleet_seam_is_exact_witness:
  "\<exists>fuel. fst sample_run
      @ fst (drain (redis_backend keyspace_redis default_redis_config) fuel (fst (snd sample_run)) (snd (snd sample_run)))
    = [TokenSig \<lparr>tk_offset = 0, tk_data = ''a''\<rparr>, TokenSig \<lparr>tk_offset = 1, tk_data = ''b''\<rparr>, Done]"
proof -
  have "stream_has (\<lambda>r. r) default_redis_config (fl_redis empty_fleet) ''k'' []"
    by (simp add: stream_has_def empty_fleet_def entries_of_def counter_of_def)
  moreover have "keyspace_ready (fl_redis empty_fleet)"
    by (simp add: keyspace_ready_def empty_fleet_def entries_of_def)
  ultimately show ?thesis
    using fleet_seam_is_exact[OF keyspace_laws, of default_redis_config empty_fleet "''k''" "[]" 0
        "[Poll, Write (Tok ''a''), Poll, Write (Tok ''b''), Write Fin]" 0
        "fst sample_subscription" "snd sample_subscription" "fl_local empty_fleet"
        "fst sample_run" "fst (snd sample_run)" "snd (snd sample_run)"]
    by (simp add: default_redis_config_def sample_run_def sample_subscription_def)
qed


text \<open>The server that answers every command but EXISTS.\<close>

definition sample_app :: "keyspace fleet app" where
  "sample_app = \<lparr>ap_backend = empty_fleet\<lparr>fl_redis := [pkey default_redis_config ''k'' \<mapsto> TextVal ''1'']\<rparr>,
     ap_cache = Map.empty, ap_events = events_disabled\<rparr>"

definition sample_api :: api where
  "sample_api = \<lparr>ai_auth = \<lparr>ac_publish_token = None, ac_subscribe_token = None, ac_verify_url = None, ac_verify_secret = None\<rparr>,
     ai_control = (\<lambda>_ _ _. NoAnswer),
     ai_tickets = \<lparr>tk_decode = (\<lambda>_. None), tk_verify = (\<lambda>_ _ _. False), tk_json = (\<lambda>_. None)\<rparr>\<rparr>"

definition no_params :: sub_params where
  "no_params = \<lparr>sp_from = None, sp_ns = None, sp_ticket = None\<rparr>"

theorem private_stream_opens_on_error_witness:
  "\<forall>h. (\<exists>r. h_subscribe (redis_backend keyspace_redis default_redis_config) sample_api 0 0 ''k'' no_params h None sample_app
        = (Inl r, sample_app) \<and> rs_status r = 401) \<and>
    (\<exists>c app'. h_subscribe (redis_backend (keyspace_redis\<lparr>rd_exists := \<lambda>_ _. None\<rparr>) default_redis_config)
        sample_api 0 0 ''k'' no_params h None sample_app = (Inr c, app'))"
proof
  fix h
  have pre: "valid_id ''k''" "authed (ac_subscribe_token (ai_auth sample_api)) h" "sp_ticket no_params = None"
    "\<And>R. \<not> limit_reached (redis_backend R default_redis_config) (ns_key (sp_ns no_params) ''k'') sample_app"
    by (simp_all add: valid_id_def id_char_def authed_def sample_api_def no_params_def limit_reached_def redis_backend_def
        default_redis_config_def sample_app_def empty_fleet_def lo_count_def)
  note P = private_stream_opens_on_error[OF pre(1-3) pre(4), where now = 0 and secs = 0 and last_id = None]
  show "(\<exists>r. h_subscribe (redis_backend keyspace_redis default_redis_config) sample_api 0 0 ''k'' no_params h None sample_app
        = (Inl r, sample_app) \<and> rs_status r = 401) \<and>
    (\<exists>c app'. h_subscribe (redis_backend (keyspace_redis\<lparr>rd_exists := \<lambda>_ _. None\<rparr>) default_redis_config)
        sample_api 0 0 ''k'' no_params h None sample_app = (Inr c, app'))"
    using P[of keyspace_redis] P[of "keyspace_redis\<lparr>rd_exists := \<lambda>_ _. None\<rparr>"]
    by (simp add: keyspace_redis_def sample_app_def no_params_def ns_key_def)
qed

end
