(* ===== verification/Metrics_Text.thy ===== *)
theory Metrics_Text
  imports Api Utf8
begin

text \<open>
  The text of \<open>/metrics\<close>: \<open>render\<close> of \<open>crates/tideline-server/src/tlr/metrics.rs\<close> and the handler of
  \<open>api.rs\<close>. An age is written from a double with three decimals, which is exact for the ages
  below 2^50 milliseconds, some 35000 years.
\<close>

definition help_lines :: "string \<Rightarrow> string \<Rightarrow> string \<Rightarrow> string" where
  "help_lines name kind help =
     ''# HELP '' @ name @ '' '' @ help @ [LF] @ ''# TYPE '' @ name @ '' '' @ kind @ [LF]"

definition sample_line :: "string \<Rightarrow> string \<Rightarrow> string" where
  "sample_line name v = name @ '' '' @ v @ [LF]"

definition metric :: "string \<Rightarrow> string \<Rightarrow> string \<Rightarrow> u64 \<Rightarrow> string" where
  "metric name kind help v = help_lines name kind help @ sample_line name (dec v)"

definition three_digits :: "nat \<Rightarrow> string" where
  "three_digits n = (if n < 10 then ''00'' else if n < 100 then ''0'' else '''') @ dec_nat n"

text \<open>The age of the newest checkpoint; \<open>now\<close> is None when the clock is before 1970.\<close>

definition age_seconds :: "u64 \<Rightarrow> u64 option \<Rightarrow> string" where
  "age_seconds last_ms now =
     (if last_ms = 0 then ''-1.000''
      else
        (let now = (case now of None \<Rightarrow> last_ms | Some t \<Rightarrow> t);
             age = (if last_ms \<le> now then unat (now - last_ms) else 0)
         in dec_nat (age div 1000) @ ''.'' @ three_digits (age mod 1000)))"

definition render :: "u64 option \<Rightarrow> tlr_metrics \<Rightarrow> string" where
  "render now m =
     metric ''tideline_runs_created_total'' ''counter'' ''Runs opened since start'' (m_runs_created m) @
     metric ''tideline_runs_sealed_total'' ''counter'' ''Runs sealed since start'' (m_runs_sealed m) @
     metric ''tideline_events_appended_total'' ''counter'' ''Record events appended since start'' (m_events_appended m) @
     metric ''tideline_append_failures_total'' ''counter'' ''Record appends that failed'' (m_append_failures m) @
     metric ''tideline_gates_opened_total'' ''counter'' ''Approval gates opened since start'' (m_gates_opened m) @
     help_lines ''tideline_gates_resolved_total'' ''counter'' ''Approval gates resolved, by decision'' @
     sample_line ''tideline_gates_resolved_total{decision=\"approved\"}'' (dec (m_gates_approved m)) @
     sample_line ''tideline_gates_resolved_total{decision=\"rejected\"}'' (dec (m_gates_rejected m)) @
     sample_line ''tideline_gates_resolved_total{decision=\"expired\"}'' (dec (m_gates_expired m)) @
     metric ''tideline_redactions_total'' ''counter'' ''Redactions applied since start'' (m_redactions m) @
     metric ''tideline_checkpoints_written_total'' ''counter'' ''Checkpoints signed since start'' (m_checkpoints_written m) @
     help_lines ''tideline_checkpoint_age_seconds'' ''gauge'' ''Seconds since the last checkpoint (-1 if none)'' @
     sample_line ''tideline_checkpoint_age_seconds'' (age_seconds (m_last_checkpoint_ms m) now)"

definition stream_metrics :: "metrics_snapshot \<Rightarrow> string" where
  "stream_metrics m =
     metric ''tideline_active_streams'' ''gauge'' ''Currently retained streams'' (ms_active_streams m) @
     metric ''tideline_active_subscribers'' ''gauge'' ''Currently connected subscribers'' (ms_active_subscribers m) @
     metric ''tideline_buffered_tokens'' ''gauge'' ''Retained tokens across all streams'' (ms_buffered_tokens m) @
     metric ''tideline_streams_created_total'' ''counter'' ''Streams created since start'' (mm_streams_created (ms_metrics m)) @
     metric ''tideline_tokens_published_total'' ''counter'' ''Tokens published since start'' (mm_tokens_published (ms_metrics m)) @
     metric ''tideline_gaps_served_total'' ''counter'' ''Gap signals served since start'' (mm_gaps_served (ms_metrics m)) @
     metric ''tideline_streams_reaped_total'' ''counter'' ''Streams evicted/reaped since start'' (mm_reaped (ms_metrics m))"

definition h_metrics :: "('b, 'sub) backend \<Rightarrow> u64 option \<Rightarrow> tlr_metrics \<Rightarrow> 'b app \<Rightarrow> string" where
  "h_metrics B now m app = stream_metrics (be_metrics B (ap_backend app)) @ render now m"

section \<open>Reading the text\<close>

text \<open>What a scraper takes from a line: the rest after the name and a blank.\<close>

fun sample_in :: "string \<Rightarrow> string list \<Rightarrow> string option" where
  "sample_in name [] = None"
| "sample_in name (l # ls) =
     (if prefix (name @ '' '') l then Some (drop (length name + 1) l) else sample_in name ls)"

definition scrape :: "string \<Rightarrow> string \<Rightarrow> string option" where
  "scrape name txt = sample_in name (str_lines txt)"


definition counter_in :: "string \<Rightarrow> string \<Rightarrow> u64 option" where
  "counter_in txt name = Option.bind (scrape name txt) parse_u64"

text \<open>The text is lines, each ended; a line is found by its name.\<close>

definition plain_line :: "string \<Rightarrow> bool" where
  "plain_line l \<longleftrightarrow> LF \<notin> set l \<and> CR \<notin> set l"

fun ended :: "string list \<Rightarrow> string" where
  "ended [] = []"
| "ended (l # ls) = l @ [LF] @ ended ls"

lemma str_lines_ended: "list_all plain_line ls \<Longrightarrow> str_lines (ended ls) = ls"
proof (induction ls)
  case Nil
  then show ?case by (subst str_lines.simps) simp
next
  case (Cons l ls)
  have "strip_cr l = l"
    using Cons.prems by (auto simp: strip_cr_def plain_line_def dest: last_in_set)
  then show ?case
    using Cons str_lines_first[of l "ended ls"] by (simp add: plain_line_def)
qed

lemma ended_append [simp]: "ended (a @ b) = ended a @ ended b"
  by (induction a) auto

definition help_list :: "string \<Rightarrow> string \<Rightarrow> string \<Rightarrow> string list" where
  "help_list name kind help = [''# HELP '' @ name @ '' '' @ help, ''# TYPE '' @ name @ '' '' @ kind]"

definition metric_list :: "string \<Rightarrow> string \<Rightarrow> string \<Rightarrow> u64 \<Rightarrow> string list" where
  "metric_list name kind help v = help_list name kind help @ [name @ '' '' @ dec v]"

lemma help_lines_ended: "help_lines name kind help = ended (help_list name kind help)"
  by (simp add: help_lines_def help_list_def)

lemma sample_line_ended: "sample_line name v = ended [name @ '' '' @ v]"
  by (simp add: sample_line_def)

lemma metric_ended: "metric name kind help v = ended (metric_list name kind help v)"
  by (simp add: metric_def metric_list_def help_lines_ended sample_line_ended)


definition render_list :: "u64 option \<Rightarrow> tlr_metrics \<Rightarrow> string list" where
  "render_list now m =
     metric_list ''tideline_runs_created_total'' ''counter'' ''Runs opened since start'' (m_runs_created m) @
     metric_list ''tideline_runs_sealed_total'' ''counter'' ''Runs sealed since start'' (m_runs_sealed m) @
     metric_list ''tideline_events_appended_total'' ''counter'' ''Record events appended since start'' (m_events_appended m) @
     metric_list ''tideline_append_failures_total'' ''counter'' ''Record appends that failed'' (m_append_failures m) @
     metric_list ''tideline_gates_opened_total'' ''counter'' ''Approval gates opened since start'' (m_gates_opened m) @
     help_list ''tideline_gates_resolved_total'' ''counter'' ''Approval gates resolved, by decision'' @
     [''tideline_gates_resolved_total{decision=\"approved\"} '' @ dec (m_gates_approved m),
      ''tideline_gates_resolved_total{decision=\"rejected\"} '' @ dec (m_gates_rejected m),
      ''tideline_gates_resolved_total{decision=\"expired\"} '' @ dec (m_gates_expired m)] @
     metric_list ''tideline_redactions_total'' ''counter'' ''Redactions applied since start'' (m_redactions m) @
     metric_list ''tideline_checkpoints_written_total'' ''counter'' ''Checkpoints signed since start'' (m_checkpoints_written m) @
     help_list ''tideline_checkpoint_age_seconds'' ''gauge'' ''Seconds since the last checkpoint (-1 if none)'' @
     [''tideline_checkpoint_age_seconds '' @ age_seconds (m_last_checkpoint_ms m) now]"

lemma render_ended: "render now m = ended (render_list now m)"
  by (simp add: render_def render_list_def metric_ended help_lines_ended sample_line_ended)

lemma dec_is_plain: "LF \<notin> set (dec_nat n)" "CR \<notin> set (dec_nat n)"
  using dec_nat_digits[of LF n] dec_nat_digits[of CR n] by (auto simp: char_digit_def LF_def CR_def)

lemma age_plain: "LF \<notin> set (age_seconds l now)" "CR \<notin> set (age_seconds l now)"
  by (auto simp: age_seconds_def three_digits_def Let_def dec_is_plain LF_def CR_def dest: dec_is_plain[unfolded LF_def CR_def, THEN notE])

lemma render_plain: "list_all plain_line (render_list now m)"
  by (simp add: render_list_def metric_list_def help_list_def plain_line_def dec_def dec_is_plain age_plain)
    (simp add: LF_def CR_def)


definition stream_list :: "metrics_snapshot \<Rightarrow> string list" where
  "stream_list m =
     metric_list ''tideline_active_streams'' ''gauge'' ''Currently retained streams'' (ms_active_streams m) @
     metric_list ''tideline_active_subscribers'' ''gauge'' ''Currently connected subscribers'' (ms_active_subscribers m) @
     metric_list ''tideline_buffered_tokens'' ''gauge'' ''Retained tokens across all streams'' (ms_buffered_tokens m) @
     metric_list ''tideline_streams_created_total'' ''counter'' ''Streams created since start'' (mm_streams_created (ms_metrics m)) @
     metric_list ''tideline_tokens_published_total'' ''counter'' ''Tokens published since start'' (mm_tokens_published (ms_metrics m)) @
     metric_list ''tideline_gaps_served_total'' ''counter'' ''Gap signals served since start'' (mm_gaps_served (ms_metrics m)) @
     metric_list ''tideline_streams_reaped_total'' ''counter'' ''Streams evicted/reaped since start'' (mm_reaped (ms_metrics m))"

lemma stream_ended: "stream_metrics m = ended (stream_list m)"
  by (simp add: stream_metrics_def stream_list_def metric_ended)

lemma stream_plain: "list_all plain_line (stream_list m)"
  by (simp add: stream_list_def metric_list_def help_list_def plain_line_def dec_def dec_is_plain)
    (simp add: LF_def CR_def)

lemma sample_in_append:
  "sample_in n (a @ b) = (case sample_in n a of None \<Rightarrow> sample_in n b | Some v \<Rightarrow> Some v)"
  by (induction a) auto

lemma scrape_metrics:
  "scrape n (h_metrics B now m app) = sample_in n (stream_list (be_metrics B (ap_backend app)) @ render_list now m)"
proof -
  have "h_metrics B now m app = ended (stream_list (be_metrics B (ap_backend app)) @ render_list now m)"
    by (simp add: h_metrics_def stream_ended render_ended)
  then show ?thesis using str_lines_ended[of "stream_list _ @ render_list now m"] stream_plain render_plain
    by (simp add: scrape_def)
qed

text \<open>
  A scrape of /metrics reads the record counters. Whatever the counters, the clock and the
  backend, each record metric is found under its name in the text and parses to its counter,
  and the age of the newest checkpoint is found as it was written.
\<close>

theorem metrics_can_be_read:
  "counter_in (h_metrics B now m app) ''tideline_runs_created_total'' = Some (m_runs_created m) \<and>
    counter_in (h_metrics B now m app) ''tideline_runs_sealed_total'' = Some (m_runs_sealed m) \<and>
    counter_in (h_metrics B now m app) ''tideline_events_appended_total'' = Some (m_events_appended m) \<and>
    counter_in (h_metrics B now m app) ''tideline_append_failures_total'' = Some (m_append_failures m) \<and>
    counter_in (h_metrics B now m app) ''tideline_gates_opened_total'' = Some (m_gates_opened m) \<and>
    counter_in (h_metrics B now m app) ''tideline_gates_resolved_total{decision=\"approved\"}'' = Some (m_gates_approved m) \<and>
    counter_in (h_metrics B now m app) ''tideline_gates_resolved_total{decision=\"rejected\"}'' = Some (m_gates_rejected m) \<and>
    counter_in (h_metrics B now m app) ''tideline_gates_resolved_total{decision=\"expired\"}'' = Some (m_gates_expired m) \<and>
    counter_in (h_metrics B now m app) ''tideline_redactions_total'' = Some (m_redactions m) \<and>
    counter_in (h_metrics B now m app) ''tideline_checkpoints_written_total'' = Some (m_checkpoints_written m) \<and>
    scrape ''tideline_checkpoint_age_seconds'' (h_metrics B now m app) = Some (age_seconds (m_last_checkpoint_ms m) now)"
  unfolding counter_in_def scrape_metrics stream_list_def render_list_def metric_list_def help_list_def
  by (intro conjI; simp)

end
