(* ===== verification/Sdk.thy ===== *)
theory Sdk
  imports Watch Server_Props
begin

text \<open>
  The Rust client, \<open>crates/tideline-sdk/src/client.rs\<close>, \<open>error.rs\<close>, \<open>event.rs\<close> and \<open>run.rs\<close>: sending a
  request and reading its reply, the builders, paging through a record and waiting for a gate.
  A request is sent through a parameter; in the properties it is the modelled server. Bodies
  pass as the values they encode, so what is derived by the serialiser is not modelled.
\<close>

datatype sdk_error =
  Transport string
| Status nat string
| Protocol string
| ChainFault chain_error

definition is_conflict :: "sdk_error \<Rightarrow> bool" where
  "is_conflict e \<longleftrightarrow> (case e of Status code body \<Rightarrow> code = 409 | _ \<Rightarrow> False)"

definition is_not_found :: "sdk_error \<Rightarrow> bool" where
  "is_not_found e \<longleftrightarrow> (case e of Status code body \<Rightarrow> code = 404 | _ \<Rightarrow> False)"

text \<open>How a request ended: it never completed, or a response came back.\<close>

datatype http_reply = NoReply string | Reply response

text \<open>The text of a body that is not what was asked for; refusals carry text.\<close>

definition body_text :: "body \<Rightarrow> string" where
  "body_text b = (case b of Text s \<Rightarrow> s | _ \<Rightarrow> '''')"

definition sdk_send :: "(body \<Rightarrow> 'a option) \<Rightarrow> http_reply \<Rightarrow> sdk_error + 'a" where
  "sdk_send decode r =
     (case r of
        NoReply e \<Rightarrow> Inl (Transport e)
      | Reply res \<Rightarrow>
          if \<not> (200 \<le> rs_status res \<and> rs_status res < 300)
          then Inl (Status (rs_status res) (body_text (rs_body res)))
          else (case decode (rs_body res) of
                  None \<Rightarrow> Inl (Protocol ''unreadable response'')
                | Some v \<Rightarrow> Inr v))"

section \<open>Building events\<close>

definition event_new :: "event_kind \<Rightarrow> new_event" where
  "event_new kind = \<lparr>ne_kind = kind, ne_role = None, ne_name = None, ne_content = None, ne_metadata = None\<rparr>"

definition with_name :: "string \<Rightarrow> new_event \<Rightarrow> new_event" where
  "with_name s e = e\<lparr>ne_name := Some s\<rparr>"

definition with_role :: "string \<Rightarrow> new_event \<Rightarrow> new_event" where
  "with_role s e = e\<lparr>ne_role := Some s\<rparr>"

definition with_content :: "string \<Rightarrow> new_event \<Rightarrow> new_event" where
  "with_content s e = e\<lparr>ne_content := Some s\<rparr>"

definition with_metadata :: "json_lib \<Rightarrow> json \<Rightarrow> new_event \<Rightarrow> new_event" where
  "with_metadata J v e = e\<lparr>ne_metadata := raw_value J (json_text J v)\<rparr>"

definition event_message :: new_event where
  "event_message = event_new Message"

definition event_model_call :: "string \<Rightarrow> new_event" where
  "event_model_call s = with_name s (event_new ModelCall)"

definition event_tool_call :: "string \<Rightarrow> new_event" where
  "event_tool_call s = with_name s (event_new ToolCall)"

definition event_decision :: "string \<Rightarrow> new_event" where
  "event_decision s = with_name s (event_new Decision)"

definition start_run :: "string \<Rightarrow> agent \<Rightarrow> new_run" where
  "start_run run_id agent = \<lparr>nr_run_id = run_id, nr_agent = agent, nr_subject_ref = None, nr_labels = []\<rparr>"

definition with_subject_ref :: "string \<Rightarrow> new_run \<Rightarrow> new_run" where
  "with_subject_ref r b = b\<lparr>nr_subject_ref := Some r\<rparr>"

definition with_label :: "string \<Rightarrow> string \<Rightarrow> new_run \<Rightarrow> new_run" where
  "with_label k v b = b\<lparr>nr_labels := bt_insert k v (nr_labels b)\<rparr>"

section \<open>Paging\<close>

text \<open>
  \<open>events_paged\<close>: the loop, with fuel. \<open>fetch\<close> is \<open>events_from\<close>, a request whose effect is on
  the state behind it.
\<close>

fun paged_from ::
  "nat \<Rightarrow> (u64 \<Rightarrow> u32 \<Rightarrow> 's \<Rightarrow> (sdk_error + run_event list) \<times> 's) \<Rightarrow> u32 \<Rightarrow> u64 \<Rightarrow> run_event list \<Rightarrow> 's
   \<Rightarrow> ((sdk_error + run_event list) \<times> 's) option" where
  "paged_from 0 fetch page start all s = None"
| "paged_from (Suc fuel) fetch page start all s =
     (case fetch start page s of
        (Inl e, s) \<Rightarrow> Some (Inl e, s)
      | (Inr batch, s) \<Rightarrow>
          (let short = length batch < unat page;
               start = (if batch = [] then start else ev_seq (last batch) + 1);
               all = all @ batch
           in if short then Some (Inr all, s) else paged_from fuel fetch page start all s))"

definition events_paged ::
  "nat \<Rightarrow> (u64 \<Rightarrow> u32 \<Rightarrow> 's \<Rightarrow> (sdk_error + run_event list) \<times> 's) \<Rightarrow> u32 \<Rightarrow> 's
   \<Rightarrow> ((sdk_error + run_event list) \<times> 's) option" where
  "events_paged fuel fetch page s = paged_from fuel fetch page 0 [] s"

definition verified_events ::
  "nat \<Rightarrow> sha \<Rightarrow> (u64 \<Rightarrow> u32 \<Rightarrow> 's \<Rightarrow> (sdk_error + run_event list) \<times> 's) \<Rightarrow> 's
   \<Rightarrow> ((sdk_error + run_event list) \<times> 's) option" where
  "verified_events fuel sha fetch s =
     (case events_paged fuel fetch 1000 s of
        None \<Rightarrow> None
      | Some (Inl e, s) \<Rightarrow> Some (Inl e, s)
      | Some (Inr events, s) \<Rightarrow>
          Some (case verify_chain sha events of Inl e \<Rightarrow> Inl (ChainFault e) | Inr _ \<Rightarrow> Inr events, s))"

text \<open>\<open>events_from\<close> against the server.\<close>

definition events_body :: "body \<Rightarrow> run_event list option" where
  "events_body b = (case b of EventsBody evs \<Rightarrow> Some evs | _ \<Rightarrow> None)"

definition events_from ::
  "'s tlr_state \<Rightarrow> string \<Rightarrow> headers \<Rightarrow> u64 \<Rightarrow> u32 \<Rightarrow> 's server \<Rightarrow> (sdk_error + run_event list) \<times> 's server" where
  "events_from st i h start limit sv =
     (case h_list_events st i \<lparr>eq_from = Some start, eq_limit = Some limit\<rparr> h sv of
        (res, sv) \<Rightarrow> (sdk_send events_body (Reply res), sv))"

lemma events_from_calm:
  assumes "sqlite_backed X st" and "sv_ok st B n sv" and "calm_world (sv_world sv)"
    and "authorize st h False = Inr ns" and "valid_id i"
  shows "\<exists>sv'. events_from st i h start limit sv =
      (Inr (take (unat (clamp 1 5000 limit)) (drop (start_index start) (srecord st ns i sv))), sv') \<and>
    sdb sv' = sdb sv \<and> calm_world (sv_world sv')"
proof -
  have "quiet (w_sys (sv_world sv) (w_tick (sv_world sv)))" using assms(3) by (simp add: calm_world_def)
  from store_events_quiet[OF linked_ok[OF assms(2)[unfolded sv_ok_def]]
      server_okD(4)[OF assms(2)[unfolded sv_ok_def]] this, of ns i start limit] assms(3-5)
  show ?thesis
    by (simp add: events_from_def h_list_events_def sqlite_calls[OF assms(1)] on_store_def call_def srecord_def
        sdb_def calm_world_def sdk_send_def events_body_def respond_def)
qed

lemma clamp_page: "0 < page \<Longrightarrow> page \<le> 5000 \<Longrightarrow> clamp 1 5000 page = page"
  by (auto simp: clamp_def word_less_nat_alt word_le_nat_alt)

text \<open>Each full page moves the start by its length; a short one ends the loop.\<close>

lemma paged_from_calm:
  assumes "sqlite_backed X st" and "authorize st h False = Inr ns" and "valid_id i" and "0 < page" and "page \<le> 5000"
  shows "sv_ok st B n sv \<Longrightarrow> calm_world (sv_world sv) \<Longrightarrow>
    rest = drop (start_index start) (srecord st ns i sv) \<Longrightarrow> length rest div unat page < fuel \<Longrightarrow>
    \<exists>sv'. paged_from fuel (events_from st i h) page start all sv = Some (Inr (all @ rest), sv') \<and> sdb sv' = sdb sv"
proof (induction fuel arbitrary: sv rest start all)
  case (Suc fuel)
  let ?p = "unat page" and ?rec = "srecord st ns i sv" and ?k = "start_index start"
  have p: "0 < ?p" using assms(4) by (simp add: unat_gt_0 word_greater_zero_iff[symmetric])
  obtain batch where batch: "batch = take ?p rest" by blast
  obtain sv1 where fetch: "events_from st i h start page sv = (Inr batch, sv1)"
    and sv1: "sdb sv1 = sdb sv" "calm_world (sv_world sv1)"
    using events_from_calm[OF assms(1) Suc.prems(1,2) assms(2,3), of start page] batch Suc.prems(3)
    by (auto simp: clamp_page[OF assms(4,5)])
  show ?case
  proof (cases "length rest < ?p")
    case True
    then have "batch = rest" by (simp add: batch)
    with True fetch sv1(1) show ?thesis by simp
  next
    case False
    then have full: "length batch = ?p" "batch \<noteq> []" using p by (auto simp: batch)
    have lk: "linked (tl_sha st) ?rec" and small: "length ?rec < 2 ^ 63"
      unfolding srecord_def using linked_ok length_record_ok Suc.prems(1)[unfolded sv_ok_def] by blast+
    have next_start: "ev_seq (last batch) + 1 = of_nat (?k + ?p)"
      using batch_next[OF lk, of batch ?p ?k] full batch Suc.prems(3) by simp
    have "?k + ?p \<le> length ?rec" using False Suc.prems(3) p by simp
    then have "start_index (of_nat (?k + ?p)) = ?k + ?p"
      using small by (intro start_index_of_nat) simp
    then have rest: "drop ?p rest = drop (start_index (of_nat (?k + ?p))) (srecord st ns i sv1)"
      using Suc.prems(3) sv1(1) by (simp add: srecord_def add.commute)
    have "length (drop ?p rest) div ?p < fuel" using False Suc.prems(4) p by (simp add: div_if)
    moreover have "sv_ok st B n sv1" using Suc.prems(1) sv1(1) by (simp add: sv_ok_def)
    ultimately obtain sv' where "paged_from fuel (events_from st i h) page (of_nat (?k + ?p)) (all @ batch) sv1
        = Some (Inr ((all @ batch) @ drop ?p rest), sv')" "sdb sv' = sdb sv1"
      using Suc.IH[OF _ sv1(2) rest] by blast
    moreover have "(all @ batch) @ drop ?p rest = all @ rest" by (simp add: batch)
    ultimately show ?thesis using fetch full sv1(1) next_start by simp
  qed
qed simp

section \<open>What a client gets\<close>

lemma start_index_0 [simp]: "start_index 0 = 0"
  by (simp add: start_index_def)

lemma events_paged_calm:
  assumes "sqlite_backed X st" and "sv_ok st B n sv" and "calm_world (sv_world sv)"
    and "authorize st h False = Inr ns" and "valid_id i" and "0 < page" and "page \<le> 5000"
    and "length (srecord st ns i sv) div unat page < fuel"
  shows "\<exists>sv'. events_paged fuel (events_from st i h) page sv = Some (Inr (srecord st ns i sv), sv') \<and> sdb sv' = sdb sv"
  using paged_from_calm[OF assms(1,4-7,2,3), of "srecord st ns i sv" 0 fuel "[]"] assms(8)
  by (simp add: events_paged_def)

text \<open>A record of a run verifies.\<close>

lemma srecord_verifies:
  assumes "sv_ok st B n sv" and "run_of ns i (sdb sv) \<noteq> None"
  shows "verify_chain (tl_sha st) (srecord st ns i sv) = Inr (chain_summary (srecord st ns i sv))"
proof -
  obtain r where "run_of ns i (sdb sv) = Some r" using assms(2) by blast
  from run_inv_SomeD[OF store_invD(1)[OF server_okD(3)[OF assms(1)[unfolded sv_ok_def]]] this]
  show ?thesis by (simp add: verify_chain_Inr_iff srecord_def)
qed

text \<open>
  C7: the client gets the whole record, verified. Against a server that answers, after any
  requests, \<open>verified_events\<close> ends after one request more than the record has pages of a
  thousand, returns every event of the record in order, and the check of the chain passes.
\<close>

theorem client_gets_the_whole_record:
  assumes "fresh_server X st sv0" and "5000 * length reqs < 2 ^ 63 - 1"
    and "sv = serve_all st reqs sv0" and "calm_world (sv_world sv)"
    and "authorize st h False = Inr ns" and "valid_id i" and "run_of ns i (sdb sv) \<noteq> None"
    and "length (srecord st ns i sv) div 1000 < fuel"
  shows "\<exists>sv'. verified_events fuel (tl_sha st) (events_from st i h) sv = Some (Inr (srecord st ns i sv), sv') \<and>
    sdb sv' = sdb sv"
proof -
  have B: "sqlite_backed X st" using assms(1) by (simp add: fresh_server_def sqlite_serverD(1))
  have ok: "sv_ok st empty_db 0 sv"
    unfolding assms(3) by (rule fresh_reaches[OF assms(1)]) (use assms(2) in simp)
  show ?thesis
    using events_paged_calm[OF B ok assms(4-6), of 1000 fuel] assms(8) srecord_verifies[OF ok assms(7)]
    by (auto simp: verified_events_def)
qed

lemma demo_open_length: "length (srecord demo_state ''acme'' ''loan'' demo_open) = 1"
  by (simp add: srecord_def demo_open_def demo_created record_of_open_run demo_new_def)

theorem client_gets_the_whole_record_witness:
  "\<exists>sv'. verified_events 1 prefix_sha (events_from demo_state ''loan'' demo_headers) demo_open
     = Some (Inr (srecord demo_state ''acme'' ''loan'' demo_open), sv') \<and> sdb sv' = sdb demo_open"
  using client_gets_the_whole_record[OF demo_fresh, of "[CreateRun demo_headers ''run'']" demo_open demo_headers
      "''acme''" "''loan''" 1] demo_open_facts demo_open_length
  by (auto simp: demo_authorize demo_open_def[symmetric] run_open_def)

section \<open>The page size\<close>

lemma paged_zero:
  assumes "sqlite_backed X st" and "authorize st h False = Inr ns" and "valid_id i"
  shows "sv_ok st B n sv \<Longrightarrow> calm_world (sv_world sv) \<Longrightarrow>
    paged_from fuel (events_from st i h) 0 start all sv = None"
proof (induction fuel arbitrary: sv start all)
  case (Suc fuel)
  obtain batch sv1 where fetch: "events_from st i h start 0 sv = (Inr batch, sv1)"
    and sv1: "sdb sv1 = sdb sv" "calm_world (sv_world sv1)"
    using events_from_calm[OF assms(1) Suc.prems assms(2,3), of start 0] by blast
  moreover have "sv_ok st B n sv1" using Suc.prems(1) sv1(1) by (simp add: sv_ok_def)
  ultimately show ?case using Suc.IH[OF _ sv1(2)] by (simp add: Let_def)
qed simp

lemma clamp_beyond: "5000 < l \<Longrightarrow> clamp 1 5000 (l :: u32) = 5000"
  by (auto simp: clamp_def word_less_nat_alt word_le_nat_alt)

text \<open>
  the page size that \<open>events_paged\<close> takes has bounds it does not state. Above 5000, which
  the server never exceeds, the first page is taken for a short one, so only the first 5000
  events of a longer record come back, a prefix that verifies; with 0 the call never returns.
\<close>

theorem page_size_has_bounds:
  assumes "fresh_server X st sv0" and "5000 * length reqs < 2 ^ 63 - 1"
    and "sv = serve_all st reqs sv0" and "calm_world (sv_world sv)"
    and "authorize st h False = Inr ns" and "valid_id i"
  shows "(5000 < page \<longrightarrow> (\<exists>sv'. events_paged (Suc fuel) (events_from st i h) page sv
      = Some (Inr (take 5000 (srecord st ns i sv)), sv'))) \<and>
    events_paged fuel (events_from st i h) 0 sv = None"
proof -
  have B: "sqlite_backed X st" using assms(1) by (simp add: fresh_server_def sqlite_serverD(1))
  have ok: "sv_ok st empty_db 0 sv"
    unfolding assms(3) by (rule fresh_reaches[OF assms(1)]) (use assms(2) in simp)
  have "\<exists>sv'. events_paged (Suc fuel) (events_from st i h) page sv
      = Some (Inr (take 5000 (srecord st ns i sv)), sv')" if "5000 < page"
  proof -
    have "5000 < unat page" using that by (simp add: word_less_nat_alt)
    moreover obtain batch where batch: "batch = take 5000 (srecord st ns i sv)" by blast
    ultimately have "length batch < unat page" by simp
    moreover have "\<exists>sv'. events_from st i h 0 page sv = (Inr batch, sv')"
      using events_from_calm[OF B ok assms(4-6), of 0 page] batch clamp_beyond[OF \<open>5000 < page\<close>] by auto
    ultimately show ?thesis by (auto simp: events_paged_def batch[symmetric])
  qed
  with paged_zero[OF B assms(5,6) ok assms(4)] show ?thesis by (simp add: events_paged_def)
qed

theorem page_size_has_bounds_witness:
  "(\<exists>sv'. events_paged 1 (events_from demo_state ''loan'' demo_headers) 6000 demo_open
      = Some (Inr (take 5000 (srecord demo_state ''acme'' ''loan'' demo_open)), sv')) \<and>
    events_paged 0 (events_from demo_state ''loan'' demo_headers) 0 demo_open = None"
  using page_size_has_bounds[OF demo_fresh, of "[CreateRun demo_headers ''run'']" demo_open demo_headers
      "''acme''" "''loan''" 6000 0] demo_open_facts
  by (auto simp: demo_authorize demo_open_def[symmetric])

end
