(* ===== verification/Gate_Wait.thy ===== *)
theory Gate_Wait
  imports Sdk
begin

text \<open>
  Waiting for a human, \<open>crates/tideline-sdk/src/run.rs\<close>: a gate as the client reads it, the
  polling loop of \<open>await_gate\<close> with its back-off, and the loop against the server. A gate of a
  reply passes as the value it encodes; \<open>sdk_gate_of\<close> says which fields the server's encoding
  has. What others do while the client sleeps is an argument.
\<close>

record sdk_gate =
  sg_seq :: u64
  sg_action :: string
  sg_expires_at :: u64
  sg_state :: string
  sg_decision :: "decision option"
  sg_reviewer :: "string option"
  sg_reviewer_principal :: "string option"
  sg_attested :: bool
  sg_note :: "string option"

definition sg_is_pending :: "sdk_gate \<Rightarrow> bool" where
  "sg_is_pending g \<longleftrightarrow> sg_state g = ''pending''"

record resolution =
  rs_seq :: u64
  rs_decision :: decision
  rs_reviewer :: "string option"
  rs_note :: "string option"
  rs_attested :: bool

definition is_approved :: "resolution \<Rightarrow> bool" where
  "is_approved r \<longleftrightarrow> rs_decision r = Approved"

text \<open>
  The state of a gate is tagged with \<open>state\<close> and has its content in \<open>decision\<close>, so a pending
  gate has no \<open>decision\<close>.
\<close>

definition sdk_gate_of :: "gate \<Rightarrow> sdk_gate" where
  "sdk_gate_of g = \<lparr>sg_seq = g_seq g, sg_action = g_action g, sg_expires_at = g_expires_at g,
     sg_state = (case g_state g of Pending \<Rightarrow> ''pending'' | Resolved _ \<Rightarrow> ''resolved''),
     sg_decision = (case g_state g of Pending \<Rightarrow> None | Resolved d \<Rightarrow> Some d),
     sg_reviewer = g_reviewer g, sg_reviewer_principal = g_reviewer_principal g,
     sg_attested = g_attested g, sg_note = g_note g\<rparr>"

definition gate_body :: "body \<Rightarrow> sdk_gate option" where
  "gate_body b = (case b of GateBody g \<Rightarrow> Some (sdk_gate_of g) | _ \<Rightarrow> None)"

definition approval ::
  "'s tlr_state \<Rightarrow> string \<Rightarrow> headers \<Rightarrow> u64 \<Rightarrow> 's server \<Rightarrow> (sdk_error + sdk_gate) \<times> 's server" where
  "approval st i h seq sv =
     (case h_get_approval st i seq h sv of (res, sv) \<Rightarrow> (sdk_send gate_body (Reply res), sv))"

section \<open>The polling loop\<close>

definition resolution_of :: "u64 \<Rightarrow> sdk_gate \<Rightarrow> sdk_error + resolution" where
  "resolution_of seq gate =
     (case sg_decision gate of
        None \<Rightarrow> Inl (Protocol ''resolved gate carries no decision'')
      | Some d \<Rightarrow> Inr \<lparr>rs_seq = seq, rs_decision = d, rs_reviewer = sg_reviewer gate,
                      rs_note = sg_note gate, rs_attested = sg_attested gate\<rparr>)"

text \<open>Delays are in milliseconds.\<close>

fun await_from ::
  "nat \<Rightarrow> (u64 \<Rightarrow> 's \<Rightarrow> (sdk_error + sdk_gate) \<times> 's) \<Rightarrow> (nat \<Rightarrow> 's \<Rightarrow> 's) \<Rightarrow> u64 \<Rightarrow> nat \<Rightarrow> 's
   \<Rightarrow> ((sdk_error + resolution) \<times> 's) option" where
  "await_from 0 fetch sleep seq delay s = None"
| "await_from (Suc fuel) fetch sleep seq delay s =
     (case fetch seq s of
        (Inl e, s) \<Rightarrow> Some (Inl e, s)
      | (Inr gate, s) \<Rightarrow>
          if \<not> sg_is_pending gate then Some (resolution_of seq gate, s)
          else await_from fuel fetch sleep seq (min (delay * 2) 5000) (sleep delay s))"

definition await_gate ::
  "nat \<Rightarrow> (u64 \<Rightarrow> 's \<Rightarrow> (sdk_error + sdk_gate) \<times> 's) \<Rightarrow> (nat \<Rightarrow> 's \<Rightarrow> 's) \<Rightarrow> u64 \<Rightarrow> 's
   \<Rightarrow> ((sdk_error + resolution) \<times> 's) option" where
  "await_gate fuel fetch sleep seq s = await_from fuel fetch sleep seq 250 s"

lemma pending_gate [simp]: "sg_is_pending (sdk_gate_of g) \<longleftrightarrow> g_state g = Pending"
  by (simp add: sg_is_pending_def sdk_gate_of_def split: approval_state.split)

text \<open>What the client returns for a gate of the record.\<close>

definition told :: "u64 \<Rightarrow> gate \<Rightarrow> resolution \<Rightarrow> bool" where
  "told seq g r \<longleftrightarrow> g_seq g = seq \<and> g_state g = Resolved (rs_decision r) \<and> rs_seq r = seq \<and>
     rs_reviewer r = g_reviewer g \<and> rs_note r = g_note g \<and> rs_attested r = g_attested g"

lemma resolution_of_gate:
  "g_seq g = seq \<Longrightarrow> resolution_of seq (sdk_gate_of g) = Inr r \<Longrightarrow> told seq g r"
  by (auto simp: resolution_of_def sdk_gate_of_def told_def split: approval_state.splits)

section \<open>What a waiting client is told\<close>

text \<open>A read with expiry that succeeds returns the first 5000 events of the record as it is then.\<close>

lemma read_is_record:
  assumes "sqlite_backed X st" and "sv_ok st B n sv"
    and "on_store (st_events (tl_store st) ns i 0 5000) sv = (Inr events, sv')"
  shows "events = take 5000 (srecord st ns i sv') \<and> sdb sv' = sdb sv"
  using store_events_cases[OF assms(2)[unfolded sv_ok_def], of ns i 0 5000 "snow sv"]
    call_read(3)[OF assms(1,3)] on_store_op[OF assms(3)[unfolded sqlite_calls[OF assms(1)]]]
  by (auto simp: srecord_def clamp_def)

lemma expire_loop_count:
  "expire_loop J S ns i seqs k w = (Inr m, w') \<Longrightarrow> m = k + length seqs"
  by (induction seqs arbitrary: k w) (fastforce split: prod.splits sum.splits)+

lemma expire_none:
  assumes "expire_lapsed_in J S ns i events now w = (Inr 0, w')"
  shows "w' = w"
  using assms expire_loop_count[of J S ns i "lapsed_gates J events now" 0 w 0 w']
  by (auto simp: expire_lapsed_in_def Let_def split: if_splits)

lemma expire_then_read_is_record:
  assumes "sqlite_backed X st" and "sv_ok st B (n + 5000) sv"
    and "expire_then_read st ns i sv = (Inr events, sv')"
  shows "events = take 5000 (srecord st ns i sv')"
proof -
  obtain r sv1 where ev: "on_store (st_events (tl_store st) ns i 0 5000) sv = (r, sv1)" by force
  with assms(3) obtain first where r: "r = Inr first" by (cases r) (auto simp: expire_then_read_def)
  note one = read_is_record[OF assms(1,2) ev[unfolded r]]
  obtain now sv2 where clock: "on_store read_clock sv1 = (now, sv2)" by force
  obtain l sv3 where ex: "on_store (expire_lapsed_in (tl_json st) (tl_store st) ns i first now) sv2 = (l, sv3)"
    by force
  with assms(3) obtain k where l: "l = Inr k" by (cases l) (auto simp: expire_then_read_def ev r clock)
  have run: "(if k = 0 then (Inr first, sv3)
      else on_store (st_events (tl_store st) ns i 0 5000) ((incr m_gates_expired_update ^^ k) sv3)) = (Inr events, sv')"
    using assms(3) by (simp add: expire_then_read_def ev r clock ex l del: funpow.simps)
  show ?thesis
  proof (cases "k = 0")
    case True
    have "sdb sv3 = sdb sv1"
      using ex clock_read[OF clock] expire_none[of "tl_json st" "tl_store st" ns i first now "sv_world sv2" "sv_world sv3"]
      by (auto simp: l True on_store_def sdb_def split: prod.splits)
    with run True one show ?thesis by (simp add: srecord_def)
  next
    case False
    let ?sv = "(incr m_gates_expired_update ^^ k) sv3"
    from False run have read: "on_store (st_events (tl_store st) ns i 0 5000) ?sv = (Inr events, sv')" by simp
    have "sv_ok st B n (snd (expire_then_read st ns i sv))" by (rule expire_then_read_ok[OF assms(1,2)])
    then have "sv_ok st B n ?sv" using call_read(3)[OF assms(1) read] by (simp add: assms(3) sv_ok_def)
    from read_is_record[OF assms(1) this read] show ?thesis by simp
  qed
qed

text \<open>A poll that finds the gate.\<close>

lemma err_status_high [simp]: "400 \<le> rs_status (err e)"
  by (cases e) (simp_all add: respond_def)

lemma err_no_gate [simp]: "rs_body (err e) \<noteq> GateBody g"
  by (cases e) (simp_all add: respond_def)

lemma approval_is_recorded:
  assumes "sqlite_server X st" and "sv_ok st B (n + 5000) sv" and "authorize st h False = Inr ns"
    and "approval st i h seq sv = (Inr gate, sv')"
  shows "\<exists>g \<in> set (project (tl_json st) (take 5000 (srecord st ns i sv'))). g_seq g = seq \<and> gate = sdk_gate_of g"
proof -
  obtain events where read: "expire_then_read st ns i sv = (Inr events, sv')"
    and found: "\<exists>g. find (\<lambda>g. g_seq g = seq) (project (tl_json st) events) = Some g \<and> gate = sdk_gate_of g"
    using assms(3,4)
    by (auto simp: approval_def h_get_approval_def sdk_send_def gate_body_def respond_def bad_def
        split: if_splits sum.splits prod.splits option.splits store_error.splits body.splits)
  from found obtain g where "find (\<lambda>g. g_seq g = seq) (project (tl_json st) events) = Some g" "gate = sdk_gate_of g"
    by blast
  moreover note find_SomeD[OF this(1)]
  moreover note expire_then_read_is_record[OF sqlite_serverD(1)[OF assms(1)] assms(2) read]
  ultimately show ?thesis by blast
qed

text \<open>
  Others act while the client sleeps: each sleep takes the next round of requests. The states
  of the loop are a server and the rounds to come.
\<close>

definition while_asleep ::
  "db tlr_state \<Rightarrow> nat \<Rightarrow> db server \<times> http_request list list \<Rightarrow> db server \<times> http_request list list" where
  "while_asleep st d s = (case snd s of [] \<Rightarrow> s | reqs # rounds \<Rightarrow> (serve_all st reqs (fst s), rounds))"

definition approval_among ::
  "db tlr_state \<Rightarrow> string \<Rightarrow> headers \<Rightarrow> u64 \<Rightarrow> db server \<times> http_request list list
   \<Rightarrow> (sdk_error + sdk_gate) \<times> (db server \<times> http_request list list)" where
  "approval_among st i h seq s = (case approval st i h seq (fst s) of (r, sv) \<Rightarrow> (r, (sv, snd s)))"

lemma approval_ok:
  assumes "sqlite_server X st" and "sv_ok st B (n + 5000) sv"
  shows "sv_ok st B n (snd (approval st i h seq sv))"
  using get_approval_ok[OF assms, of i seq h] by (simp add: approval_def case_prod_unfold)

lemma await_is_recorded:
  assumes "sqlite_server X st" and "authorize st h False = Inr ns"
  shows "sv_ok st B (5000 * (fuel + length (concat rounds))) sv \<Longrightarrow>
    await_from fuel (approval_among st i h) (while_asleep st) seq delay (sv, rounds) = Some (Inr r, (sv', rest)) \<Longrightarrow>
    \<exists>g \<in> set (project (tl_json st) (take 5000 (srecord st ns i sv'))). told seq g r"
proof (induction fuel arbitrary: sv rounds delay)
  case (Suc fuel)
  let ?n = "5000 * (fuel + length (concat rounds))"
  have ok: "sv_ok st B (?n + 5000) sv" using Suc.prems(1) by (simp add: algebra_simps)
  obtain res sv1 where poll: "approval st i h seq sv = (res, sv1)" by force
  with Suc.prems(2) obtain gate where res: "res = Inr gate"
    by (cases res) (auto simp: approval_among_def)
  have among: "approval_among st i h seq (sv, rounds) = (Inr gate, (sv1, rounds))"
    using poll res by (simp add: approval_among_def)
  obtain g where g: "g \<in> set (project (tl_json st) (take 5000 (srecord st ns i sv1)))"
    "g_seq g = seq" "gate = sdk_gate_of g"
    using approval_is_recorded[OF assms(1) ok assms(2) poll[unfolded res]] by blast
  have ok1: "sv_ok st B ?n sv1" using approval_ok[OF assms(1) ok, of i h seq] poll by simp
  show ?case
  proof (cases "sg_is_pending gate")
    case False
    with Suc.prems(2) among g have "resolution_of seq (sdk_gate_of g) = Inr r" "sv1 = sv'"
      by auto
    with g resolution_of_gate[of g seq r] show ?thesis by blast
  next
    case True
    obtain sv2 rounds2 where asleep: "while_asleep st delay (sv1, rounds) = (sv2, rounds2)" by force
    have "sv_ok st B (5000 * (fuel + length (concat rounds2))) sv2"
    proof (cases rounds)
      case Nil
      with asleep ok1 show ?thesis by (simp add: while_asleep_def)
    next
      case (Cons reqs rs)
      with ok1 have "sv_ok st B (5000 * (fuel + length (concat rs)) + 5000 * length reqs) sv1"
        by (simp add: algebra_simps)
      from serve_all_ok[OF assms(1) this] asleep Cons show ?thesis by (simp add: while_asleep_def)
    qed
    moreover have "await_from fuel (approval_among st i h) (while_asleep st) seq (min (delay * 2) 5000) (sv2, rounds2)
        = Some (Inr r, (sv', rest))"
      using Suc.prems(2) among True asleep by simp
    ultimately show ?thesis by (rule Suc.IH)
  qed
qed simp

text \<open>
  C8: an agent is told what the record says. Whatever requests, faults and times come between
  its polls, the resolution \<open>await_gate\<close> returns is that of the gate it asked about in the
  record of the run at that moment: the same decision, reviewer, note and attestation.
\<close>

theorem agent_is_told_the_record:
  assumes "fresh_server X st sv0" and "authorize st h False = Inr ns"
    and "5000 * (fuel + length (concat rounds)) + 5000 * length before < 2 ^ 63 - 1"
    and "await_gate fuel (approval_among st i h) (while_asleep st) seq (serve_all st before sv0, rounds)
      = Some (Inr r, (sv, rest))"
  shows "\<exists>g \<in> set (project (tl_json st) (take 5000 (srecord st ns i sv))).
    g_seq g = seq \<and> g_state g = Resolved (rs_decision r) \<and> rs_seq r = seq \<and>
    rs_reviewer r = g_reviewer g \<and> rs_note r = g_note g \<and> rs_attested r = g_attested g"
proof -
  have X: "sqlite_server X st" using assms(1) by (simp add: fresh_server_def)
  from await_is_recorded[OF X assms(2) fresh_reaches[OF assms(1,3)] assms(4)[unfolded await_gate_def]]
  show ?thesis by (simp add: told_def)
qed

section \<open>When the wait ends\<close>

text \<open>The time a poll in a good state compares the expiries with.\<close>

definition poll_time :: "db server \<Rightarrow> u64" where
  "poll_time sv = now_ms (w_sys (sv_world sv) (Suc (w_tick (sv_world sv))))"

definition server_gates :: "db tlr_state \<Rightarrow> string \<Rightarrow> string \<Rightarrow> db server \<Rightarrow> gate list" where
  "server_gates st ns i sv = project (tl_json st) (srecord st ns i sv)"

lemma sv_world_incrs: "sv_world ((incr upd ^^ n) sv) = sv_world sv"
  by (induction n) (simp_all add: incr_def)

text \<open>A poll that the store answers: the lapsed gates expire, and the gate comes back.\<close>

lemma expire_then_read_calm:
  assumes "sqlite_backed X st" and "sv_ok st B 5000 sv" and "calm_world (sv_world sv)"
    and "run_open ns i (sdb sv)"
    and "length (srecord st ns i sv) + length (filter (is_lapsed (poll_time sv)) (server_gates st ns i sv)) \<le> 5000"
  shows "\<exists>events sv'. expire_then_read st ns i sv = (Inr events, sv') \<and> calm_world (sv_world sv') \<and>
    project (tl_json st) events
      = map (\<lambda>g. if is_lapsed (poll_time sv) g then expired g else g) (server_gates st ns i sv) \<and>
    server_gates st ns i sv' = project (tl_json st) events"
proof -
  let ?J = "tl_json st" and ?sha = "tl_sha st" and ?S = "tl_store st"
  let ?rec = "srecord st ns i sv" and ?gates = "server_gates st ns i sv" and ?now = "poll_time sv"
  let ?w = "tick (tick (sv_world sv))" and ?k = "length (filter (is_lapsed (poll_time sv)) (server_gates st ns i sv))"
  have S: "?S = sqlite_store ?J ?sha X" using assms(1) by (simp add: sqlite_backed_def)
  have good5: "db_good ?J ?sha 5000 (sdb sv)" using server_okD(1)[OF assms(2)[unfolded sv_ok_def]] .
  have good: "db_good ?J ?sha (length ?rec) (sdb sv)" using good5 assms(5) by (simp add: db_good_def)
  note inv = db_goodD(1)[OF good]
  have log: "log_of ?J (w_state ?w) (ns, i) = Some (?rec, False)"
    using log_of_open[OF assms(4)] by (simp add: srecord_def sdb_def)
  have gates: "gates_in ?J (log_of ?J (w_state ?w)) (ns, i) = ?gates"
    unfolding gates_in_def events_in_def log by (simp add: server_gates_def)
  have "st_events ?S ns i 0 5000 (sv_world sv) = (Inr ?rec, tick (sv_world sv))"
    using sq.short_events[of ?J ?sha "length ?rec" "sv_world sv" ns i X] good assms(3,5)
    by (simp add: S sdb_def events_in_log[OF inv[unfolded sdb_def]] srecord_def)
  then have first: "on_store (st_events ?S ns i 0 5000) sv = (Inr ?rec, sv\<lparr>sv_world := tick (sv_world sv)\<rparr>)"
    by (simp add: on_store_def)
  have clock: "on_store read_clock (sv\<lparr>sv_world := tick (sv_world sv)\<rparr>) = (?now, sv\<lparr>sv_world := ?w\<rparr>)"
    by (simp add: on_store_def read_clock_def poll_time_def tick_def)
  obtain w' m evs' where ex: "expire_lapsed_in ?J ?S ns i ?rec ?now ?w = (Inr ?k, w')"
    and w': "db_good ?J ?sha m (w_state w')" "calm_world w'" "log_of ?J (w_state w') (ns, i) = Some (evs', False)"
      "length evs' \<le> 5000" "?k = 0 \<Longrightarrow> w' = ?w"
    and new: "gates_in ?J (log_of ?J (w_state w')) (ns, i) = map (\<lambda>g. if is_lapsed ?now g then expired g else g) ?gates"
    using sq.expire_lapsed_in_expires[of ?J ?sha ?rec ?w ns i ?now X] good assms(3,5) log gates
    by (auto simp: S sdb_def)
  have evs': "record_of ?J ns i (w_state w') = evs'" using w'(3) by (auto simp: log_of_def split: option.splits)
  have new': "project ?J evs' = map (\<lambda>g. if is_lapsed ?now g then expired g else g) ?gates"
    using new unfolding gates_in_def events_in_def w'(3) by simp
  let ?sv = "sv\<lparr>sv_world := w'\<rparr>"
  have run: "expire_then_read st ns i sv = (if ?k = 0 then (Inr ?rec, ?sv)
      else on_store (st_events ?S ns i 0 5000) ((incr m_gates_expired_update ^^ ?k) ?sv))"
    by (simp add: expire_then_read_def first clock on_store_def[of "expire_lapsed_in _ _ _ _ _ _"] ex)
  show ?thesis
  proof (cases "?k = 0")
    case True
    then have same: "?rec = evs'" using w'(5) evs' by (simp add: srecord_def sdb_def)
    have world: "sv_world ?sv = w'" by simp
    show ?thesis
    proof (intro exI conjI)
      show "expire_then_read st ns i sv = (Inr evs', ?sv)" using run True same by simp
    qed (use w'(2) new' evs' world in \<open>simp_all only: server_gates_def srecord_def sdb_def\<close>)
  next
    case False
    let ?sv3 = "(incr m_gates_expired_update ^^ ?k) ?sv"
    have world: "sv_world ?sv3 = w'" by (simp add: sv_world_incrs)
    then have "on_store (st_events ?S ns i 0 5000) ?sv3 = (Inr evs', ?sv3\<lparr>sv_world := tick w'\<rparr>)"
      using sq.short_events[of ?J ?sha m w' ns i X] w'(1,2,4)
      by (simp add: S on_store_def events_in_log[OF db_goodD(1)[OF w'(1)]] evs')
    note read = this
    have world': "sv_world (?sv3\<lparr>sv_world := tick w'\<rparr>) = tick w'" by simp
    show ?thesis
    proof (intro exI conjI)
      show "expire_then_read st ns i sv = (Inr evs', ?sv3\<lparr>sv_world := tick w'\<rparr>)"
        unfolding run read using False by (simp del: funpow.simps)
    qed (use w'(2) new' evs' world' in \<open>simp_all only: server_gates_def srecord_def sdb_def tick_simps\<close>)
  qed
qed

lemma approval_calm:
  assumes "sqlite_backed X st" and "sv_ok st B 5000 sv" and "calm_world (sv_world sv)"
    and "authorize st h False = Inr ns" and "valid_id i" and "run_open ns i (sdb sv)"
    and "length (srecord st ns i sv) + length (filter (is_lapsed (poll_time sv)) (server_gates st ns i sv)) \<le> 5000"
    and "g \<in> set (server_gates st ns i sv)"
  shows "\<exists>sv'. approval st i h (g_seq g) sv
      = (Inr (sdk_gate_of (if is_lapsed (poll_time sv) g then expired g else g)), sv') \<and>
    server_gates st ns i sv'
      = map (\<lambda>g. if is_lapsed (poll_time sv) g then expired g else g) (server_gates st ns i sv)"
proof -
  let ?f = "\<lambda>g. if is_lapsed (poll_time sv) g then expired g else g"
  obtain events sv' where read: "expire_then_read st ns i sv = (Inr events, sv')"
    and gates: "project (tl_json st) events = map ?f (server_gates st ns i sv)"
      "server_gates st ns i sv' = project (tl_json st) events"
    using expire_then_read_calm[OF assms(1-3,6,7)] by blast
  have "distinct (map g_seq (server_gates st ns i sv))"
    using sq.distinct_gates[OF server_okD(1)[OF assms(2)[unfolded sv_ok_def]], of "(ns, i)"]
      gates_in_log[OF server_okD(3)[OF assms(2)[unfolded sv_ok_def]], of ns i]
    by (simp add: server_gates_def srecord_def run_gates_def)
  then have "find (\<lambda>g'. g_seq g' = g_seq g) (server_gates st ns i sv) = Some g"
    using assms(8) by (rule find_key)
  moreover have "g_seq (?f g') = g_seq g'" for g' by (simp add: expired_def decided_def)
  ultimately have "find (\<lambda>g'. g_seq g' = g_seq g) (project (tl_json st) events) = Some (?f g)"
    unfolding gates(1) by (simp add: find_map_key[of g_seq ?f])
  with read gates assms(4,5) show ?thesis
    by (simp add: approval_def h_get_approval_def sdk_send_def gate_body_def respond_def)
qed

text \<open>
  C21: a wait ends when the gate is decided or its time is over. In an open run with room for the
  decisions below event 5000, against a store that answers: if the gate is decided, or its
  expiry is not after the time of the poll, then that poll is the last and \<open>await_gate\<close> returns
  the decision, which is \<open>expired\<close> by the server if nobody decided; otherwise the client sleeps
  and polls again with twice the delay, at most five seconds, and the gate is as before.
\<close>

theorem wait_ends_at_decision_or_expiry:
  assumes "fresh_server X st sv0" and "5000 + 5000 * length reqs < 2 ^ 63 - 1"
    and "sv = serve_all st reqs sv0" and "calm_world (sv_world sv)"
    and "authorize st h False = Inr ns" and "valid_id i" and "run_open ns i (sdb sv)"
    and "length (srecord st ns i sv) + length (filter (is_lapsed (poll_time sv)) (server_gates st ns i sv)) \<le> 5000"
    and "g \<in> set (server_gates st ns i sv)"
  shows "\<exists>sv'. await_from (Suc fuel) (approval st i h) sleep (g_seq g) delay sv =
    (if is_lapsed (poll_time sv) g then
       Some (Inr \<lparr>rs_seq = g_seq g, rs_decision = Expired, rs_reviewer = None,
                  rs_note = Some ''no decision before expiry'', rs_attested = False\<rparr>, sv')
     else case g_state g of
       Resolved d \<Rightarrow> Some (Inr \<lparr>rs_seq = g_seq g, rs_decision = d, rs_reviewer = g_reviewer g,
                                 rs_note = g_note g, rs_attested = g_attested g\<rparr>, sv')
     | Pending \<Rightarrow> await_from fuel (approval st i h) sleep (g_seq g) (min (delay * 2) 5000) (sleep delay sv')) \<and>
    (\<not> is_lapsed (poll_time sv) g \<longrightarrow> g \<in> set (server_gates st ns i sv'))"
proof -
  have B: "sqlite_backed X st" using assms(1) by (simp add: fresh_server_def sqlite_serverD(1))
  have ok: "sv_ok st empty_db 5000 sv" unfolding assms(3) by (rule fresh_reaches[OF assms(1,2)])
  obtain sv' where poll: "approval st i h (g_seq g) sv
      = (Inr (sdk_gate_of (if is_lapsed (poll_time sv) g then expired g else g)), sv')"
    and gates: "server_gates st ns i sv'
      = map (\<lambda>g. if is_lapsed (poll_time sv) g then expired g else g) (server_gates st ns i sv)"
    using approval_calm[OF B ok assms(4-9)] by blast
  have "g \<in> set (server_gates st ns i sv')" if "\<not> is_lapsed (poll_time sv) g"
    unfolding gates using assms(9) that by force
  with poll show ?thesis
    by (intro exI[of _ sv'])
      (auto simp: resolution_of_def sdk_gate_of_def sg_is_pending_def expired_def decided_def split: approval_state.split)
qed

section \<open>A gate that lapses\<close>

lemma world_publish_head:
  assumes "sqlite_backed X st"
  shows "sv_world (publish_head st ns i seq sv) = tick (sv_world sv)"
  by (auto simp: publish_head_def sqlite_calls[OF assms] on_store_def call_quiet spine_def Let_def
      split: prod.split sum.split list.split option.split)

definition demo_gated :: "db server" where
  "demo_gated = serve_all demo_state [CreateRun demo_headers ''run'', CreateApproval ''loan'' demo_headers ''pay'']
     (demo_server empty_db)"

lemma request_world:
  "w_sys (snd (request J (sqlite_store J sha X) ns i a t w)) = w_sys w"
  "w_tick (snd (request J (sqlite_store J sha X) ns i a t w)) \<le> Suc (w_tick w)"
  by (auto simp: request_def append_seq_def sqlite_store_def call_quiet tick_def split: sum.split)

lemma demo_open_world:
  "w_sys (sv_world demo_open) = (\<lambda>t. calm (10 + t))" "w_tick (sv_world demo_open) \<le> 2"
  by (simp_all add: demo_open_def serve_all_def h_create_run_def publish_head_def incr_def spine_def
      demo_codec_def sqlite_calls[OF demo_state_simps(2)] on_store_def call_quiet case_prod_unfold
      Let_def demo_server_def demo_world_def tick_def split: sum.split list.split option.split)

lemma demo_gated_facts:
  "calm_world (sv_world demo_gated)" "run_open ''acme'' ''loan'' (sdb demo_gated)"
  "length (srecord demo_state ''acme'' ''loan'' demo_gated) = 2"
  "server_gates demo_state ''acme'' ''loan'' demo_gated = [requested 1 ''pay'' 5]"
  "5 \<le> poll_time demo_gated"
proof -
  have gated: "demo_gated = snd (h_create_approval demo_state ''loan'' demo_headers ''pay'' demo_open)"
    by (simp add: demo_gated_def demo_open_def serve_all_def)
  obtain res w where call: "request demo_json (sqlite_store demo_json prefix_sha no_extract)
     ''acme'' ''loan'' ''pay'' 5 (sv_world demo_open) = (res, w)" by force
  have good: "db_good demo_json prefix_sha (Suc 0) (w_state (sv_world demo_open))"
    using server_okD(1)[OF demo_open_ok[unfolded sv_ok_def]] by (simp add: sdb_def)
  have log: "log_of demo_json (w_state (sv_world demo_open)) (''acme'', ''loan'')
      = Some (srecord demo_state ''acme'' ''loan'' demo_open, False)"
    using log_of_open[OF demo_open_facts(2)] by (simp add: srecord_def sdb_def)
  note opens = sq.request_opens[OF good demo_open_facts(1) log call]
  then have res: "res = Inr 1" by (simp add: demo_open_length)
  have "on_store (request demo_json (sqlite_store demo_json prefix_sha no_extract) ''acme'' ''loan'' ''pay'' 5) demo_open
      = (Inr 1, demo_open\<lparr>sv_world := w\<rparr>)"
    by (simp add: on_store_def call res)
  then have world: "sv_world demo_gated = tick w"
    unfolding gated
    by (simp add: h_create_approval_def demo_open_facts(3) demo_codec_def expiry_of_def Let_def
        world_publish_head[OF demo_state_simps(2)] incr_def demo_state_def[THEN arg_cong, of tl_store])
  note inv = db_goodD(1)[of demo_json prefix_sha 0 "w_state w"]
  from opens obtain e where upd: "log_of demo_json (w_state w) = (log_of demo_json (w_state (sv_world demo_open)))
      ((''acme'', ''loan'') \<mapsto> (srecord demo_state ''acme'' ''loan'' demo_open @ [e], False))" by blast
  have "log_of demo_json (w_state w) (''acme'', ''loan'')
      = Some (srecord demo_state ''acme'' ''loan'' demo_open @ [e], False)"
    unfolding upd by simp
  then show "run_open ''acme'' ''loan'' (sdb demo_gated)"
    "length (srecord demo_state ''acme'' ''loan'' demo_gated) = 2"
    using demo_open_length by (auto simp: run_open_def srecord_def sdb_def world)
  show "calm_world (sv_world demo_gated)" using opens world by simp
  have "srecord demo_state ''acme'' ''loan'' demo_open = [first_event demo_json prefix_sha 10 demo_new]"
    by (simp add: srecord_def demo_open_def demo_created record_of_open_run demo_new_def)
  then have "gates_in demo_json (log_of demo_json (w_state (sv_world demo_open))) (''acme'', ''loan'') = []"
    unfolding gates_in_def events_in_def log by (simp add: project_def project_step_def)
  then have "gates_in demo_json (log_of demo_json (w_state w)) (''acme'', ''loan'') = [requested 1 ''pay'' 5]"
    using opens demo_open_length by simp
  moreover have "db_good demo_json prefix_sha 0 (w_state w)" using opens by simp
  ultimately show "server_gates demo_state ''acme'' ''loan'' demo_gated = [requested 1 ''pay'' 5]"
    using gates_in_log[OF db_goodD(1), of demo_json prefix_sha 0 "w_state w" "''acme''" "''loan''"]
    by (simp add: server_gates_def srecord_def run_gates_def sdb_def world)
  have "w_sys (sv_world demo_gated) = (\<lambda>t. calm (10 + t))" "w_tick (sv_world demo_gated) \<le> 4"
    using request_world[of demo_json prefix_sha no_extract "''acme''" "''loan''" "''pay''" 5 "sv_world demo_open"]
      demo_open_world by (simp_all add: call world) (simp add: tick_def)
  moreover from this(2) have "unat (of_nat (11 + w_tick (sv_world demo_gated)) :: u64) = 11 + w_tick (sv_world demo_gated)"
    by (intro unat_of_nat_u64) simp
  ultimately show "5 \<le> poll_time demo_gated"
    by (simp add: poll_time_def word_le_nat_alt)
qed

theorem wait_ends_at_decision_or_expiry_witness:
  "\<exists>sv'. await_from 1 (approval demo_state ''loan'' demo_headers) (\<lambda>d sv. sv) 1 250 demo_gated
     = Some (Inr \<lparr>rs_seq = 1, rs_decision = Expired, rs_reviewer = None,
                  rs_note = Some ''no decision before expiry'', rs_attested = False\<rparr>, sv')"
proof -
  have lapsed: "is_lapsed (poll_time demo_gated) (requested 1 ''pay'' 5)"
    using demo_gated_facts(5) by (simp add: is_lapsed_def requested_def)
  from wait_ends_at_decision_or_expiry[OF demo_fresh, of
      "[CreateRun demo_headers ''run'', CreateApproval ''loan'' demo_headers ''pay'']" demo_gated demo_headers
      "''acme''" "''loan''" "requested 1 ''pay'' 5" 0 "\<lambda>d sv. sv" 250]
  show ?thesis
    using demo_gated_facts lapsed demo_open_facts(3)
    by (auto simp: demo_gated_def[symmetric] requested_def)
qed

theorem agent_is_told_the_record_witness:
  "\<exists>r sv. await_gate 1 (approval_among demo_state ''loan'' demo_headers) (while_asleep demo_state) 1 (demo_gated, [])
     = Some (Inr r, (sv, [])) \<and>
   (\<exists>g \<in> set (project demo_json (take 5000 (srecord demo_state ''acme'' ''loan'' sv))). g_seq g = 1 \<and>
     g_state g = Resolved (rs_decision r))"
proof -
  have "is_lapsed (poll_time demo_gated) (requested 1 ''pay'' 5)"
    using demo_gated_facts(5) by (simp add: is_lapsed_def requested_def)
  moreover have "sv_ok demo_state empty_db 5000 demo_gated"
    unfolding demo_gated_def by (rule fresh_reaches[OF demo_fresh]) simp
  ultimately obtain sv where "approval demo_state ''loan'' demo_headers 1 demo_gated
      = (Inr (sdk_gate_of (expired (requested 1 ''pay'' 5))), sv)"
    using approval_calm[OF demo_state_simps(2) _ demo_gated_facts(1) demo_authorize demo_open_facts(3)
        demo_gated_facts(2), of empty_db "requested 1 ''pay'' 5"] demo_gated_facts(3,4)
    by (auto simp: requested_def)
  then obtain r where run: "await_gate 1 (approval_among demo_state ''loan'' demo_headers) (while_asleep demo_state) 1 (demo_gated, [])
     = Some (Inr r, (sv, []))"
    by (auto simp: await_gate_def approval_among_def resolution_of_def sdk_gate_of_def sg_is_pending_def
        expired_def decided_def)
  with agent_is_told_the_record[OF demo_fresh demo_authorize, of 1 "[]"
      "[CreateRun demo_headers ''run'', CreateApproval ''loan'' demo_headers ''pay'']" "''loan''" 1 r sv "[]"]
  show ?thesis by (fastforce simp: demo_gated_def[symmetric])
qed

end
