(* ===== verification/Growth.thy ===== *)
theory Growth
  imports Handlers "HOL-Library.Sublist"
begin

text \<open>
  What only grows. An order on databases that every store operation respects is respected by
  every request: the handlers reach the database through the operations alone. The order is the
  parameter of a locale; the interpretations are the tables that are only appended to.
\<close>

named_theorems grow_intros

locale db_order =
  fixes le :: "db \<Rightarrow> db \<Rightarrow> bool"
  assumes refl: "le c c"
    and trans: "le a b \<Longrightarrow> le b d \<Longrightarrow> le a d"
    and step: "le c (apply_op J sha op s c)"
begin

definition w_grows :: "(db world \<Rightarrow> 'r \<times> db world) \<Rightarrow> bool" where
  "w_grows f \<longleftrightarrow> (\<forall>w. le (w_state w) (w_state (snd (f w))))"

definition s_grows :: "(db server \<Rightarrow> 'r \<times> db server) \<Rightarrow> bool" where
  "s_grows f \<longleftrightarrow> (\<forall>sv. le (sdb sv) (sdb (snd (f sv))))"

definition u_grows :: "(db server \<Rightarrow> db server) \<Rightarrow> bool" where
  "u_grows u \<longleftrightarrow> (\<forall>sv. le (sdb sv) (sdb (u sv)))"

lemma w_grows_rules [grow_intros]:
  "w_grows (\<lambda>w. (r, w))"
  "w_grows f \<Longrightarrow> (\<And>r. w_grows (g r)) \<Longrightarrow> w_grows (\<lambda>w. case f w of (r, w) \<Rightarrow> g r w)"
  "(\<And>e. w_grows (A e)) \<Longrightarrow> (\<And>x. w_grows (B x)) \<Longrightarrow>
   w_grows (\<lambda>w. case s of Inl e \<Rightarrow> A e w | Inr x \<Rightarrow> B x w)"
  "w_grows C \<Longrightarrow> (\<And>y. w_grows (D y)) \<Longrightarrow>
   w_grows (\<lambda>w. case q of None \<Rightarrow> C w | Some y \<Rightarrow> D y w)"
  "w_grows F \<Longrightarrow> w_grows G \<Longrightarrow> w_grows (\<lambda>w. if c then F w else G w)"
  unfolding w_grows_def by (auto simp: refl case_prod_unfold intro: trans split: sum.split option.split)

lemma s_grows_rules [grow_intros]:
  "s_grows (\<lambda>sv. (r, sv))"
  "u_grows u \<Longrightarrow> s_grows (\<lambda>sv. (r, u sv))"
  "u_grows u \<Longrightarrow> s_grows f \<Longrightarrow> s_grows (\<lambda>sv. let sv = u sv in f sv)"
  "s_grows f \<Longrightarrow> (\<And>r. s_grows (g r)) \<Longrightarrow> s_grows (\<lambda>sv. case f sv of (r, sv) \<Rightarrow> g r sv)"
  "s_grows f \<Longrightarrow> (\<And>r. s_grows (g r)) \<Longrightarrow> s_grows (\<lambda>sv. let (r, sv) = f sv in g r sv)"
  "(\<And>e. s_grows (A e)) \<Longrightarrow> (\<And>x. s_grows (B x)) \<Longrightarrow>
   s_grows (\<lambda>sv. case s of Inl e \<Rightarrow> A e sv | Inr x \<Rightarrow> B x sv)"
  "s_grows C \<Longrightarrow> (\<And>y. s_grows (D y)) \<Longrightarrow>
   s_grows (\<lambda>sv. case q of None \<Rightarrow> C sv | Some y \<Rightarrow> D y sv)"
  "s_grows F \<Longrightarrow> s_grows G \<Longrightarrow> s_grows (\<lambda>sv. if c then F sv else G sv)"
  "s_grows L \<Longrightarrow> (\<And>x xs. s_grows (M x xs)) \<Longrightarrow>
   s_grows (\<lambda>sv. case l of [] \<Rightarrow> L sv | x # xs \<Rightarrow> M x xs sv)"
  "s_grows N \<Longrightarrow> (\<And>m. s_grows (K m)) \<Longrightarrow> (\<And>m. s_grows (I m)) \<Longrightarrow> (\<And>m. s_grows (E m)) \<Longrightarrow>
   s_grows (\<lambda>sv. case er of NotFound \<Rightarrow> N sv | Conflict m \<Rightarrow> K m sv | Invalid m \<Rightarrow> I m sv | Backend m \<Rightarrow> E m sv)"
  unfolding s_grows_def u_grows_def
  by (auto simp: refl case_prod_unfold Let_def intro: trans split: sum.split option.split list.split store_error.split)

lemma u_grows_rules [grow_intros]:
  "u_grows (spine c)" "u_grows (incr upd)" "u_grows (\<lambda>sv. sv\<lparr>sv_metrics := f (sv_metrics sv)\<rparr>)"
  by (simp_all add: u_grows_def refl spine_def incr_def sdb_def)

lemma incrs_grow [grow_intros]: "u_grows (\<lambda>sv. (incr upd ^^ n) sv)"
  by (simp add: u_grows_def refl)

lemma on_store_grows [grow_intros]: "w_grows f \<Longrightarrow> s_grows (on_store f)"
  by (simp add: w_grows_def s_grows_def on_store_def case_prod_unfold Let_def sdb_def)

lemma read_clock_grows [grow_intros]: "w_grows read_clock"
  by (simp add: w_grows_def read_clock_def refl)

lemma call_grows: "(\<And>s c. snd (f s c) = apply_op J sha op s c) \<Longrightarrow> w_grows (call f)"
  by (simp add: w_grows_def call_def case_prod_unfold Let_def step)

lemma store_calls_grow [grow_intros]:
  assumes "sqlite_backed X st"
  shows "w_grows (st_create_run (tl_store st) ns new)" "w_grows (st_append (tl_store st) ns i ev key)"
    "w_grows (st_seal (tl_store st) ns i)" "w_grows (st_redact (tl_store st) ns i seq fs a)"
    "w_grows (st_put_checkpoint (tl_store st) ns cp)" "w_grows (st_get_run (tl_store st) ns i)"
    "w_grows (st_events (tl_store st) ns i start limit)" "w_grows (st_latest_checkpoint (tl_store st) ns i)"
    "w_grows (st_list_runs (tl_store st) ns q)"
proof -
  show "w_grows (st_create_run (tl_store st) ns new)" "w_grows (st_append (tl_store st) ns i ev key)"
    "w_grows (st_seal (tl_store st) ns i)" "w_grows (st_redact (tl_store st) ns i seq fs a)"
    "w_grows (st_put_checkpoint (tl_store st) ns cp)" "w_grows (st_get_run (tl_store st) ns i)"
    "w_grows (st_events (tl_store st) ns i start limit)" "w_grows (st_latest_checkpoint (tl_store st) ns i)"
    unfolding sqlite_calls[OF assms]
    by (rule call_grows, rule apply_op.simps[symmetric])+
  show "w_grows (st_list_runs (tl_store st) ns q)"
    unfolding sqlite_calls[OF assms] by (simp add: w_grows_def call_def case_prod_unfold Let_def refl)
qed

lemma gate_ops_grow:
  assumes "sqlite_backed X st"
  shows "w_grows (request (tl_json st) (tl_store st) ns i action t)"
    "w_grows (resolve (tl_json st) (tl_store st) ns i seq d reviewer who attested note)"
proof -
  have app: "w_grows (append_seq (tl_store st) ns i ev)" for ev
    unfolding append_seq_def by (intro grow_intros store_calls_grow[OF assms])
  show "w_grows (request (tl_json st) (tl_store st) ns i action t)"
    unfolding request_def by (rule app)
  show "w_grows (resolve (tl_json st) (tl_store st) ns i seq d reviewer who attested note)"
    unfolding resolve_def by (intro grow_intros app store_calls_grow[OF assms])
qed

lemma expire_loop_grows:
  "sqlite_backed X st \<Longrightarrow> w_grows (expire_loop (tl_json st) (tl_store st) ns i seqs k)"
proof (induction seqs arbitrary: k)
  case Nil
  show ?case by (simp add: w_grows_def refl)
next
  case (Cons t seqs)
  have "expire_loop (tl_json st) (tl_store st) ns i (t # seqs) k = (\<lambda>w.
     case resolve (tl_json st) (tl_store st) ns i t Expired None None False
            (Some ''no decision before expiry'') w of
       (Inl e, w) \<Rightarrow> (Inl e, w)
     | (Inr _, w) \<Rightarrow> expire_loop (tl_json st) (tl_store st) ns i seqs (k + 1) w)" by (rule ext) simp
  then show ?case
    by (simp only:) (intro grow_intros gate_ops_grow(2)[OF Cons.prems] Cons.IH Cons.prems)
qed

lemma expire_lapsed_in_grows:
  "sqlite_backed X st \<Longrightarrow> w_grows (expire_lapsed_in (tl_json st) (tl_store st) ns i events now)"
  unfolding expire_lapsed_in_def Let_def by (intro grow_intros expire_loop_grows)

section \<open>Handlers\<close>

lemma publish_head_grows: "sqlite_backed X st \<Longrightarrow> u_grows (\<lambda>sv. publish_head st ns i seq sv)"
  by (simp add: u_grows_def refl)

lemma write_checkpoint_grows:
  assumes "sqlite_backed X st"
  shows "s_grows (write_checkpoint st ns i seq h)"
  unfolding write_checkpoint_def
  by (simp only: Let_def[of "sign_head _ _ _ _ _ _ _"]) (intro grow_intros store_calls_grow[OF assms])

lemma maybe_checkpoint_grows:
  "sqlite_backed X st \<Longrightarrow> u_grows (\<lambda>sv. maybe_checkpoint st ns i seq h sv)"
  using write_checkpoint_grows[of X st ns i seq h]
  by (auto simp: u_grows_def s_grows_def maybe_checkpoint_def refl)

lemma expire_then_read_grows:
  assumes "sqlite_backed X st"
  shows "s_grows (expire_then_read st ns i)"
proof -
  have "s_grows (\<lambda>sv. on_store (st_events (tl_store st) ns i 0 5000) ((incr m_gates_expired_update ^^ n) sv))" for n
    using on_store_grows[OF store_calls_grow(7)[OF assms], of ns i 0 5000] incrs_grow[of n m_gates_expired_update]
    unfolding s_grows_def u_grows_def by (blast intro: trans)
  then show ?thesis
    unfolding expire_then_read_def
    by (intro grow_intros store_calls_grow[OF assms] expire_lapsed_in_grows[OF assms])
qed

lemma record_handlers_grow:
  assumes "sqlite_backed X st"
  shows "s_grows (h_create_run st h body)" "s_grows (h_list_runs st q h)" "s_grows (h_get_run st i h)"
    "s_grows (h_append_event st i h body)" "s_grows (h_list_events st i eq h)" "s_grows (h_complete_run st i h)"
    "s_grows (h_get_checkpoint st i h)" "s_grows (h_redact st i h body)"
  unfolding h_create_run_def h_list_runs_def h_get_run_def h_append_event_def h_list_events_def
    h_complete_run_def h_get_checkpoint_def h_redact_def
  by (intro grow_intros store_calls_grow[OF assms] publish_head_grows[OF assms] maybe_checkpoint_grows[OF assms]
      write_checkpoint_grows[OF assms])+

lemma gate_handlers_grow:
  assumes "sqlite_backed X st"
  shows "s_grows (h_create_approval st i h body)" "s_grows (h_list_approvals st i h)" "s_grows (h_get_approval st i seq h)"
  unfolding h_create_approval_def h_list_approvals_def h_get_approval_def expiry_of_def
  by (intro grow_intros store_calls_grow[OF assms] publish_head_grows[OF assms] gate_ops_grow[OF assms]
      expire_then_read_grows[OF assms])+

lemma resolve_approval_grows:
  assumes "sqlite_backed X st"
  shows "s_grows (h_resolve_approval st i seq h body)"
proof -
  have "u_grows (\<lambda>sv. case d of Approved \<Rightarrow> incr m_gates_approved_update sv
      | Rejected \<Rightarrow> incr m_gates_rejected_update sv | Expired \<Rightarrow> incr m_gates_expired_update sv)" for d
    by (cases d) (simp_all add: u_grows_rules)
  then show ?thesis
    unfolding h_resolve_approval_def
    by (simp only: Let_def[of "reviewer_principal_of _ _"] Let_def[of "_ \<noteq> _"])
      (intro grow_intros publish_head_grows[OF assms] gate_ops_grow[OF assms])
qed

lemma serve_grows:
  assumes "sqlite_backed X st"
  shows "le (sdb sv) (sdb (snd (serve st req sv)))"
  using record_handlers_grow[OF assms] gate_handlers_grow[OF assms] resolve_approval_grows[OF assms]
  by (cases req) (simp_all add: s_grows_def refl)

lemma serve_all_grows:
  "sqlite_backed X st \<Longrightarrow> le (sdb sv) (sdb (serve_all st reqs sv))"
proof (induction reqs arbitrary: sv)
  case (Cons req reqs)
  then show ?case using serve_grows[OF Cons.prems, of sv req] by (auto simp: serve_all_def intro: trans)
qed (simp add: serve_all_def refl)

end


section \<open>Rows are only added\<close>

text \<open>What redaction and sealing leave of an event and of a run.\<close>

definition event_ident :: "event_row \<Rightarrow> (string \<times> string \<times> u64 \<times> u64 \<times> string) \<times> u8 list \<times> u8 list" where
  "event_ident r = ((er_ns r, er_run_id r, er_seq r, er_ts r, er_kind r), er_prev_hash r, er_hash r)"

definition run_ident :: "run_row \<Rightarrow> string \<times> string \<times> u64 \<times> string \<times> string \<times> string option \<times> string" where
  "run_ident r = (rr_ns r, rr_run_id r, rr_started_ts r, rr_agent_name r, rr_agent_version r, rr_subject_ref r, rr_labels r)"

definition rows_kept :: "db \<Rightarrow> db \<Rightarrow> bool" where
  "rows_kept c d \<longleftrightarrow> prefix (map event_ident (db_events c)) (map event_ident (db_events d)) \<and>
     prefix (map run_ident (db_runs c)) (map run_ident (db_runs d)) \<and> prefix (db_idem c) (db_idem d)"

lemma rows_kept_refl [simp]: "rows_kept c c"
  by (simp add: rows_kept_def)

lemma rows_kept_trans: "rows_kept a b \<Longrightarrow> rows_kept b d \<Longrightarrow> rows_kept a d"
  unfolding rows_kept_def by (blast intro: prefix_order.trans)

lemma map_ident_update: "(\<And>r. f (g r) = f r) \<Longrightarrow> map f (map (\<lambda>r. if P r then g r else r) rs) = map f rs"
  by (induction rs) auto

lemma update_event_kept:
  "(\<And>r. event_ident (g r) = event_ident r) \<Longrightarrow> rows_kept tx (update_event ns i seq g tx)"
  unfolding rows_kept_def update_event_def by (simp del: map_map add: map_ident_update)

lemma update_runs_kept:
  "(\<And>r. run_ident (g r) = run_ident r) \<Longrightarrow>
   rows_kept tx (tx\<lparr>db_runs := map (\<lambda>r. if P r then g r else r) (db_runs tx)\<rparr>)"
  unfolding rows_kept_def by (simp del: map_map add: map_ident_update)

lemma add_rows_kept:
  "rows_kept tx d \<Longrightarrow> rows_kept tx (d\<lparr>db_events := db_events d @ es\<rparr>)"
  "rows_kept tx d \<Longrightarrow> rows_kept tx (d\<lparr>db_runs := db_runs d @ rs\<rparr>)"
  "rows_kept tx d \<Longrightarrow> rows_kept tx (d\<lparr>db_idem := db_idem d @ ks\<rparr>)"
  "rows_kept tx d \<Longrightarrow> rows_kept tx (d\<lparr>db_checkpoints := cps\<rparr>)"
  unfolding rows_kept_def by (auto simp: prefix_def)

lemma write_event_kept: "write_event ns i seq ts k role name content md prev hash tx = Inr d \<Longrightarrow> rows_kept tx d"
proof -
  assume w: "write_event ns i seq ts k role name content md prev hash tx = Inr d"
  let ?t = "tx\<lparr>db_runs := map (\<lambda>r. if run_at ns i r then r\<lparr>rr_head_seq := seq, rr_head_hash := blob hash\<rparr> else r) (db_runs tx)\<rparr>"
  have "\<exists>row. d = ?t\<lparr>db_events := db_events ?t @ [row]\<rparr>"
    using w by (cases tx) (auto simp: write_event_def split: if_splits)
  moreover have "rows_kept tx ?t" by (rule update_runs_kept) (simp add: run_ident_def)
  then have "rows_kept tx (?t\<lparr>db_events := db_events ?t @ [row]\<rparr>)" for row by (rule add_rows_kept(1))
  ultimately show ?thesis by blast
qed

lemma append_in_tx_kept: "append_in_tx sha s ns i k role name content md tx = Inr (res, d) \<Longrightarrow> rows_kept tx d"
  by (auto simp: append_in_tx_def Let_def dest: write_event_kept split: sum.splits prod.splits)

lemma clear_column_ident [simp]: "event_ident (clear_column f r) = event_ident r"
  by (simp add: event_ident_def clear_column_def)

lemma redact_fields_kept: "rows_kept (snd kt) (snd (foldl (redact_field sha ns i seq row) kt fs))"
proof (induction fs arbitrary: kt)
  case (Cons f fs)
  have "rows_kept (snd kt) (snd (redact_field sha ns i seq row kt f))"
    by (cases kt) (auto simp: redact_field_def update_event_kept split: option.split)
  then show ?case using Cons.IH[of "redact_field sha ns i seq row kt f"] by (simp add: rows_kept_trans)
qed simp

lemma tx_call_kept:
  "(\<And>a tx. f c = Inr (a, tx) \<Longrightarrow> rows_kept c tx) \<Longrightarrow> rows_kept c (snd (with_conn (tx_immediate f s) s c))"
  using tx_call_cases[of f s c] by auto


lemma step_kept: "rows_kept c (apply_op J sha op s c)"
proof (cases op)
  case (OpCreate ns new)
  have "rows_kept c tx" if "create_run_tx J sha s ns new c = Inr (env, tx)" for env tx
    using that add_rows_kept(2)[OF rows_kept_refl]
    by (auto simp: create_run_tx_def Let_def split: if_splits sum.splits dest!: write_event_kept intro: rows_kept_trans)
  then show ?thesis by (simp add: OpCreate create_run_def tx_call_kept)
next
  case (OpAppend ns i ev key)
  have "rows_kept c tx" if "append_tx sha s ns i ev key c = Inr (res, tx)" for res tx
    using that by (auto simp: append_tx_def remember_def split: sum.splits prod.splits option.splits if_splits
        dest!: append_in_tx_kept intro: add_rows_kept(3))
  then have "rows_kept c (snd (end_tx s c (append_tx sha s ns i ev key c)))"
    using end_tx_cases[of s c "append_tx sha s ns i ev key c"] by auto
  then show ?thesis
    by (auto simp: OpAppend store_append_def with_conn_def split: fault.split sum.split option.split)
next
  case (OpSeal ns i)
  have "rows_kept c tx" if "seal_tx J sha s ns i c = Inr (res, tx)" for res tx
    using that
    by (auto simp: seal_tx_def Let_def split: sum.splits prod.splits dest!: append_in_tx_kept
        intro!: rows_kept_trans[OF _ update_runs_kept] simp: run_ident_def)
  then show ?thesis by (simp add: OpSeal seal_def tx_call_kept)
next
  case (OpRedact ns i seq fs a)
  have "rows_kept c tx" if red: "redact_tx J sha s ns i seq fs a c = Inr (res, tx)" for res tx
  proof -
    obtain row where row: "find (\<lambda>r. event_at ns i r \<and> er_seq r = seq) (db_events c) = Some row"
      using red by (auto simp: redact_tx_def split: option.splits)
    define kept where "kept = (case Option.bind (er_redacted row) (hashes_from_str J) of None \<Rightarrow> [] | Some m \<Rightarrow> m)"
    obtain k2 t2 where fold: "foldl (redact_field sha ns i seq row) (kept, c) fs = (k2, t2)" by force
    have t2: "rows_kept c t2" using redact_fields_kept[of "(kept, c)" sha ns i seq row fs] fold by simp
    have "rows_kept (update_event ns i seq (\<lambda>r. r\<lparr>er_redacted := Some (json_text J (json_of_hashes k2))\<rparr>) t2) tx"
      using red row fold kept_def by (auto simp: redact_tx_def Let_def dest: append_in_tx_kept)
    then show ?thesis
      by (intro rows_kept_trans[OF rows_kept_trans[OF t2 update_event_kept]]) (simp_all add: event_ident_def)
  qed
  then show ?thesis
    using tx_call_kept[of "redact_tx J sha s ns i seq fs a" c s]
    by (auto simp: OpRedact redact_def with_conn_def split: fault.splits option.split)
next
  case (OpPut ns cp)
  show ?thesis
    unfolding OpPut apply_op.simps put_checkpoint_def
    by (rule tx_call_kept) (use add_rows_kept(4)[OF rows_kept_refl] in auto)
qed simp_all

interpretation kept: db_order rows_kept
  by unfold_locales (auto intro: rows_kept_trans step_kept)


lemma rows_kept_keys: "rows_kept c d \<Longrightarrow> keeps_keys c d"
  unfolding rows_kept_def prefix_def by (blast intro: keeps_keys_append)

text \<open>
  C18: Nothing that was recorded goes away. Whatever requests a server answers, from whatever
  state of its database, with any clock and any fault of the store, every event row keeps its
  place, run, sequence number, time, kind and both hashes, every run keeps its identity,
  agent, subject and labels, and every idempotency key keeps its result.
\<close>

theorem recorded_rows_are_permanent:
  assumes "sqlite_backed X st"
  shows "rows_kept (sdb sv) (sdb (serve_all st reqs sv))"
  by (rule kept.serve_all_grows[OF assms])

theorem recorded_rows_are_permanent_witness:
  "rows_kept (sdb (demo_server demo_db)) (sdb (serve_all demo_state [AppendEvent ''loan'' demo_headers ''note'', CompleteRun ''loan'' demo_headers] (demo_server demo_db)))"
  by (rule recorded_rows_are_permanent[OF demo_state_simps(2)])

end
