(* ===== verification/Client.thy ===== *)
theory Client
  imports Gate_Wait Growth
begin

text \<open>
  The operations of the client, \<open>crates/tideline-sdk/src/client.rs\<close> and \<open>run.rs\<close>, over a network
  that carries a request to a server and its reply back, either of which may be lost. A path is
  the constructor of the request (the theory Router has the text of the paths). Bodies built by \<open>json!\<close> are their text; those a derived
  serialiser writes are parameters.
\<close>

record encoders =
  en_new_run :: "new_run \<Rightarrow> string"
  en_new_event :: "new_event \<Rightarrow> string"

record tideline =
  td_base :: string
  td_key :: "string option"

definition tideline_new :: "string \<Rightarrow> string option \<Rightarrow> tideline" where
  "tideline_new url key = \<lparr>td_base = rev (dropWhile (\<lambda>c. c = CHR ''/'') (rev url)), td_key = key\<rparr>"

definition tideline_req :: "tideline \<Rightarrow> headers" where
  "tideline_req c = \<lparr>h_authorization = map_option (\<lambda>k. ''Bearer '' @ k) (td_key c), h_idempotency_key = None\<rparr>"

record run_handle =
  rn_client :: tideline
  rn_id :: string

type_synonym 's network = "http_request \<Rightarrow> 's \<Rightarrow> http_reply \<times> 's"

definition exchange :: "'s network \<Rightarrow> (body \<Rightarrow> 'a option) \<Rightarrow> http_request \<Rightarrow> 's \<Rightarrow> (sdk_error + 'a) \<times> 's" where
  "exchange net decode req s = (case net req s of (r, s) \<Rightarrow> (sdk_send decode r, s))"

section \<open>Replies\<close>

text \<open>What each type is read from; a repaired completion answers an object of another shape.\<close>

definition run_body :: "body \<Rightarrow> run_envelope option" where
  "run_body b = (case b of RunBody e \<Rightarrow> Some e | _ \<Rightarrow> None)"

definition page_body :: "body \<Rightarrow> run_page option" where
  "page_body b = (case b of PageBody p \<Rightarrow> Some p | _ \<Rightarrow> None)"

definition json_u64 :: "json \<Rightarrow> string \<Rightarrow> u64 option" where
  "json_u64 v k = Option.bind (json_get v k) as_u64"

definition json_hash :: "json \<Rightarrow> string \<Rightarrow> hash option" where
  "json_hash v k = Option.bind (json_get v k) hash_deserialize"

definition appended_body :: "body \<Rightarrow> append_result option" where
  "appended_body b =
     (case b of
        ResultBody r \<Rightarrow> Some r
      | JsonBody v \<Rightarrow>
          (case (json_u64 v ''seq'', json_u64 v ''ts'', json_hash v ''prev_hash'', json_hash v ''hash'') of
             (Some seq, Some ts, Some prev, Some hash) \<Rightarrow>
               Some \<lparr>ar_seq = seq, ar_ts = ts, ar_prev_hash = prev, ar_hash = hash\<rparr>
           | _ \<Rightarrow> None)
      | _ \<Rightarrow> None)"

record opened_gate =
  og_seq :: u64
  og_expires_at :: u64

definition opened_body :: "body \<Rightarrow> opened_gate option" where
  "opened_body b =
     (case b of
        JsonBody v \<Rightarrow>
          (case (json_u64 v ''seq'', json_u64 v ''expires_at'') of
             (Some seq, Some t) \<Rightarrow> Some \<lparr>og_seq = seq, og_expires_at = t\<rparr>
           | _ \<Rightarrow> None)
      | _ \<Rightarrow> None)"

definition gates_body :: "body \<Rightarrow> sdk_gate list option" where
  "gates_body b = (case b of GatesBody gs \<Rightarrow> Some (map sdk_gate_of gs) | _ \<Rightarrow> None)"

definition checkpoint_body :: "body \<Rightarrow> checkpoint option" where
  "checkpoint_body b = (case b of CheckpointBody c \<Rightarrow> Some c | _ \<Rightarrow> None)"

definition json_body :: "body \<Rightarrow> json option" where
  "json_body b = (case b of JsonBody v \<Rightarrow> Some v | _ \<Rightarrow> None)"

section \<open>The client\<close>

definition send_start ::
  "encoders \<Rightarrow> 's network \<Rightarrow> tideline \<Rightarrow> new_run \<Rightarrow> 's \<Rightarrow> (sdk_error + run_handle) \<times> 's" where
  "send_start E net c body s =
     (case exchange net run_body (CreateRun (tideline_req c) (en_new_run E body)) s of
        (Inl e, s) \<Rightarrow> (Inl e, s)
      | (Inr env, s) \<Rightarrow> (Inr \<lparr>rn_client = c, rn_id = env_run_id env\<rparr>, s))"

definition client_list_runs :: "'s network \<Rightarrow> tideline \<Rightarrow> run_query \<Rightarrow> 's \<Rightarrow> (sdk_error + run_page) \<times> 's" where
  "client_list_runs net c q s = exchange net page_body (ListRuns q (tideline_req c)) s"

definition client_well_known :: "'s network \<Rightarrow> 's \<Rightarrow> (sdk_error + json) \<times> 's" where
  "client_well_known net s = exchange net json_body WellKnown s"

section \<open>A run\<close>

abbreviation rn_headers :: "run_handle \<Rightarrow> headers" where
  "rn_headers run \<equiv> tideline_req (rn_client run)"

definition run_envelope_of :: "'s network \<Rightarrow> run_handle \<Rightarrow> 's \<Rightarrow> (sdk_error + run_envelope) \<times> 's" where
  "run_envelope_of net run s = exchange net run_body (GetRun (rn_id run) (rn_headers run)) s"

definition record_with_key ::
  "encoders \<Rightarrow> 's network \<Rightarrow> run_handle \<Rightarrow> new_event \<Rightarrow> string option \<Rightarrow> 's \<Rightarrow> (sdk_error + append_result) \<times> 's" where
  "record_with_key E net run event key s =
     (let h = (case key of None \<Rightarrow> rn_headers run | Some k \<Rightarrow> (rn_headers run)\<lparr>h_idempotency_key := Some k\<rparr>)
      in exchange net appended_body (AppendEvent (rn_id run) h (en_new_event E event)) s)"

definition record_event ::
  "encoders \<Rightarrow> 's network \<Rightarrow> run_handle \<Rightarrow> new_event \<Rightarrow> 's \<Rightarrow> (sdk_error + append_result) \<times> 's" where
  "record_event E net run event = record_with_key E net run event None"

definition record_idempotent ::
  "encoders \<Rightarrow> 's network \<Rightarrow> run_handle \<Rightarrow> new_event \<Rightarrow> string \<Rightarrow> 's \<Rightarrow> (sdk_error + append_result) \<times> 's" where
  "record_idempotent E net run event key = record_with_key E net run event (Some key)"

definition open_gate ::
  "json_lib \<Rightarrow> 's network \<Rightarrow> run_handle \<Rightarrow> string \<Rightarrow> u64 \<Rightarrow> 's \<Rightarrow> (sdk_error + opened_gate) \<times> 's" where
  "open_gate J net run action expires_in s =
     exchange net opened_body (CreateApproval (rn_id run) (rn_headers run)
       (json_text J (json_norm (JObj [(''action'', JStr action), (''expires_in'', JNum expires_in)])))) s"

definition run_approval :: "'s network \<Rightarrow> run_handle \<Rightarrow> u64 \<Rightarrow> 's \<Rightarrow> (sdk_error + sdk_gate) \<times> 's" where
  "run_approval net run seq s = exchange net gate_body (GetApproval (rn_id run) seq (rn_headers run)) s"

definition run_approvals :: "'s network \<Rightarrow> run_handle \<Rightarrow> 's \<Rightarrow> (sdk_error + sdk_gate list) \<times> 's" where
  "run_approvals net run s = exchange net gates_body (ListApprovals (rn_id run) (rn_headers run)) s"

definition run_resolve ::
  "json_lib \<Rightarrow> 's network \<Rightarrow> run_handle \<Rightarrow> u64 \<Rightarrow> decision \<Rightarrow> string option \<Rightarrow> string option \<Rightarrow> 's
   \<Rightarrow> (sdk_error + unit) \<times> 's" where
  "run_resolve J net run seq d reviewer note s =
     (case exchange net json_body (ResolveApproval (rn_id run) seq (rn_headers run)
             (json_text J (json_norm (JObj
                [(''decision'', JStr (case d of Approved \<Rightarrow> ''approved'' | Rejected \<Rightarrow> ''rejected'' | Expired \<Rightarrow> ''expired'')),
                 (''reviewer'', json_of_opt reviewer), (''note'', json_of_opt note)])))) s of
        (Inl e, s) \<Rightarrow> (Inl e, s)
      | (Inr _, s) \<Rightarrow> (Inr (), s))"


definition run_checkpoint :: "'s network \<Rightarrow> run_handle \<Rightarrow> 's \<Rightarrow> (sdk_error + checkpoint option) \<times> 's" where
  "run_checkpoint net run s =
     (case exchange net checkpoint_body (GetCheckpoint (rn_id run) (rn_headers run)) s of
        (Inr cp, s) \<Rightarrow> (Inr (Some cp), s)
      | (Inl e, s) \<Rightarrow> if is_not_found e then (Inr None, s) else (Inl e, s))"

definition run_redact ::
  "json_lib \<Rightarrow> 's network \<Rightarrow> run_handle \<Rightarrow> u64 \<Rightarrow> string list \<Rightarrow> string \<Rightarrow> 's \<Rightarrow> (sdk_error + append_result) \<times> 's" where
  "run_redact J net run target_seq fs authority s =
     exchange net appended_body (Redact (rn_id run) (rn_headers run)
       (json_text J (json_norm (JObj [(''target_seq'', JNum target_seq), (''fields'', JArr (map JStr fs)),
          (''authority'', JStr authority)])))) s"


text \<open>Opening a gate and waiting for it.\<close>

definition run_gate ::
  "json_lib \<Rightarrow> 's network \<Rightarrow> nat \<Rightarrow> (nat \<Rightarrow> 's \<Rightarrow> 's) \<Rightarrow> run_handle \<Rightarrow> string \<Rightarrow> u64 \<Rightarrow> 's
   \<Rightarrow> ((sdk_error + resolution) \<times> 's) option" where
  "run_gate J net fuel sleep run action expires_in s =
     (case open_gate J net run action expires_in s of
        (Inl e, s) \<Rightarrow> Some (Inl e, s)
      | (Inr opened, s) \<Rightarrow> await_gate fuel (run_approval net run) sleep (og_seq opened) s)"

section \<open>A network\<close>

text \<open>What becomes of a request: it is answered, its reply is lost, or it never arrives.\<close>

datatype fate = Delivered | ReplyLost | NotSent

definition over :: "'s tlr_state \<Rightarrow> fate \<Rightarrow> 's server network" where
  "over st fate req sv =
     (case fate of
        Delivered \<Rightarrow> (case serve st req sv of (res, sv) \<Rightarrow> (Reply res, sv))
      | ReplyLost \<Rightarrow> (NoReply ''timed out'', snd (serve st req sv))
      | NotSent \<Rightarrow> (NoReply ''connection refused'', sv))"

text \<open>
  A caller that repeats a recording with one key, other requests being served before each
  attempt: its outcomes, and whether the attempt added an event to the tables.
\<close>

fun attempts ::
  "db tlr_state \<Rightarrow> encoders \<Rightarrow> run_handle \<Rightarrow> new_event \<Rightarrow> string \<Rightarrow> (http_request list \<times> fate) list \<Rightarrow> db server
   \<Rightarrow> ((sdk_error + append_result) \<times> bool) list \<times> db server" where
  "attempts st E run event key [] sv = ([], sv)"
| "attempts st E run event key ((others, fate) # rest) sv =
     (let sv0 = serve_all st others sv;
          (outcome, sv1) = record_idempotent E (over st fate) run event key sv0;
          (outcomes, sv2) = attempts st E run event key rest sv1
      in ((outcome, db_events (sdb sv1) \<noteq> db_events (sdb sv0)) # outcomes, sv2))"

section \<open>Repeating a recording\<close>

lemma maybe_checkpoint_tables:
  assumes "sqlite_backed X st"
  shows "db_events (sdb (maybe_checkpoint st ns i seq hh sv)) = db_events (sdb sv) \<and>
    db_idem (sdb (maybe_checkpoint st ns i seq hh sv)) = db_idem (sdb sv)"
proof -
  obtain ts s where "sdb (snd (write_checkpoint st ns i seq hh sv))
      = snd (put_checkpoint ns (sign_head (tl_sha st) (tl_sig st) (tl_keys st) i seq hh ts) s (sdb sv))"
    using write_checkpoint_sdb[OF assms] by blast
  then show ?thesis
    using put_rows[of ns "sign_head (tl_sha st) (tl_sig st) (tl_keys st) i seq hh ts" s "sdb sv"]
    by (auto simp: maybe_checkpoint_def)
qed

lemma prior_of_idem: "db_idem d = db_idem c \<Longrightarrow> prior_of ns i key d = prior_of ns i key c"
  by (simp add: prior_of_def cong: option.case_cong)

text \<open>One attempt that reaches the server.\<close>

lemma keyed_append:
  assumes X: "sqlite_server X st" and ok: "sv_ok st B (Suc n) sv" and auth: "authorize st h True = Inr ns"
    and key: "h_idempotency_key h = Some key" and run: "h_append_event st i h body sv = (res, sv')"
  shows "sdk_send appended_body (Reply res) = Inr r \<Longrightarrow> prior_of ns i (Some key) (sdb sv') = Some (Inr r)"
    and "prior_of ns i (Some key) (sdb sv) = Some p \<Longrightarrow> db_events (sdb sv') = db_events (sdb sv)"
    and "db_events (sdb sv') \<noteq> db_events (sdb sv) \<Longrightarrow> \<exists>r. prior_of ns i (Some key) (sdb sv') = Some (Inr r)"
proof -
  note B = sqlite_serverD(1)[OF X]
  note inv = server_okD[OF ok[unfolded sv_ok_def]]
  have "(sdk_send appended_body (Reply res) = Inr r \<longrightarrow> prior_of ns i (Some key) (sdb sv') = Some (Inr r)) \<and>
    (prior_of ns i (Some key) (sdb sv) = Some p \<longrightarrow> db_events (sdb sv') = db_events (sdb sv)) \<and>
    (db_events (sdb sv') \<noteq> db_events (sdb sv) \<longrightarrow> (\<exists>r. prior_of ns i (Some key) (sdb sv') = Some (Inr r)))" for r p
  proof (cases "\<exists>ev. valid_id i \<and> de_new_event (tl_codec st) body = Inr ev \<and> \<not> structural (ne_kind ev)")
    case True
    then obtain ev where ev: "valid_id i" "de_new_event (tl_codec st) body = Inr ev" "\<not> structural (ne_kind ev)" by blast
    obtain r0 sv1 where call: "on_store (st_append (tl_store st) ns i ev (Some key)) sv = (r0, sv1)" by force
    have app: "store_append (tl_sha st) ns i ev (Some key) (snow sv) (sdb sv) = (r0, sdb sv1)"
      using on_store_op[OF call[unfolded sqlite_calls[OF B]]] .
    note cases = append_cases[OF inv(3,4), of ns i ev "Some key" "snow sv", unfolded app]
    show ?thesis
    proof (cases r0)
      case (Inl e)
      then have "res = err e" "sdb sv' = sdb sv1"
        using run auth key ev call by (auto simp: h_append_event_def)
      moreover have "sdb sv1 = sdb sv" using cases Inl by (auto simp: Let_def)
      moreover have "\<not> rs_status (err e) < 300" using err_status_high[of e] by linarith
      ultimately show ?thesis by (simp add: sdk_send_def)
    next
      case (Inr res0)
      let ?sv2 = "publish_head st ns i (ar_seq res0) (incr m_events_appended_update sv1)"
      have out: "res = respond 200 (ResultBody res0)" "sv' = maybe_checkpoint st ns i (ar_seq res0) (ar_hash res0) ?sv2"
        using run auth key ev call Inr by (auto simp: h_append_event_def Let_def)
      have tabs: "db_events (sdb sv') = db_events (sdb sv1)" "db_idem (sdb sv') = db_idem (sdb sv1)"
        using maybe_checkpoint_tables[OF B, of ns i "ar_seq res0" "ar_hash res0" ?sv2] by (simp_all add: out(2) sdb_publish_head[OF B])
      have "prior_of ns i (Some key) (sdb sv1) = Some (Inr res0)"
        using append_remembers[OF inv(3,4)] app Inr by blast
      moreover have "db_events (sdb sv1) = db_events (sdb sv)" if "prior_of ns i (Some key) (sdb sv) = Some p"
        using cases that Inr by auto
      moreover have "sdk_send appended_body (Reply res) = Inr res0"
        by (simp add: out(1) sdk_send_def respond_def appended_body_def)
      ultimately show ?thesis using tabs prior_of_idem[OF tabs(2)] by auto
    qed
  next
    case False
    then have "sv' = sv" "\<exists>m. res = bad m"
      using run auth by (auto simp: h_append_event_def split: sum.splits if_splits)
    then show ?thesis by (auto simp: sdk_send_def bad_def respond_def)
  qed
  then show "sdk_send appended_body (Reply res) = Inr r \<Longrightarrow> prior_of ns i (Some key) (sdb sv') = Some (Inr r)"
    and "prior_of ns i (Some key) (sdb sv) = Some p \<Longrightarrow> db_events (sdb sv') = db_events (sdb sv)"
    and "db_events (sdb sv') \<noteq> db_events (sdb sv) \<Longrightarrow> \<exists>r. prior_of ns i (Some key) (sdb sv') = Some (Inr r)"
    by blast+
qed


fun attempts_cost :: "(http_request list \<times> fate) list \<Rightarrow> nat" where
  "attempts_cost [] = 0"
| "attempts_cost ((others, fate) # rest) = 5000 * length others + 1 + attempts_cost rest"

definition run_key :: "run_handle \<Rightarrow> string \<Rightarrow> headers" where
  "run_key run key = (rn_headers run)\<lparr>h_idempotency_key := Some key\<rparr>"

text \<open>An attempt, whatever becomes of it.\<close>

lemma attempt_step:
  assumes X: "sqlite_server X st" and ok: "sv_ok st B (Suc n) sv" and auth: "authorize st (run_key run key) True = Inr ns"
    and run: "record_idempotent E (over st fate) run event key sv = (outcome, sv')"
  shows "sv_ok st B n sv' \<and> rows_kept (sdb sv) (sdb sv') \<and>
    (outcome = Inr r \<longrightarrow> prior_of ns (rn_id run) (Some key) (sdb sv') = Some (Inr r)) \<and>
    (prior_of ns (rn_id run) (Some key) (sdb sv) = Some p \<longrightarrow> db_events (sdb sv') = db_events (sdb sv)) \<and>
    (db_events (sdb sv') \<noteq> db_events (sdb sv) \<longrightarrow> prior_of ns (rn_id run) (Some key) (sdb sv') \<noteq> None)"
proof (cases "fate = NotSent")
  case True
  then have "sv' = sv" "outcome = Inl (Transport ''connection refused'')"
    using run by (simp_all add: record_idempotent_def record_with_key_def exchange_def over_def sdk_send_def)
  then show ?thesis using sv_ok_Suc[OF ok] by simp
next
  case False
  let ?body = "en_new_event E event"
  obtain res sv2 where step: "h_append_event st (rn_id run) (run_key run key) ?body sv = (res, sv2)" by force
  have sv': "sv' = sv2" and outcome: "outcome = Inr r \<longrightarrow> sdk_send appended_body (Reply res) = Inr r"
    using run False step
    by (cases fate; simp add: record_idempotent_def record_with_key_def exchange_def over_def run_key_def sdk_send_def;
        auto)+
  note step = step[folded sv']
  have "rows_kept (sdb sv) (sdb sv')"
    using kept.serve_grows[OF sqlite_serverD(1)[OF X], of sv "AppendEvent (rn_id run) (run_key run key) ?body"] step by simp
  moreover have "sv_ok st B n sv'" using append_event_ok[OF X ok] step by (metis snd_conv)
  moreover have "h_idempotency_key (run_key run key) = Some key" by (simp add: run_key_def)
  note K = keyed_append[OF X ok auth this step]
  ultimately show ?thesis using K(1)[of r] K(2)[of p] K(3) outcome by auto
qed

lemma attempts_keyed:
  assumes X: "sqlite_server X st" and auth: "authorize st (run_key run key) True = Inr ns"
  shows "sv_ok st B (n + attempts_cost tries) sv \<Longrightarrow> attempts st E run event key tries sv = (outs, sv') \<Longrightarrow>
    sv_ok st B n sv' \<and> rows_kept (sdb sv) (sdb sv') \<and>
    (\<forall>r. Inr r \<in> fst ` set outs \<longrightarrow> prior_of ns (rn_id run) (Some key) (sdb sv') = Some (Inr r)) \<and>
    length (filter snd outs) \<le> (if prior_of ns (rn_id run) (Some key) (sdb sv) = None then 1 else 0)"
proof (induction tries arbitrary: sv outs)
  case (Cons t tries)
  note B = sqlite_serverD(1)[OF X]
  let ?prior = "\<lambda>sv. prior_of ns (rn_id run) (Some key) (sdb sv)"
  obtain others fate where t: "t = (others, fate)" by (cases t)
  define sv0 where "sv0 = serve_all st others sv"
  obtain outcome sv1 where one: "record_idempotent E (over st fate) run event key sv0 = (outcome, sv1)" by force
  obtain outs1 where rest: "attempts st E run event key tries sv1 = (outs1, sv')"
    and outs: "outs = (outcome, db_events (sdb sv1) \<noteq> db_events (sdb sv0)) # outs1"
    using Cons.prems(2) one by (auto simp: t sv0_def[symmetric] Let_def split: prod.splits)
  have ok0: "sv_ok st B (Suc (n + attempts_cost tries)) sv0"
    unfolding sv0_def using Cons.prems(1) by (intro serve_all_ok[OF X]) (simp add: t algebra_simps)
  note step = attempt_step[OF X ok0 auth one]
  have k0: "rows_kept (sdb sv) (sdb sv0)" unfolding sv0_def by (rule kept.serve_all_grows[OF B])
  have k1: "rows_kept (sdb sv0) (sdb sv1)" and ok1: "sv_ok st B (n + attempts_cost tries) sv1"
    using step by blast+
  note IH = Cons.IH[OF ok1 rest]
  then have k2: "rows_kept (sdb sv1) (sdb sv')" by blast
  have keep: "?prior b = Some p" if "rows_kept (sdb a) (sdb b)" "?prior a = Some p" for a b p
    using rows_kept_keys[OF that(1)] that(2) by (simp add: keeps_keys_def)
  have "length (filter snd outs) \<le> (if ?prior sv = None then 1 else 0)"
  proof (cases "db_events (sdb sv1) = db_events (sdb sv0)")
    case True
    moreover have "?prior sv \<noteq> None \<longrightarrow> ?prior sv1 \<noteq> None" using keep[OF rows_kept_trans[OF k0 k1]] by auto
    ultimately show ?thesis using IH by (auto simp: outs split: if_splits)
  next
    case False
    then have "?prior sv1 \<noteq> None" using step by blast
    moreover have "?prior sv0 = None" using step False by (cases "?prior sv0") auto
    moreover from this have "?prior sv = None" using keep[OF k0] by (cases "?prior sv") auto
    ultimately show ?thesis using IH False by (auto simp: outs)
  qed
  moreover have "?prior sv' = Some (Inr r)" if "Inr r \<in> fst ` set outs" for r
    using that IH step keep[OF k2] by (auto simp: outs)
  ultimately show ?case using IH rows_kept_trans[OF rows_kept_trans[OF k0 k1] k2] by blast
qed simp

text \<open>
  C12: Repeating a recording does not duplicate evidence. A caller may send one event with one
  idempotency key any number of times, while other clients send any requests, the network
  loses requests and replies and the store fails at any point: at most one of the attempts
  adds an event, every attempt that succeeds is told the same result, and the result names an
  event of the record by its number and hash.
\<close>

theorem retries_record_once:
  assumes "sqlite_server X st" and "authorize st (run_key run key) True = Inr ns"
    and "sv_ok st B (attempts_cost tries) sv" and "attempts st E run event key tries sv = (outs, sv')"
  shows "length (filter snd outs) \<le> 1 \<and>
    (\<forall>r r'. Inr r \<in> fst ` set outs \<longrightarrow> Inr r' \<in> fst ` set outs \<longrightarrow> r = r') \<and>
    (\<forall>r. Inr r \<in> fst ` set outs \<longrightarrow> commits_to (srecord st ns (rn_id run) sv') (ar_seq r) (ar_hash r))"
proof -
  have "sv_ok st B (0 + attempts_cost tries) sv" using assms(3) by simp
  note K = attempts_keyed[OF assms(1,2) this assms(4)]
  then have "commits_to (srecord st ns (rn_id run) sv') (ar_seq r) (ar_hash r)" if "Inr r \<in> fst ` set outs" for r
    using that prior_commits[of _ _ _ _ B 0 "sdb sv'"] unfolding sv_ok_def srecord_def by blast
  moreover have "r = r'" if "Inr r \<in> fst ` set outs" "Inr r' \<in> fst ` set outs" for r r'
    using K that by (metis option.inject sum.inject(2))
  moreover have "length (filter snd outs) \<le> 1" using K by (auto split: if_splits)
  ultimately show ?thesis by blast
qed


section \<open>Completing a run on the repair path\<close>



section \<open>The types of replies\<close>

text \<open>What the client reads a successful reply to a request as.\<close>

fun readable :: "http_request \<Rightarrow> body \<Rightarrow> bool" where
  "readable WellKnown b \<longleftrightarrow> json_body b \<noteq> None"
| "readable (CreateRun h body) b \<longleftrightarrow> run_body b \<noteq> None"
| "readable (ListRuns q h) b \<longleftrightarrow> page_body b \<noteq> None"
| "readable (GetRun i h) b \<longleftrightarrow> run_body b \<noteq> None"
| "readable (AppendEvent i h body) b \<longleftrightarrow> appended_body b \<noteq> None"
| "readable (ListEvents i q h) b \<longleftrightarrow> events_body b \<noteq> None"
| "readable (CompleteRun i h) b \<longleftrightarrow> appended_body b \<noteq> None"
| "readable (GetCheckpoint i h) b \<longleftrightarrow> checkpoint_body b \<noteq> None"
| "readable (CreateApproval i h body) b \<longleftrightarrow> opened_body b \<noteq> None"
| "readable (ListApprovals i h) b \<longleftrightarrow> gates_body b \<noteq> None"
| "readable (GetApproval i seq h) b \<longleftrightarrow> gate_body b \<noteq> None"
| "readable (ResolveApproval i seq h body) b \<longleftrightarrow> json_body b \<noteq> None"
| "readable (Redact i h body) b \<longleftrightarrow> appended_body b \<noteq> None"

definition repaired_reply :: "body \<Rightarrow> bool" where
  "repaired_reply b \<longleftrightarrow> (case b of JsonBody v \<Rightarrow> json_get v ''repaired'' = Some (JBool True) | _ \<Rightarrow> False)"

lemmas reply_defs = run_body_def page_body_def appended_body_def events_body_def checkpoint_body_def gates_body_def
  gate_body_def json_body_def

lemma refusals_high [simp]:
  "authorize st h wr = Inl r \<Longrightarrow> rs_status r = 401" "rs_status (bad m) = 400" "rs_status (respond n b) = n" "rs_body (respond n b) = b"
  by (auto simp: authorize_def respond_def bad_def split: access.splits)

lemma not_err: "rs_status (err e) < 300 \<Longrightarrow> False"
  using err_status_high[of e] by linarith

lemma opened_reply: "opened_body (JsonBody (json_norm (JObj [(''seq'', JNum seq), (''expires_at'', JNum t)]))) \<noteq> None"
  by (simp add: opened_body_def json_u64_def map_of_bt_of_list)

text \<open>
  C27: A successful reply has the type the client reads. Whatever the store behind the server
  does, a reply with a status below 300 to any request decodes as the type the client asks
  for, with one exception: the reply to a completion that repaired a checkpoint.
\<close>

theorem replies_have_their_type:
  assumes "serve st req sv = (res, sv')" and "rs_status res < 300"
  shows "readable req (rs_body res) \<or> (\<exists>i h. req = CompleteRun i h \<and> repaired_reply (rs_body res))"
proof (cases req)
  case (CompleteRun i h)
  then show ?thesis
    using assms
    by (auto simp: h_complete_run_def Let_def reply_defs repaired_reply_def map_of_bt_of_list
        split: sum.splits prod.splits if_splits option.splits store_error.splits dest: not_err)
next
  case (CreateApproval i h body)
  then show ?thesis
    using assms opened_reply
    by (auto simp: h_create_approval_def Let_def
        split: sum.splits prod.splits if_splits option.splits dest: not_err simp del: json_norm.simps)
next
  case (ResolveApproval i seq h body)
  then show ?thesis
    using assms
    by (auto simp: h_resolve_approval_def Let_def reply_defs
        split: sum.splits prod.splits if_splits option.splits decision.splits dest: not_err simp del: json_norm.simps)
qed (use assms in \<open>auto simp: h_create_run_def h_list_runs_def h_get_run_def h_append_event_def h_list_events_def
      h_get_checkpoint_def h_list_approvals_def h_get_approval_def h_redact_def Let_def reply_defs
      split: sum.splits prod.splits if_splits option.splits dest: not_err\<close>)

section \<open>Examples\<close>

definition demo_run :: run_handle where
  "demo_run = \<lparr>rn_client = tideline_new ''http://localhost:8080/'' (Some ''key''), rn_id = ''loan''\<rparr>"

definition demo_encoders :: encoders where
  "demo_encoders = \<lparr>en_new_run = (\<lambda>_. ''run''), en_new_event = (\<lambda>_. ''note'')\<rparr>"

lemma demo_run_simps [simp]:
  "rn_id demo_run = ''loan''" "rn_headers demo_run = demo_headers"
  by (simp_all add: demo_run_def tideline_new_def tideline_req_def demo_headers_def)

lemma demo_keyed_authorize: "authorize demo_state (run_key demo_run key) True = Inr ''acme''"
  by (simp add: run_key_def authorize_def access_for_def demo_state_def demo_headers_def bearer_def
      strip_bearer_def tenant_of_def resolve_read_def Let_def)

theorem retries_record_once_witness:
  "length (filter snd (fst (attempts demo_state demo_encoders demo_run demo_note ''k2''
     [([], ReplyLost), ([], Delivered), ([], Delivered)] (demo_server demo_db)))) \<le> 1"
proof -
  have "sv_ok demo_state empty_db (attempts_cost [([], ReplyLost), ([], Delivered), ([], Delivered)]) (demo_server demo_db)"
    using server_ok_less[OF demo_server_ok, of 3] by (simp add: sv_ok_def eval_nat_numeral)
  then show ?thesis
    using retries_record_once[OF demo_state_simps(1) demo_keyed_authorize _ surjective_pairing] by blast
qed




theorem replies_have_their_type_witness:
  "readable (CompleteRun ''loan'' demo_headers) (rs_body (fst (serve demo_state (CompleteRun ''loan'' demo_headers) demo_open))) \<or>
   repaired_reply (rs_body (fst (serve demo_state (CompleteRun ''loan'' demo_headers) demo_open)))"
  using replies_have_their_type[OF surjective_pairing, of demo_state "CompleteRun ''loan'' demo_headers" demo_open]
    complete_run_succeeds[OF demo_state_simps(1) demo_open_ok demo_open_facts(1) demo_authorize demo_open_facts(3,2)]
  by auto

end
