(* ===== verification/Paging.thy ===== *)
theory Paging
  imports Client
begin

text \<open>
  Listing the runs of a tenant page by page: \<open>list_runs\<close> of the store and of the client, each
  page asked for with the cursor of the one before. The order is newest first; a cursor names the
  last run of a page by its start and id, so runs that appear between two pages move nothing.
\<close>

section \<open>The order of a listing\<close>

type_synonym place = "u64 \<times> string"

definition place_of :: "run_row \<Rightarrow> place" where
  "place_of r = (rr_started_ts r, rr_run_id r)"

definition env_place :: "run_envelope \<Rightarrow> place" where
  "env_place env = (env_started_ts env, env_run_id env)"

fun listed_before :: "place \<Rightarrow> place \<Rightarrow> bool" where
  "listed_before (t, i) (u, j) \<longleftrightarrow> sint u < sint t \<or> (sint u = sint t \<and> i < j)"

lemma listed_before_trans: "listed_before a b \<Longrightarrow> listed_before b c \<Longrightarrow> listed_before a c"
  by (cases a; cases b; cases c) auto

lemma listed_before_irrefl [simp]: "\<not> listed_before a a"
  by (cases a) simp

lemma after_key_place: "after_key (sint (rr_started_ts r)) (rr_run_id r) s \<longleftrightarrow> listed_before (place_of r) (place_of s)"
  by (simp add: after_key_def place_of_def)

lemma listed_distinct: "sorted_wrt listed_before ps \<Longrightarrow> distinct ps"
  by (induction ps) auto

abbreviation rows_listed :: "run_row list \<Rightarrow> bool" where
  "rows_listed rs \<equiv> sorted_wrt (\<lambda>r s. listed_before (place_of r) (place_of s)) rs"

lemma insort_listed:
  assumes "rows_listed rs" and "\<forall>s \<in> set rs. rr_run_id r < rr_run_id s"
  shows "rows_listed (insort_key (\<lambda>r. - sint (rr_started_ts r)) r rs)"
  using assms
proof (induction rs)
  case (Cons s rs)
  then show ?case
    by (auto simp: set_insort_key place_of_def)
qed simp

lemma sort_listed:
  "sorted_wrt (\<lambda>r s. rr_run_id r < rr_run_id s) rs \<Longrightarrow>
   rows_listed (sort_key (\<lambda>r. - sint (rr_started_ts r)) rs)"
  by (induction rs) (simp_all add: insort_listed)

lemma set_order_runs [simp]: "set (order_runs rs) = set rs"
  by (simp add: order_runs_def)

lemma order_runs_listed:
  assumes "distinct (map rr_run_id rs)"
  shows "rows_listed (order_runs rs)"
proof -
  have "distinct (map rr_run_id (sort_key rr_run_id rs))"
    using assms by (simp add: distinct_map)
  then have "sorted_wrt (<) (map rr_run_id (sort_key rr_run_id rs))"
    by (simp add: strict_sorted_iff)
  then show ?thesis
    unfolding order_runs_def by (intro sort_listed) (simp add: sorted_wrt_map)
qed

section \<open>One page\<close>

definition selects :: "json_extract \<Rightarrow> string \<Rightarrow> run_query \<Rightarrow> run_row \<Rightarrow> bool" where
  "selects X ns q r \<longleftrightarrow> rr_ns r = ns \<and> agent_clause q r \<and> since_clause q r \<and>
     (case label_clause X q of Inl e \<Rightarrow> False | Inr labelled \<Rightarrow> labelled r)"

definition page_limit :: "run_query \<Rightarrow> nat" where
  "page_limit q = unat (clamp 1 500 (case rq_limit q of None \<Rightarrow> 50 | Some l \<Rightarrow> l))"

lemma page_limit_pos: "0 < page_limit q"
  by (auto simp: page_limit_def clamp_def unat_gt_0 split: option.split)

lemma read_rows_Inr:
  "read_rows J rs = Inr envs \<Longrightarrow> list_all2 (\<lambda>r env. row_to_envelope J r = Inr env) rs envs"
  by (induction rs arbitrary: envs) (auto split: sum.splits)

lemma row_to_envelope_place: "row_to_envelope J r = Inr env \<Longrightarrow> env_place env = place_of r"
  by (auto simp: row_to_envelope_def env_place_def place_of_def split: sum.splits)

lemma read_rows_places:
  assumes "read_rows J rs = Inr envs"
  shows "map env_place envs = map place_of rs"
  using read_rows_Inr[OF assms]
  by (induction rule: list_all2_induct) (auto dest: row_to_envelope_place)

text \<open>Where a page starts: at the front, or after a run.\<close>

fun beyond :: "place option \<Rightarrow> place \<Rightarrow> bool" where
  "beyond None p \<longleftrightarrow> True"
| "beyond (Some b) p \<longleftrightarrow> listed_before b p"

definition cursor_text :: "place \<Rightarrow> string" where
  "cursor_text p = dec (fst p) @ '':'' @ snd p"

lemma cursor_of_place: "cursor_of env = cursor_text (env_place env)"
  by (simp add: cursor_of_def cursor_text_def env_place_def)

lemma cursor_clause_place:
  assumes "rq_cursor q = map_option cursor_text from" and "\<forall>b. from = Some b \<longrightarrow> 0 \<le> sint (fst b)"
  shows "cursor_clause q = Inr (\<lambda>r. beyond from (place_of r))"
proof (cases "from")
  case (Some b)
  have "CHR '':'' \<notin> set (dec (fst b))"
    using dec_nat_digits[of "CHR '':''" "unat (fst b)"] by (auto simp: dec_def char_digit_def)
  then show ?thesis
    using assms Some parse_i64_dec[of "fst b"]
    by (cases b) (auto simp: cursor_clause_def cursor_text_def split_once_append after_key_def place_of_def)
qed (use assms in \<open>simp add: cursor_clause_def\<close>)

text \<open>The rows still to be listed, in order.\<close>

definition remaining :: "json_extract \<Rightarrow> string \<Rightarrow> run_query \<Rightarrow> place option \<Rightarrow> db \<Rightarrow> run_row list" where
  "remaining X ns q from c = order_runs (filter (\<lambda>r. selects X ns q r \<and> beyond from (place_of r)) (db_runs c))"

lemma page_shape:
  assumes "list_runs J X ns q s c = (Inr page, c')"
    and "rq_cursor q = map_option cursor_text from" and "\<forall>b. from = Some b \<longrightarrow> 0 \<le> sint (fst b)"
  shows "map env_place (rp_runs page) = map place_of (take (page_limit q) (remaining X ns q from c)) \<and>
    rp_next_cursor page =
      (if page_limit q < length (remaining X ns q from c)
       then Some (cursor_text (last (map env_place (rp_runs page)))) else None)"
proof -
  let ?rows = "remaining X ns q from c" and ?k = "page_limit q"
  obtain labelled where l: "label_clause X q = Inr labelled"
    using assms(1) by (cases "label_clause X q") (auto simp: list_runs_def with_conn_def Let_def split: fault.splits)
  have rows: "order_runs (filter (\<lambda>r. rr_ns r = ns \<and> agent_clause q r \<and> labelled r \<and> since_clause q r \<and>
      beyond from (place_of r)) (db_runs c)) = ?rows"
    unfolding remaining_def selects_def l by (rule arg_cong[where f = order_runs], rule filter_cong) auto
  obtain envs where envs: "read_rows J (take (Suc ?k) ?rows) = Inr envs" and page: "page = page_of ?k envs"
    using assms(1) l cursor_clause_place[OF assms(2,3)] rows
    by (auto simp: list_runs_def with_conn_def query_def page_limit_def Let_def split: fault.splits sum.splits)
  have places: "map env_place envs = map place_of (take (Suc ?k) ?rows)" by (rule read_rows_places[OF envs])
  then have len: "length envs = min (length ?rows) (Suc ?k)" by (metis length_map length_take)
  have "map env_place (take ?k envs) = map place_of (take ?k ?rows)"
    using arg_cong[OF places, of "take ?k"] by (simp add: take_map min_def)
  moreover from this have "env_place (last (take ?k envs)) = last (map place_of (take ?k ?rows))"
    if "?k < length ?rows"
    using that page_limit_pos[of q] len by (metis last_map length_greater_0_conv less_imp_le_nat list.size(3)
        take_eq_Nil2 min_less_iff_conj not_less_eq zero_less_Suc)
  ultimately show ?thesis
    using len by (auto simp: page page_of_def cursor_of_place)
qed

lemma remaining_listed:
  assumes "distinct (map (\<lambda>r. (rr_ns r, rr_run_id r)) (db_runs c))"
  shows "rows_listed (remaining X ns q from c)"
proof -
  have "inj_on rr_run_id (set (filter (\<lambda>r. selects X ns q r \<and> beyond from (place_of r)) (db_runs c)))"
    using assms by (auto simp: distinct_map inj_on_def selects_def)
  then show ?thesis
    unfolding remaining_def using assms
    by (intro order_runs_listed) (simp add: distinct_map distinct_filter)
qed

lemma set_remaining:
  "set (remaining X ns q from c) = {r \<in> set (db_runs c). selects X ns q r \<and> beyond from (place_of r)}"
  by (auto simp: remaining_def)

text \<open>What a page leaves for the next, in the same tables.\<close>

lemma page_splits:
  assumes "list_runs J X ns q s c = (Inr page, c')"
    and "rq_cursor q = map_option cursor_text from" and "\<forall>b. from = Some b \<longrightarrow> 0 \<le> sint (fst b)"
    and "distinct (map (\<lambda>r. (rr_ns r, rr_run_id r)) (db_runs c))"
  defines "ps \<equiv> map env_place (rp_runs page)"
  shows "sorted_wrt listed_before ps" and "\<forall>p \<in> set ps. beyond from p"
    and "\<forall>p \<in> set ps. \<exists>r \<in> set (db_runs c). selects X ns q r \<and> place_of r = p"
    and "rp_next_cursor page = None \<Longrightarrow>
      r \<in> set (db_runs c) \<Longrightarrow> selects X ns q r \<Longrightarrow> beyond from (place_of r) \<Longrightarrow> place_of r \<in> set ps"
    and "rp_next_cursor page = Some cur \<Longrightarrow> length ps = page_limit q \<and> cur = cursor_text (last ps) \<and>
      (r \<in> set (db_runs c) \<longrightarrow> selects X ns q r \<longrightarrow> beyond from (place_of r) \<longrightarrow>
        place_of r \<in> set ps \<or> listed_before (last ps) (place_of r))"
proof -
  let ?rows = "remaining X ns q from c" and ?k = "page_limit q"
  note shape = page_shape[OF assms(1-3), folded ps_def]
  have ps: "ps = map place_of (take ?k ?rows)" using shape by blast
  have sorted: "sorted_wrt listed_before (map place_of ?rows)"
    using remaining_listed[OF assms(4)] by (simp add: sorted_wrt_map)
  then show "sorted_wrt listed_before ps" by (simp add: ps sorted_wrt_take flip: take_map)
  show "\<forall>p \<in> set ps. beyond from p" "\<forall>p \<in> set ps. \<exists>r \<in> set (db_runs c). selects X ns q r \<and> place_of r = p"
    by (auto simp: ps dest!: in_set_takeD[of _ _ ?rows] simp: set_remaining)
  show "place_of r \<in> set ps" if "rp_next_cursor page = None" "r \<in> set (db_runs c)" "selects X ns q r" "beyond from (place_of r)"
  proof -
    have "length ?rows \<le> ?k" using shape that(1) by (auto split: if_splits)
    then show ?thesis using that by (simp add: ps set_remaining)
  qed
  show "length ps = ?k \<and> cur = cursor_text (last ps) \<and>
      (r \<in> set (db_runs c) \<longrightarrow> selects X ns q r \<longrightarrow> beyond from (place_of r) \<longrightarrow>
        place_of r \<in> set ps \<or> listed_before (last ps) (place_of r))" if nx: "rp_next_cursor page = Some cur"
  proof -
    have k: "?k < length ?rows" and cur: "cur = cursor_text (last ps)" using shape nx by (auto split: if_splits)
    then have len: "length ps = ?k" by (simp add: ps)
    then have "ps \<noteq> []" using page_limit_pos[of q] by auto
    then have last: "last ps \<in> set ps" by simp
    have split: "map place_of ?rows = ps @ map place_of (drop ?k ?rows)" by (simp add: ps flip: map_append)
    have "place_of r \<in> set ps \<or> listed_before (last ps) (place_of r)" if "r \<in> set ?rows"
    proof -
      have "place_of r \<in> set (map place_of ?rows)" using that by simp
      then show ?thesis using sorted last unfolding split sorted_wrt_append set_append by blast
    qed
    then show ?thesis using len cur by (simp add: set_remaining)
  qed
qed

section \<open>Page after page\<close>

text \<open>
  A caller that follows the cursors; other requests are served before each page, and a page that
  fails or is lost is asked for again. The pages it got, and whether it reached the end.
\<close>

fun browse ::
  "db tlr_state \<Rightarrow> tideline \<Rightarrow> run_query \<Rightarrow> (http_request list \<times> fate) list \<Rightarrow> db server
   \<Rightarrow> run_envelope list list \<times> bool \<times> db server" where
  "browse st c q [] sv = ([], False, sv)"
| "browse st c q ((others, fate) # rest) sv =
     (case client_list_runs (over st fate) c q (serve_all st others sv) of
        (Inl e, sv) \<Rightarrow> browse st c q rest sv
      | (Inr page, sv) \<Rightarrow>
          (case rp_next_cursor page of
             None \<Rightarrow> ([rp_runs page], True, sv)
           | Some cur \<Rightarrow>
               (case browse st c (q\<lparr>rq_cursor := Some cur\<rparr>) rest sv of
                  (pages, done, sv) \<Rightarrow> (rp_runs page # pages, done, sv))))"

fun browse_cost :: "(http_request list \<times> fate) list \<Rightarrow> nat" where
  "browse_cost [] = 0"
| "browse_cost ((others, fate) # rest) = 5000 * length others + browse_cost rest"

lemma selects_ident: "run_ident r = run_ident r' \<Longrightarrow> selects X ns q r \<longleftrightarrow> selects X ns q r'"
  by (auto simp: selects_def run_ident_def agent_clause_def since_clause_def label_clause_def
      split: option.splits sum.splits)

lemma place_ident: "run_ident r = run_ident r' \<Longrightarrow> place_of r = place_of r'"
  by (simp add: place_of_def run_ident_def)

lemma selects_cursor [simp]: "selects X ns (q\<lparr>rq_cursor := cur\<rparr>) = selects X ns q"
  by (rule ext) (simp add: selects_def agent_clause_def since_clause_def label_clause_def)

lemma page_limit_cursor [simp]: "page_limit (q\<lparr>rq_cursor := cur\<rparr>) = page_limit q"
  by (simp add: page_limit_def)

lemma rows_kept_run:
  assumes "rows_kept c d" and "r \<in> set (db_runs c)"
  shows "\<exists>r' \<in> set (db_runs d). run_ident r' = run_ident r"
proof -
  obtain z where z: "map run_ident (db_runs d) = map run_ident (db_runs c) @ z"
    using assms(1) unfolding rows_kept_def prefix_def by blast
  have "run_ident r \<in> set (map run_ident (db_runs d))" unfolding z using assms(2) by simp
  then show ?thesis by (metis (no_types, lifting) imageE list.set_map)
qed

text \<open>A page the client reads is one the store returned, and asking for it changes nothing.\<close>

lemma client_page:
  assumes X: "sqlite_server X st" and auth: "authorize st (tideline_req c) False = Inr ns"
    and got: "client_list_runs (over st fate) c q sv = (out, sv')"
  shows "sdb sv' = sdb sv" and "out = Inr page \<Longrightarrow> fst (list_runs (tl_json st) X ns q (snow sv) (sdb sv)) = Inr page"
proof -
  note B = sqlite_serverD(1)[OF X]
  obtain r sv2 where call: "on_store (st_list_runs (tl_store st) ns q) sv = (r, sv2)" by force
  have r: "r = fst (list_runs (tl_json st) X ns q (snow sv) (sdb sv))"
    using on_store_op[OF call[unfolded sqlite_calls[OF B]]] by (metis fst_conv)
  have keep: "sdb sv2 = sdb sv" using reads_keep_sdb(2)[OF B, of ns q sv] call by simp
  show "sdb sv' = sdb sv"
    using got call keep auth
    by (cases fate) (auto simp: client_list_runs_def exchange_def over_def h_list_runs_def split: sum.splits)
  have "\<not> rs_status (err e) < 300" for e using err_status_high[of e] by linarith
  then show "fst (list_runs (tl_json st) X ns q (snow sv) (sdb sv)) = Inr page" if "out = Inr page"
    using got call auth that unfolding r
    by (cases fate) (auto simp: client_list_runs_def exchange_def over_def h_list_runs_def sdk_send_def
        respond_def page_body_def split: sum.splits if_splits)
qed

definition listing_ok ::
  "json_extract \<Rightarrow> string \<Rightarrow> run_query \<Rightarrow> place option \<Rightarrow> db \<Rightarrow> db \<Rightarrow> place list \<Rightarrow> bool \<Rightarrow> bool" where
  "listing_ok X ns q from c d ps done \<longleftrightarrow>
     sorted_wrt listed_before ps \<and> (\<forall>p \<in> set ps. beyond from p) \<and>
     (\<forall>p \<in> set ps. \<exists>r \<in> set (db_runs d). selects X ns q r \<and> place_of r = p) \<and>
     (done \<longrightarrow> (\<forall>r \<in> set (db_runs c). selects X ns q r \<longrightarrow> beyond from (place_of r) \<longrightarrow> place_of r \<in> set ps))"

lemma listing_ok_later:
  assumes "listing_ok X ns q from c d ps done" and "rows_kept c0 c" and "rows_kept d e"
  shows "listing_ok X ns q from c0 e ps done"
proof -
  have "\<exists>r' \<in> set (db_runs e). selects X ns q r' \<and> place_of r' = p"
    if "r \<in> set (db_runs d)" "selects X ns q r" "place_of r = p" for r p
    using rows_kept_run[OF assms(3) that(1)] selects_ident place_ident that(2,3) by metis
  moreover have "place_of r \<in> set ps"
    if "r \<in> set (db_runs c0)" "selects X ns q r" "beyond from (place_of r)" "done" for r
    using rows_kept_run[OF assms(2) that(1)] selects_ident place_ident that(2-4) assms(1) unfolding listing_ok_def by metis
  ultimately show ?thesis using assms(1) unfolding listing_ok_def by blast
qed

lemma listing_ok_cons:
  assumes "sorted_wrt listed_before ps" and "\<forall>p \<in> set ps. beyond from p" and "ps \<noteq> []"
    and "\<forall>p \<in> set ps. \<exists>r \<in> set (db_runs d). selects X ns q r \<and> place_of r = p"
    and "\<forall>r \<in> set (db_runs c). selects X ns q r \<longrightarrow> beyond from (place_of r) \<longrightarrow>
      place_of r \<in> set ps \<or> listed_before (last ps) (place_of r)"
    and "listing_ok X ns q (Some (last ps)) c d rest done"
  shows "listing_ok X ns q from c d (ps @ rest) done"
proof -
  have "last ps \<in> set ps" using assms(3) by simp
  obtain qs z where qs: "ps = qs @ [z]" using assms(3) by (metis append_butlast_last_id)
  have upto: "p = last ps \<or> listed_before p (last ps)" if "p \<in> set ps" for p
    using assms(1) that by (auto simp: qs sorted_wrt_append)
  have after: "listed_before (last ps) p" if "p \<in> set rest" for p
    using assms(6) that by (simp add: listing_ok_def)
  have "beyond from p" if "p \<in> set rest" for p
  proof (cases "from")
    case (Some b)
    then show ?thesis
      using assms(2) \<open>last ps \<in> set ps\<close> listed_before_trans[OF _ after[OF that], of b] by simp
  qed simp
  moreover have "listed_before a p" if "a \<in> set ps" "p \<in> set rest" for a p
    using upto[OF that(1)] after[OF that(2)] listed_before_trans by blast
  ultimately show ?thesis
    using assms unfolding listing_ok_def by (auto simp: sorted_wrt_append)
qed

lemma runs_distinct:
  "sv_ok st B n sv \<Longrightarrow> distinct (map (\<lambda>r. (rr_ns r, rr_run_id r)) (db_runs (sdb sv)))"
  using server_okD(3)[of "tl_json st" "tl_sha st" "tl_sig st" "tl_keys st" B n "sdb sv"]
  by (simp add: sv_ok_def store_inv_def)

definition starts_signed :: "db \<Rightarrow> bool" where
  "starts_signed c \<longleftrightarrow> (\<forall>r \<in> set (db_runs c). 0 \<le> sint (rr_started_ts r))"

lemma selects_page: "listing_ok X ns (q\<lparr>rq_cursor := cur\<rparr>) = listing_ok X ns q"
  by (intro ext) (simp add: listing_ok_def)

lemma browse_keeps:
  assumes X: "sqlite_server X st" and auth: "authorize st (tideline_req c) False = Inr ns"
  shows "sv_ok st B (n + browse_cost rounds) sv \<Longrightarrow> browse st c q rounds sv = (pages, done, sv') \<Longrightarrow>
    sv_ok st B n sv' \<and> rows_kept (sdb sv) (sdb sv')"
proof (induction rounds arbitrary: q sv pages)
  case (Cons t rounds)
  obtain others fate where t: "t = (others, fate)" by (cases t)
  define sv0 where "sv0 = serve_all st others sv"
  obtain out sv1 where got: "client_list_runs (over st fate) c q sv0 = (out, sv1)" by force
  note page = client_page(1)[OF X auth got]
  have ok0: "sv_ok st B (n + browse_cost rounds) sv0"
    unfolding sv0_def using Cons.prems(1) by (intro serve_all_ok[OF X]) (simp add: t algebra_simps)
  have k0: "rows_kept (sdb sv) (sdb sv0)" unfolding sv0_def by (rule kept.serve_all_grows[OF sqlite_serverD(1)[OF X]])
  have ok1: "sv_ok st B (n + browse_cost rounds) sv1" using ok0 page by (simp add: sv_ok_def)
  have "sv_ok st B n sv1" using ok1 server_ok_less unfolding sv_ok_def by (metis le_add1)
  moreover have "sv_ok st B n sv' \<and> rows_kept (sdb sv1) (sdb sv')"
    if "browse st c q' rounds sv1 = (pages', done, sv')" for q' pages'
    by (rule Cons.IH[OF ok1 that])
  ultimately show ?case
    using Cons.prems(2) got k0 page rows_kept_trans
    by (auto simp: t sv0_def[symmetric] split: sum.splits option.splits prod.splits)
qed simp

lemma browse_lists:
  assumes X: "sqlite_server X st" and auth: "authorize st (tideline_req c) False = Inr ns"
  shows "sv_ok st B (n + browse_cost rounds) sv \<Longrightarrow> browse st c q rounds sv = (pages, done, sv') \<Longrightarrow>
    rq_cursor q = map_option cursor_text from \<Longrightarrow> \<forall>b. from = Some b \<longrightarrow> 0 \<le> sint (fst b) \<Longrightarrow> starts_signed (sdb sv') \<Longrightarrow>
    listing_ok X ns q from (sdb sv) (sdb sv') (map env_place (concat pages)) done \<and>
    (\<not> done \<longrightarrow> length (concat pages) = page_limit q * length pages)"
proof (induction rounds arbitrary: q "from" sv pages)
  case Nil
  then show ?case by (simp add: listing_ok_def)
next
  case (Cons t rounds)
  note B = sqlite_serverD(1)[OF X]
  obtain others fate where t: "t = (others, fate)" by (cases t)
  define sv0 where "sv0 = serve_all st others sv"
  obtain out sv1 where got: "client_list_runs (over st fate) c q sv0 = (out, sv1)" by force
  note page = client_page[OF X auth got]
  have ok0: "sv_ok st B (n + browse_cost rounds) sv0"
    unfolding sv0_def using Cons.prems(1) by (intro serve_all_ok[OF X]) (simp add: t algebra_simps)
  have k0: "rows_kept (sdb sv) (sdb sv0)" unfolding sv0_def by (rule kept.serve_all_grows[OF B])
  have ok1: "sv_ok st B (n + browse_cost rounds) sv1" using ok0 page(1) by (simp add: sv_ok_def)
  have ok: "sv_ok st B n sv1" using ok1 server_ok_less unfolding sv_ok_def by (metis le_add1)
  show ?case
  proof (cases out)
    case (Inl e)
    then have rest: "browse st c q rounds sv1 = (pages, done, sv')"
      using Cons.prems(2) got by (simp add: t sv0_def)
    show ?thesis
      using Cons.IH[OF ok1 rest Cons.prems(3-5)] k0 listing_ok_later[OF _ _ rows_kept_refl] unfolding page(1) by blast
  next
    case (Inr page0)
    obtain d where read: "list_runs (tl_json st) X ns q (snow sv0) (sdb sv0) = (Inr page0, d)"
      using page(2)[OF Inr] by (metis prod.collapse)
    note split = page_splits[OF read Cons.prems(3,4) runs_distinct[OF ok0]]
    let ?ps = "map env_place (rp_runs page0)"
    show ?thesis
    proof (cases "rp_next_cursor page0")
      case None
      then have out: "pages = [rp_runs page0]" "done" "sv' = sv1"
        using Cons.prems(2) got Inr by (simp_all add: t sv0_def)
      have "listing_ok X ns q from (sdb sv0) (sdb sv1) ?ps True"
        using split(1-3) split(4)[OF None] unfolding listing_ok_def page(1) by blast
      then show ?thesis
        using out listing_ok_later[OF _ k0 rows_kept_refl] page(1) by simp
    next
      case (Some cur)
      obtain pages1 where rest: "browse st c (q\<lparr>rq_cursor := Some cur\<rparr>) rounds sv1 = (pages1, done, sv')"
        and pages: "pages = rp_runs page0 # pages1"
        using Cons.prems(2) got Inr Some by (auto simp: t sv0_def split: prod.splits)
      have len: "length ?ps = page_limit q" and cur: "cur = cursor_text (last ?ps)"
        using split(5)[OF Some] by blast+
      have ne: "?ps \<noteq> []" using len page_limit_pos[of q] by auto
      have kept: "rows_kept (sdb sv0) (sdb sv')" using browse_keeps[OF X auth ok1 rest] page(1) by simp
      have later: "\<exists>r' \<in> set (db_runs (sdb sv')). selects X ns q r' \<and> place_of r' = p" if p: "p \<in> set ?ps" for p
      proof -
        obtain r where r: "r \<in> set (db_runs (sdb sv0))" "selects X ns q r" "place_of r = p"
          using bspec[OF split(3) p] by blast
        obtain r' where "r' \<in> set (db_runs (sdb sv'))" "run_ident r' = run_ident r" using rows_kept_run[OF kept r(1)] by blast
        then show ?thesis using selects_ident[of r' r] place_ident[of r' r] r by auto
      qed
      obtain r1 where "r1 \<in> set (db_runs (sdb sv'))" "place_of r1 = last ?ps" using later[OF last_in_set[OF ne]] by blast
      then have "0 \<le> sint (fst (last ?ps))"
        using Cons.prems(5) unfolding starts_signed_def place_of_def by (metis fst_conv)
      then have IH: "listing_ok X ns q (Some (last ?ps)) (sdb sv0) (sdb sv') (map env_place (concat pages1)) done"
        "\<not> done \<longrightarrow> length (concat pages1) = page_limit q * length pages1"
        using Cons.IH[OF ok1 rest, of "Some (last ?ps)"] cur Cons.prems(5) page(1) selects_page by simp_all
      have "\<forall>r \<in> set (db_runs (sdb sv0)). selects X ns q r \<longrightarrow> beyond from (place_of r) \<longrightarrow>
          place_of r \<in> set ?ps \<or> listed_before (last ?ps) (place_of r)"
        using split(5)[OF Some] by blast
      then have "listing_ok X ns q from (sdb sv0) (sdb sv') (?ps @ map env_place (concat pages1)) done"
        using later by (intro listing_ok_cons[OF split(1,2) ne _ _ IH(1)]) blast+
      then have "listing_ok X ns q from (sdb sv) (sdb sv') (map env_place (concat pages)) done"
        using listing_ok_later[OF _ k0 rows_kept_refl] by (simp add: pages)
      moreover have "length (concat pages) = page_limit q * length pages" if "\<not> done"
        using IH(2) that len by (simp add: pages)
      ultimately show ?thesis by blast
    qed
  qed
qed

lemma listed_ids:
  assumes "sorted_wrt listed_before (map env_place envs)" and "distinct (map (\<lambda>r. (rr_ns r, rr_run_id r)) (db_runs c))"
    and "\<forall>p \<in> set (map env_place envs). \<exists>r \<in> set (db_runs c). selects X ns q r \<and> place_of r = p"
  shows "distinct (map env_run_id envs)"
proof -
  have "e = e'" if e: "e \<in> set envs" "e' \<in> set envs" "env_run_id e = env_run_id e'" for e e'
  proof -
    have "\<exists>r \<in> set (db_runs c). rr_ns r = ns \<and> place_of r = env_place x" if "x \<in> set envs" for x
      using assms(3) that by (auto simp: selects_def)
    then obtain r r' where r: "r \<in> set (db_runs c)" "r' \<in> set (db_runs c)" "rr_ns r = ns" "rr_ns r' = ns"
      and p: "place_of r = env_place e" "place_of r' = env_place e'"
      using e(1,2) by meson
    moreover from p e(3) have "rr_run_id r = rr_run_id r'" by (simp add: place_of_def env_place_def)
    ultimately have "r = r'" using inj_onD[OF conjunct2[OF assms(2)[unfolded distinct_map]]] by simp
    then have "env_place e = env_place e'" using p by simp
    then show ?thesis
      using inj_onD[OF conjunct2[OF listed_distinct[OF assms(1), unfolded distinct_map]]] e(1,2) by blast
  qed
  then show ?thesis using listed_distinct[OF assms(1)] by (auto simp: distinct_map inj_on_def)
qed

text \<open>
  C19: Listing the runs page by page shows each of them once. A caller that follows the cursors,
  while other requests are served between its pages and pages are lost or fail, gets pages whose
  runs are distinct, newest first, of its own namespace and selected by its filters. When it
  reaches the end it has every such run that existed when it began; and it reaches the end
  before it has one full page more than there are runs to list.
\<close>

theorem listing_is_complete:
  assumes "sqlite_server X st" and "authorize st (tideline_req c) False = Inr ns"
    and "sv_ok st B (browse_cost rounds) sv" and "browse st c q rounds sv = (pages, done, sv')"
    and "rq_cursor q = None" and "starts_signed (sdb sv')"
  shows "distinct (map env_run_id (concat pages)) \<and> sorted_wrt listed_before (map env_place (concat pages)) \<and>
    (\<forall>env \<in> set (concat pages). \<exists>r \<in> set (db_runs (sdb sv')). selects X ns q r \<and> place_of r = env_place env) \<and>
    (done \<longrightarrow> (\<forall>r \<in> set (db_runs (sdb sv)). selects X ns q r \<longrightarrow> rr_run_id r \<in> set (map env_run_id (concat pages)))) \<and>
    (\<not> done \<longrightarrow> page_limit q * length pages \<le> length (filter (selects X ns q) (db_runs (sdb sv'))))"
proof -
  have ok: "sv_ok st B (0 + browse_cost rounds) sv" using assms(3) by simp
  have L: "listing_ok X ns q None (sdb sv) (sdb sv') (map env_place (concat pages)) done"
    and len: "\<not> done \<longrightarrow> length (concat pages) = page_limit q * length pages"
    using browse_lists[OF assms(1,2) ok assms(4), of None] assms(5,6) by simp_all
  have D: "distinct (map (\<lambda>r. (rr_ns r, rr_run_id r)) (db_runs (sdb sv')))"
    using runs_distinct browse_keeps[OF assms(1,2) ok assms(4)] by blast
  have ids: "distinct (map env_run_id (concat pages))"
    using listed_ids[OF _ D] L unfolding listing_ok_def by blast
  let ?sel = "filter (selects X ns q) (db_runs (sdb sv'))"
  have "set (map env_place (concat pages)) \<subseteq> place_of ` set ?sel"
  proof
    fix p assume "p \<in> set (map env_place (concat pages))"
    then obtain r where "r \<in> set (db_runs (sdb sv'))" "selects X ns q r" "place_of r = p"
      using L unfolding listing_ok_def by blast
    then show "p \<in> place_of ` set ?sel" by auto
  qed
  then have "card (set (map env_place (concat pages))) \<le> length ?sel"
    by (meson List.finite_set card_image_le card_length card_mono finite_imageI le_trans)
  moreover have "distinct (map env_place (concat pages))" using L listed_distinct unfolding listing_ok_def by blast
  ultimately have "length (concat pages) \<le> length ?sel" by (metis distinct_card length_map)
  moreover have "rr_run_id r \<in> set (map env_run_id (concat pages))"
    if "done" "r \<in> set (db_runs (sdb sv))" "selects X ns q r" for r
  proof -
    have "place_of r \<in> env_place ` set (concat pages)" using L that unfolding listing_ok_def by simp
    then show ?thesis by (auto simp: place_of_def env_place_def)
  qed
  ultimately show ?thesis using L len ids unfolding listing_ok_def by auto
qed

section \<open>A listing\<close>

definition all_runs :: run_query where
  "all_runs = \<lparr>rq_agent = None, rq_label = None, rq_since = None, rq_cursor = None, rq_limit = Some 1\<rparr>"

lemma demo_listed:
  "\<exists>r. db_runs demo_db = [r] \<and> rr_ns r = ''acme'' \<and> rr_run_id r = ''loan'' \<and> rr_started_ts r = 5 \<and>
    (\<exists>env. row_to_envelope demo_json r = Inr env)"
  unfolding demo_db_eq demo_db1_def Let_def
  by (simp add: open_run_def add_event_def run_row_of_def row_to_envelope_def run_at_def Let_def demo_new_def)
    (simp add: empty_db_def)

lemma demo_page:
  "\<exists>page. fst (list_runs demo_json no_extract ''acme'' all_runs (calm 10) demo_db) = Inr page \<and> rp_next_cursor page = None"
proof -
  obtain r env where r: "db_runs demo_db = [r]" "rr_ns r = ''acme''" "row_to_envelope demo_json r = Inr env"
    using demo_listed by blast
  then show ?thesis
    by (simp add: list_runs_def with_conn_def query_def all_runs_def agent_clause_def since_clause_def label_clause_def
        cursor_clause_def order_runs_def page_of_def clamp_def calm_def begin_stmt_def)
qed

abbreviation demo_rounds :: "(http_request list \<times> fate) list" where
  "demo_rounds \<equiv> [([], NotSent), ([], Delivered)]"

lemma demo_browse:
  "\<exists>pages sv'. browse demo_state (rn_client demo_run) all_runs demo_rounds (demo_server demo_db) = (pages, True, sv') \<and>
     sdb sv' = demo_db"
proof -
  obtain page where page: "fst (list_runs demo_json no_extract ''acme'' all_runs (calm 10) demo_db) = Inr page"
    "rp_next_cursor page = None"
    using demo_page by blast
  obtain r sv' where call: "on_store (st_list_runs (tl_store demo_state) ''acme'' all_runs) (demo_server demo_db) = (r, sv')"
    by force
  have "list_runs demo_json no_extract ''acme'' all_runs (calm 10) demo_db = (r, sdb sv')"
    using on_store_op[OF call[unfolded sqlite_calls[OF demo_state_simps(2)]]] by simp
  then have "r = Inr page" using page(1) by simp
  then show ?thesis
    using call page(2) reads_keep_sdb(2)[OF demo_state_simps(2), of "''acme''" all_runs "demo_server demo_db"]
    by (simp add: client_list_runs_def exchange_def over_def sdk_send_def serve_all_def h_list_runs_def respond_def
        page_body_def)
qed

theorem listing_is_complete_witness:
  "\<exists>pages sv'. browse demo_state (rn_client demo_run) all_runs demo_rounds (demo_server demo_db) = (pages, True, sv') \<and>
     distinct (map env_run_id (concat pages)) \<and> ''loan'' \<in> set (map env_run_id (concat pages))"
proof -
  obtain pages sv' where b: "browse demo_state (rn_client demo_run) all_runs demo_rounds (demo_server demo_db) = (pages, True, sv')"
    "sdb sv' = demo_db"
    using demo_browse by blast
  obtain r where r: "db_runs demo_db = [r]" "rr_ns r = ''acme''" "rr_run_id r = ''loan''" "rr_started_ts r = 5"
    using demo_listed by blast
  have sel: "selects no_extract ''acme'' all_runs r"
    using r by (simp add: selects_def all_runs_def agent_clause_def since_clause_def label_clause_def)
  have ok: "sv_ok demo_state empty_db (browse_cost demo_rounds) (demo_server demo_db)"
    using server_ok_less[OF demo_server_ok, of 0] by (simp add: sv_ok_def)
  have starts: "starts_signed (sdb sv')" by (simp add: b(2) starts_signed_def r)
  have auth: "authorize demo_state (tideline_req (rn_client demo_run)) False = Inr ''acme''" by simp
  have cur: "rq_cursor all_runs = None" by (simp add: all_runs_def)
  note L = listing_is_complete[OF demo_state_simps(1) auth ok b(1) cur starts]
  have "distinct (map env_run_id (concat pages))" using L by blast
  moreover have "rr_run_id r \<in> set (map env_run_id (concat pages))"
    using L sel r(1) unfolding demo_server_simps by (metis list.set_intros(1))
  ultimately show ?thesis using b(1) r(3) by metis
qed

end
