(* ===== verification/Router.thy ===== *)
theory Router
  imports Client
begin

text \<open>
  From the paths the client writes to the handlers the server runs: the route tables of
  \<open>crates/tideline-server/src/tlr/routes.rs\<close> and \<open>api.rs\<close>, and the paths of
  \<open>crates/tideline-sdk/src/run.rs\<close> and \<open>client.rs\<close>. The URL library, which resolves dot segments,
  and the router, which matches a path against the templates, are parameters.
\<close>

section \<open>The tables\<close>

datatype http_method = GetMethod | PostMethod | DeleteMethod

text \<open>A handler is named by its function.\<close>

datatype endpoint =
  AtHealth | AtMetrics | AtPublish | AtSubscribe | AtDeleteStream | AtComplete | AtFail | AtSubscribeWs
| AtWellKnown | AtCreateRun | AtListRuns | AtGetRun | AtAppendEvent | AtListEvents | AtWatch | AtCompleteRun
| AtGetCheckpoint | AtCreateApproval | AtListApprovals | AtGetApproval | AtResolveApproval | AtRedact

type_synonym route = "string \<times> (http_method \<times> endpoint) list"

definition record_routes :: "route list" where
  "record_routes =
     [(''/v1/.well-known/tideline'', [(GetMethod, AtWellKnown)]),
      (''/v1/runs'', [(PostMethod, AtCreateRun), (GetMethod, AtListRuns)]),
      (''/v1/runs/:id'', [(GetMethod, AtGetRun)]),
      (''/v1/runs/:id/events'', [(PostMethod, AtAppendEvent), (GetMethod, AtListEvents)]),
      (''/v1/runs/:id/watch'', [(GetMethod, AtWatch)]),
      (''/v1/runs/:id/complete'', [(PostMethod, AtCompleteRun)]),
      (''/v1/runs/:id/checkpoint'', [(GetMethod, AtGetCheckpoint)]),
      (''/v1/runs/:id/approvals'', [(PostMethod, AtCreateApproval), (GetMethod, AtListApprovals)]),
      (''/v1/runs/:id/approvals/:seq'', [(GetMethod, AtGetApproval)]),
      (''/v1/runs/:id/approvals/:seq/resolve'', [(PostMethod, AtResolveApproval)]),
      (''/v1/runs/:id/redactions'', [(PostMethod, AtRedact)])]"

text \<open>The routes of the streams, merged with those of the records.\<close>

definition all_routes :: "route list" where
  "all_routes =
     [(''/health'', [(GetMethod, AtHealth)]),
      (''/metrics'', [(GetMethod, AtMetrics)]),
      (''/streams/:id'', [(PostMethod, AtPublish), (GetMethod, AtSubscribe), (DeleteMethod, AtDeleteStream)]),
      (''/streams/:id/complete'', [(PostMethod, AtComplete)]),
      (''/streams/:id/error'', [(PostMethod, AtFail)]),
      (''/streams/:id/ws'', [(GetMethod, AtSubscribeWs)])] @ record_routes"

section \<open>Paths\<close>

fun path_segments :: "string \<Rightarrow> string list" where
  "path_segments [] = [[]]"
| "path_segments (c # s) =
     (if c = CHR ''/'' then [] # path_segments s
      else case path_segments s of [] \<Rightarrow> [[c]] | x # xs \<Rightarrow> (c # x) # xs)"

text \<open>A template segment that begins with a colon takes any segment that is not empty.\<close>

fun fits :: "string list \<Rightarrow> string list \<Rightarrow> string list option" where
  "fits [] [] = Some []"
| "fits (t # ts) (s # ss) =
     (if t \<noteq> [] \<and> hd t = CHR '':'' then (if s = [] then None else map_option ((#) s) (fits ts ss))
      else if t = s then fits ts ss else None)"
| "fits _ _ = None"

definition takes :: "route \<Rightarrow> string \<Rightarrow> string list option" where
  "takes r p = fits (path_segments (fst r)) (path_segments p)"

text \<open>
  Dot segments, RFC 3986 section 5.2.4: a dot is dropped, two dots drop the segment before them,
  and at the end of the path they leave an empty segment.
\<close>

fun remove_dots :: "string list \<Rightarrow> string list \<Rightarrow> string list" where
  "remove_dots out [] = out"
| "remove_dots out (s # ss) =
     (if s = ''.'' then remove_dots (if ss = [] then out @ [[]] else out) ss
      else if s = ''..'' then
        (let out = (if length out \<le> 1 then out else butlast out)
         in remove_dots (if ss = [] then out @ [[]] else out) ss)
      else remove_dots (out @ [s]) ss)"

definition plain_path :: "string \<Rightarrow> bool" where
  "plain_path p \<longleftrightarrow> list_all (\<lambda>c. c = CHR ''/'' \<or> id_char c) p"

text \<open>
  The libraries. \<open>web_ok\<close> is what they document: a path of unreserved characters is sent as it
  is, but for its dot segments, and a path that one template takes goes to that template with
  the path_segments it captured, one that none takes to none.
\<close>

record web =
  wb_url :: "string \<Rightarrow> string"
  wb_route :: "route list \<Rightarrow> string \<Rightarrow> (route \<times> string list) option"

definition web_ok :: "web \<Rightarrow> bool" where
  "web_ok W \<longleftrightarrow>
     (\<forall>p. plain_path p \<longrightarrow> path_segments (wb_url W p) = remove_dots [] (path_segments p)) \<and>
     (\<forall>table r p ps. r \<in> set table \<longrightarrow> takes r p = Some ps \<longrightarrow> (\<forall>r' \<in> set table. takes r' p \<noteq> None \<longrightarrow> r' = r) \<longrightarrow>
        wb_route W table p = Some (r, ps)) \<and>
     (\<forall>table p. (\<forall>r \<in> set table. takes r p = None) \<longrightarrow> wb_route W table p = None)"

definition reached :: "web \<Rightarrow> http_method \<Rightarrow> string \<Rightarrow> (endpoint \<times> string list) option" where
  "reached W m p =
     (case wb_route W all_routes (wb_url W p) of
        None \<Rightarrow> None
      | Some (r, ps) \<Rightarrow> (case map_of (snd r) m of None \<Rightarrow> None | Some e \<Rightarrow> Some (e, ps)))"

section \<open>What the client sends and what the handler extracts\<close>

definition run_path :: "string \<Rightarrow> string \<Rightarrow> string" where
  "run_path run_id rest = ''/v1/runs/'' @ run_id @ rest"

fun sent :: "http_request \<Rightarrow> http_method \<times> string" where
  "sent WellKnown = (GetMethod, ''/v1/.well-known/tideline'')"
| "sent (CreateRun h b) = (PostMethod, ''/v1/runs'')"
| "sent (ListRuns q h) = (GetMethod, ''/v1/runs'')"
| "sent (GetRun i h) = (GetMethod, run_path i '''')"
| "sent (AppendEvent i h b) = (PostMethod, run_path i ''/events'')"
| "sent (ListEvents i q h) = (GetMethod, run_path i ''/events'')"
| "sent (CompleteRun i h) = (PostMethod, run_path i ''/complete'')"
| "sent (GetCheckpoint i h) = (GetMethod, run_path i ''/checkpoint'')"
| "sent (CreateApproval i h b) = (PostMethod, run_path i ''/approvals'')"
| "sent (ListApprovals i h) = (GetMethod, run_path i ''/approvals'')"
| "sent (GetApproval i seq h) = (GetMethod, run_path i (''/approvals/'' @ dec seq))"
| "sent (ResolveApproval i seq h b) = (PostMethod, run_path i (''/approvals/'' @ dec seq @ ''/resolve''))"
| "sent (Redact i h b) = (PostMethod, run_path i ''/redactions'')"

text \<open>What travels beside the path: the headers, the body and the query.\<close>

record carried =
  ca_headers :: headers
  ca_body :: string
  ca_runs :: run_query
  ca_events :: events_query

definition bare :: carried where
  "bare = \<lparr>ca_headers = \<lparr>h_authorization = None, h_idempotency_key = None\<rparr>, ca_body = '''',
     ca_runs = \<lparr>rq_agent = None, rq_label = None, rq_since = None, rq_cursor = None, rq_limit = None\<rparr>,
     ca_events = \<lparr>eq_from = None, eq_limit = None\<rparr>\<rparr>"

fun carried_of :: "http_request \<Rightarrow> carried" where
  "carried_of WellKnown = bare"
| "carried_of (CreateRun h b) = bare\<lparr>ca_headers := h, ca_body := b\<rparr>"
| "carried_of (ListRuns q h) = bare\<lparr>ca_headers := h, ca_runs := q\<rparr>"
| "carried_of (GetRun i h) = bare\<lparr>ca_headers := h\<rparr>"
| "carried_of (AppendEvent i h b) = bare\<lparr>ca_headers := h, ca_body := b\<rparr>"
| "carried_of (ListEvents i q h) = bare\<lparr>ca_headers := h, ca_events := q\<rparr>"
| "carried_of (CompleteRun i h) = bare\<lparr>ca_headers := h\<rparr>"
| "carried_of (GetCheckpoint i h) = bare\<lparr>ca_headers := h\<rparr>"
| "carried_of (CreateApproval i h b) = bare\<lparr>ca_headers := h, ca_body := b\<rparr>"
| "carried_of (ListApprovals i h) = bare\<lparr>ca_headers := h\<rparr>"
| "carried_of (GetApproval i seq h) = bare\<lparr>ca_headers := h\<rparr>"
| "carried_of (ResolveApproval i seq h b) = bare\<lparr>ca_headers := h, ca_body := b\<rparr>"
| "carried_of (Redact i h b) = bare\<lparr>ca_headers := h, ca_body := b\<rparr>"

text \<open>The extractors of each handler; a sequence number that is none is refused before the handler.\<close>

fun extracted :: "endpoint \<Rightarrow> string list \<Rightarrow> carried \<Rightarrow> http_request option" where
  "extracted AtWellKnown [] c = Some WellKnown"
| "extracted AtCreateRun [] c = Some (CreateRun (ca_headers c) (ca_body c))"
| "extracted AtListRuns [] c = Some (ListRuns (ca_runs c) (ca_headers c))"
| "extracted AtGetRun [i] c = Some (GetRun i (ca_headers c))"
| "extracted AtAppendEvent [i] c = Some (AppendEvent i (ca_headers c) (ca_body c))"
| "extracted AtListEvents [i] c = Some (ListEvents i (ca_events c) (ca_headers c))"
| "extracted AtCompleteRun [i] c = Some (CompleteRun i (ca_headers c))"
| "extracted AtGetCheckpoint [i] c = Some (GetCheckpoint i (ca_headers c))"
| "extracted AtCreateApproval [i] c = Some (CreateApproval i (ca_headers c) (ca_body c))"
| "extracted AtListApprovals [i] c = Some (ListApprovals i (ca_headers c))"
| "extracted AtGetApproval [i, s] c = map_option (\<lambda>seq. GetApproval i seq (ca_headers c)) (parse_u64 s)"
| "extracted AtResolveApproval [i, s] c = map_option (\<lambda>seq. ResolveApproval i seq (ca_headers c) (ca_body c)) (parse_u64 s)"
| "extracted AtRedact [i] c = Some (Redact i (ca_headers c) (ca_body c))"
| "extracted _ _ c = None"

text \<open>The request a handler is called with, if one is.\<close>

definition arrives :: "web \<Rightarrow> http_request \<Rightarrow> http_request option" where
  "arrives W req =
     (case sent req of (m, p) \<Rightarrow>
        (case reached W m p of None \<Rightarrow> None | Some (e, ps) \<Rightarrow> extracted e ps (carried_of req)))"

fun run_of_request :: "http_request \<Rightarrow> string option" where
  "run_of_request (GetRun i h) = Some i"
| "run_of_request (AppendEvent i h b) = Some i"
| "run_of_request (ListEvents i q h) = Some i"
| "run_of_request (CompleteRun i h) = Some i"
| "run_of_request (GetCheckpoint i h) = Some i"
| "run_of_request (CreateApproval i h b) = Some i"
| "run_of_request (ListApprovals i h) = Some i"
| "run_of_request (GetApproval i seq h) = Some i"
| "run_of_request (ResolveApproval i seq h b) = Some i"
| "run_of_request (Redact i h b) = Some i"
| "run_of_request _ = None"

section \<open>A path reaches its template\<close>

lemma path_segments_ne [simp]: "path_segments s \<noteq> []"
  by (induction s) (auto split: list.split)

lemma path_segments_slash: "path_segments (a @ CHR ''/'' # b) = path_segments a @ path_segments b"
proof (induction a)
  case (Cons c a)
  obtain x xs where "path_segments a = x # xs" by (cases "path_segments a") auto
  with Cons show ?case by simp
qed simp

lemma path_segments_flat: "CHR ''/'' \<notin> set s \<Longrightarrow> path_segments s = [s]"
  by (induction s) auto

lemma remove_dots_none: "\<forall>s \<in> set ss. s \<noteq> ''.'' \<and> s \<noteq> ''..'' \<Longrightarrow> remove_dots out ss = out @ ss"
  by (induction ss arbitrary: out) auto

lemma web_okD:
  assumes "web_ok W"
  shows "plain_path p \<Longrightarrow> path_segments (wb_url W p) = remove_dots [] (path_segments p)"
    and "r \<in> set table \<Longrightarrow> takes r p = Some ps \<Longrightarrow> \<forall>r' \<in> set table. takes r' p \<noteq> None \<longrightarrow> r' = r \<Longrightarrow>
      wb_route W table p = Some (r, ps)"
    and "\<forall>r \<in> set table. takes r p = None \<Longrightarrow> wb_route W table p = None"
  using assms unfolding web_ok_def by blast+

lemma reached_segments:
  assumes "web_ok W" and "plain_path p" and "remove_dots [] (path_segments p) = ss"
    and "filter (\<lambda>r. fits (path_segments (fst r)) ss \<noteq> None) all_routes = [r]"
  shows "reached W m p =
    (case map_of (snd r) m of None \<Rightarrow> None | Some e \<Rightarrow> Some (e, the (fits (path_segments (fst r)) ss)))"
proof -
  have url: "path_segments (wb_url W p) = ss" using web_okD(1)[OF assms(1,2)] assms(3) by simp
  have only: "r' \<in> set all_routes \<and> fits (path_segments (fst r')) ss \<noteq> None \<longleftrightarrow> r' = r" for r'
  proof -
    have "r' \<in> set (filter (\<lambda>r. fits (path_segments (fst r)) ss \<noteq> None) all_routes) \<longleftrightarrow> r' = r" unfolding assms(4) by simp
    then show ?thesis by (simp only: set_filter mem_Collect_eq)
  qed
  then have r: "r \<in> set all_routes" "fits (path_segments (fst r)) ss \<noteq> None" by blast+
  have takes: "takes r' (wb_url W p) = fits (path_segments (fst r')) ss" for r' by (simp add: takes_def url)
  obtain ps where ps: "fits (path_segments (fst r)) ss = Some ps" using r(2) by blast
  have "wb_route W all_routes (wb_url W p) = Some (r, ps)"
    using r(1) ps only by (intro web_okD(2)[OF assms(1)]) (simp_all only: takes, blast)
  then show ?thesis by (simp add: reached_def ps split: option.split)
qed

lemma id_chars_plain:
  assumes "list_all id_char i"
  shows "CHR ''/'' \<notin> set i" and "plain_path i"
  using assms by (auto simp: plain_path_def list_all_iff id_char_def)

lemma plain_path_append [simp]: "plain_path (a @ b) \<longleftrightarrow> plain_path a \<and> plain_path b"
  by (simp add: plain_path_def)

lemma plain_path_Cons [simp]: "plain_path (c # b) \<longleftrightarrow> (c = CHR ''/'' \<or> id_char c) \<and> plain_path b"
  by (simp add: plain_path_def)

lemma plain_path_Nil [simp]: "plain_path []"
  by (simp add: plain_path_def)

lemma dec_plain_path: "plain_path (dec n)" "CHR ''/'' \<notin> set (dec n)" "dec n \<noteq> []" "dec n \<noteq> ''.''" "dec n \<noteq> ''..''"
proof -
  have d: "char_digit c \<noteq> None" if "c \<in> set (dec n)" for c using that dec_nat_digits[of c "unat n"] by (simp add: dec_def)
  then have "id_char c" if "c \<in> set (dec n)" for c
    using d[OF that] by (auto simp: char_digit_def id_char_def Let_def split: if_splits)
  then show "plain_path (dec n)" by (simp add: plain_path_def list_all_iff)
  show "CHR ''/'' \<notin> set (dec n)" using d by (force simp: char_digit_def)
  show "dec n \<noteq> []" by (simp add: dec_def)
  show "dec n \<noteq> ''.''" "dec n \<noteq> ''..''" using d by (force simp: char_digit_def)+
qed

abbreviation run_segments :: "string \<Rightarrow> string list" where
  "run_segments i \<equiv> [[], ''v1'', ''runs'', i]"

lemma run_path_segments:
  assumes "CHR ''/'' \<notin> set i"
  shows "path_segments (run_path i []) = run_segments i"
    and "path_segments (run_path i (CHR ''/'' # t)) = run_segments i @ path_segments t"
  using path_segments_slash[of "''/v1/runs/'' @ i" t] path_segments_flat[OF assms] by (simp_all add: run_path_def)

definition addressable :: "string \<Rightarrow> bool" where
  "addressable i \<longleftrightarrow> valid_id i \<and> i \<noteq> ''.'' \<and> i \<noteq> ''..''"

lemma templates:
  "map (\<lambda>r. (r, path_segments (fst r))) all_routes =
    [((''/health'', [(GetMethod, AtHealth)]), [[], ''health'']),
     ((''/metrics'', [(GetMethod, AtMetrics)]), [[], ''metrics'']),
     ((''/streams/:id'', [(PostMethod, AtPublish), (GetMethod, AtSubscribe), (DeleteMethod, AtDeleteStream)]), [[], ''streams'', '':id'']),
     ((''/streams/:id/complete'', [(PostMethod, AtComplete)]), [[], ''streams'', '':id'', ''complete'']),
     ((''/streams/:id/error'', [(PostMethod, AtFail)]), [[], ''streams'', '':id'', ''error'']),
     ((''/streams/:id/ws'', [(GetMethod, AtSubscribeWs)]), [[], ''streams'', '':id'', ''ws'']),
     ((''/v1/.well-known/tideline'', [(GetMethod, AtWellKnown)]), [[], ''v1'', ''.well-known'', ''tideline'']),
     ((''/v1/runs'', [(PostMethod, AtCreateRun), (GetMethod, AtListRuns)]), [[], ''v1'', ''runs'']),
     ((''/v1/runs/:id'', [(GetMethod, AtGetRun)]), [[], ''v1'', ''runs'', '':id'']),
     ((''/v1/runs/:id/events'', [(PostMethod, AtAppendEvent), (GetMethod, AtListEvents)]), [[], ''v1'', ''runs'', '':id'', ''events'']),
     ((''/v1/runs/:id/watch'', [(GetMethod, AtWatch)]), [[], ''v1'', ''runs'', '':id'', ''watch'']),
     ((''/v1/runs/:id/complete'', [(PostMethod, AtCompleteRun)]), [[], ''v1'', ''runs'', '':id'', ''complete'']),
     ((''/v1/runs/:id/checkpoint'', [(GetMethod, AtGetCheckpoint)]), [[], ''v1'', ''runs'', '':id'', ''checkpoint'']),
     ((''/v1/runs/:id/approvals'', [(PostMethod, AtCreateApproval), (GetMethod, AtListApprovals)]), [[], ''v1'', ''runs'', '':id'', ''approvals'']),
     ((''/v1/runs/:id/approvals/:seq'', [(GetMethod, AtGetApproval)]), [[], ''v1'', ''runs'', '':id'', ''approvals'', '':seq'']),
     ((''/v1/runs/:id/approvals/:seq/resolve'', [(PostMethod, AtResolveApproval)]), [[], ''v1'', ''runs'', '':id'', ''approvals'', '':seq'', ''resolve'']),
     ((''/v1/runs/:id/redactions'', [(PostMethod, AtRedact)]), [[], ''v1'', ''runs'', '':id'', ''redactions''])]"
  by (simp add: all_routes_def record_routes_def)

lemma fitting_templates:
  "filter (\<lambda>r. fits (path_segments (fst r)) ss \<noteq> None) all_routes =
     map fst (filter (\<lambda>(r, t). fits t ss \<noteq> None) (map (\<lambda>r. (r, path_segments (fst r))) all_routes))"
  by (simp add: filter_map o_def)

text \<open>The templates a path under a run fits, and what is captured.\<close>

abbreviation fitting :: "string list \<Rightarrow> route list" where
  "fitting ss \<equiv> filter (\<lambda>r. fits (path_segments (fst r)) ss \<noteq> None) all_routes"

lemma run_fits:
  assumes "i \<noteq> []" and "s \<noteq> []"
  shows "fitting (run_segments i) = [(''/v1/runs/:id'', [(GetMethod, AtGetRun)])]"
    "fitting (run_segments i @ [''events'']) = [(''/v1/runs/:id/events'', [(PostMethod, AtAppendEvent), (GetMethod, AtListEvents)])]"
    "fitting (run_segments i @ [''watch'']) = [(''/v1/runs/:id/watch'', [(GetMethod, AtWatch)])]"
    "fitting (run_segments i @ [''complete'']) = [(''/v1/runs/:id/complete'', [(PostMethod, AtCompleteRun)])]"
    "fitting (run_segments i @ [''checkpoint'']) = [(''/v1/runs/:id/checkpoint'', [(GetMethod, AtGetCheckpoint)])]"
    "fitting (run_segments i @ [''approvals'']) =
       [(''/v1/runs/:id/approvals'', [(PostMethod, AtCreateApproval), (GetMethod, AtListApprovals)])]"
    "fitting (run_segments i @ [''approvals'', s]) = [(''/v1/runs/:id/approvals/:seq'', [(GetMethod, AtGetApproval)])]"
    "fitting (run_segments i @ [''approvals'', s, ''resolve'']) =
       [(''/v1/runs/:id/approvals/:seq/resolve'', [(PostMethod, AtResolveApproval)])]"
    "fitting (run_segments i @ [''redactions'']) = [(''/v1/runs/:id/redactions'', [(PostMethod, AtRedact)])]"
  using assms unfolding fitting_templates templates by simp_all

lemma top_fits:
  "fitting [[], ''v1'', ''runs''] = [(''/v1/runs'', [(PostMethod, AtCreateRun), (GetMethod, AtListRuns)])]"
  "fitting [[], ''v1'', ''.well-known'', ''tideline''] = [(''/v1/.well-known/tideline'', [(GetMethod, AtWellKnown)])]"
  unfolding fitting_templates templates by simp_all

text \<open>A path under a run that can be addressed.\<close>

lemma reached_run:
  assumes "web_ok W" and "addressable i" and "plain_path t" and "\<forall>s \<in> set (path_segments t). s \<noteq> ''.'' \<and> s \<noteq> ''..''"
  shows "fitting (run_segments i) = [r] \<Longrightarrow> reached W m (run_path i []) =
      (case map_of (snd r) m of None \<Rightarrow> None | Some e \<Rightarrow> Some (e, the (fits (path_segments (fst r)) (run_segments i))))"
    and "fitting (run_segments i @ path_segments t) = [r] \<Longrightarrow> reached W m (run_path i (CHR ''/'' # t)) =
      (case map_of (snd r) m of None \<Rightarrow> None
       | Some e \<Rightarrow> Some (e, the (fits (path_segments (fst r)) (run_segments i @ path_segments t))))"
proof -
  have i: "CHR ''/'' \<notin> set i" "plain_path i" "i \<noteq> ''.''" "i \<noteq> ''..''"
    using assms(2) id_chars_plain[of i] by (simp_all add: addressable_def valid_id_def)
  have plain: "plain_path ''/v1/runs/''" by (simp add: id_char_def)
  have dots: "remove_dots [] (run_segments i @ ss) = run_segments i @ ss"
    if "\<forall>s \<in> set ss. s \<noteq> ''.'' \<and> s \<noteq> ''..''" for ss
    using remove_dots_none[of "run_segments i @ ss" "[]"] i(3,4) that by simp
  show "fitting (run_segments i) = [r] \<Longrightarrow> reached W m (run_path i []) =
      (case map_of (snd r) m of None \<Rightarrow> None | Some e \<Rightarrow> Some (e, the (fits (path_segments (fst r)) (run_segments i))))"
    by (rule reached_segments[OF assms(1)]) (use i plain dots[of "[]"] run_path_segments[OF i(1)] in \<open>simp_all add: run_path_def\<close>)
  show "fitting (run_segments i @ path_segments t) = [r] \<Longrightarrow> reached W m (run_path i (CHR ''/'' # t)) =
      (case map_of (snd r) m of None \<Rightarrow> None
       | Some e \<Rightarrow> Some (e, the (fits (path_segments (fst r)) (run_segments i @ path_segments t))))"
    by (rule reached_segments[OF assms(1)])
      (use i plain dots[OF assms(4)] run_path_segments(2)[OF i(1), of t] assms(3) in \<open>simp_all add: run_path_def\<close>)
qed

lemma reached_under:
  assumes "web_ok W" and "addressable i" and "path_segments t = ts" and "plain_path t" and "\<forall>s \<in> set ts. s \<noteq> ''.'' \<and> s \<noteq> ''..''"
    and "fitting (run_segments i @ ts) = [r]"
  shows "reached W m (run_path i (CHR ''/'' # t)) =
      (case map_of (snd r) m of None \<Rightarrow> None
       | Some e \<Rightarrow> Some (e, the (fits (path_segments (fst r)) (run_segments i @ ts))))"
  using reached_run(2)[OF assms(1,2,4) assms(5,6)[folded assms(3)], of m] unfolding assms(3) .

lemma approval_segments:
  "path_segments (''approvals/'' @ dec seq) = [''approvals'', dec seq]"
  "path_segments (''approvals/'' @ dec seq @ ''/resolve'') = [''approvals'', dec seq, ''resolve'']"
  using path_segments_slash[of "''approvals''" "dec seq"] path_segments_slash[of "''approvals''" "dec seq @ ''/resolve''"]
    path_segments_slash[of "dec seq" "''resolve''"] path_segments_flat[OF dec_plain_path(2)[of seq]]
  by simp_all

lemma reached_runs:
  assumes "web_ok W" and "addressable i"
  shows "reached W GetMethod (run_path i '''') = Some (AtGetRun, [i])"
    "reached W PostMethod (run_path i ''/events'') = Some (AtAppendEvent, [i])"
    "reached W GetMethod (run_path i ''/events'') = Some (AtListEvents, [i])"
    "reached W GetMethod (run_path i ''/watch'') = Some (AtWatch, [i])"
    "reached W PostMethod (run_path i ''/complete'') = Some (AtCompleteRun, [i])"
    "reached W GetMethod (run_path i ''/checkpoint'') = Some (AtGetCheckpoint, [i])"
    "reached W PostMethod (run_path i ''/approvals'') = Some (AtCreateApproval, [i])"
    "reached W GetMethod (run_path i ''/approvals'') = Some (AtListApprovals, [i])"
    "reached W PostMethod (run_path i ''/redactions'') = Some (AtRedact, [i])"
    "reached W GetMethod (run_path i (''/approvals/'' @ dec seq)) = Some (AtGetApproval, [i, dec seq])"
    "reached W PostMethod (run_path i (''/approvals/'' @ dec seq @ ''/resolve'')) = Some (AtResolveApproval, [i, dec seq])"
proof -
  have i: "i \<noteq> []" using assms(2) by (simp add: addressable_def valid_id_def)
  note fits = run_fits[OF i dec_plain_path(3)[of seq]]
  note U = reached_under[OF assms]
  have chars: "list_all id_char ''events'' \<and> list_all id_char ''watch'' \<and> list_all id_char ''complete'' \<and>
      list_all id_char ''checkpoint'' \<and> list_all id_char ''approvals'' \<and> list_all id_char ''redactions'' \<and> list_all id_char ''resolve''"
    by (simp add: id_char_def)
  show "reached W GetMethod (run_path i '''') = Some (AtGetRun, [i])"
    using reached_run(1)[OF assms plain_path_Nil _ fits(1), of GetMethod] i by simp
  show "reached W PostMethod (run_path i ''/events'') = Some (AtAppendEvent, [i])"
    "reached W GetMethod (run_path i ''/events'') = Some (AtListEvents, [i])"
    using U[OF _ _ _ fits(2)] chars i by (simp_all add: plain_path_def)
  show "reached W GetMethod (run_path i ''/watch'') = Some (AtWatch, [i])"
    using U[OF _ _ _ fits(3)] chars i by (simp add: plain_path_def)
  show "reached W PostMethod (run_path i ''/complete'') = Some (AtCompleteRun, [i])"
    using U[OF _ _ _ fits(4)] chars i by (simp add: plain_path_def)
  show "reached W GetMethod (run_path i ''/checkpoint'') = Some (AtGetCheckpoint, [i])"
    using U[OF _ _ _ fits(5)] chars i by (simp add: plain_path_def)
  show "reached W PostMethod (run_path i ''/approvals'') = Some (AtCreateApproval, [i])"
    "reached W GetMethod (run_path i ''/approvals'') = Some (AtListApprovals, [i])"
    using U[OF _ _ _ fits(6)] chars i by (simp_all add: plain_path_def)
  show "reached W PostMethod (run_path i ''/redactions'') = Some (AtRedact, [i])"
    using U[OF _ _ _ fits(9)] chars i by (simp add: plain_path_def)
  show "reached W GetMethod (run_path i (''/approvals/'' @ dec seq)) = Some (AtGetApproval, [i, dec seq])"
    using U[OF approval_segments(1) _ _ fits(7)] chars i dec_plain_path[of seq] by (simp add: plain_path_def)
  show "reached W PostMethod (run_path i (''/approvals/'' @ dec seq @ ''/resolve'')) = Some (AtResolveApproval, [i, dec seq])"
    using U[OF approval_segments(2) _ _ fits(8)] chars i dec_plain_path[of seq] by (simp add: plain_path_def)
qed

lemma reached_top:
  assumes "web_ok W"
  shows "reached W PostMethod ''/v1/runs'' = Some (AtCreateRun, [])"
    "reached W GetMethod ''/v1/runs'' = Some (AtListRuns, [])"
    "reached W GetMethod ''/v1/.well-known/tideline'' = Some (AtWellKnown, [])"
  using reached_segments[OF assms _ _ top_fits(1), of "''/v1/runs''"]
    reached_segments[OF assms _ _ top_fits(2), of "''/v1/.well-known/tideline''"]
  by (simp_all add: id_char_def)

text \<open>
  C28: Every request of the client reaches the handler it is meant for. The path the client
  writes, resolved by the URL library and matched against the merged route tables, leads to the
  handler of that operation with the run id and the sequence number it was built from, for
  every id the server accepts but the two dot segments.
\<close>

theorem requests_reach_their_handlers:
  assumes "web_ok W" and "\<forall>i. run_of_request req = Some i \<longrightarrow> addressable i"
  shows "arrives W req = Some req"
  using assms(2) reached_runs[OF assms(1)] reached_top[OF assms(1)]
  by (cases req) (simp_all add: arrives_def)

section \<open>Dot segments\<close>

lemma reached_nothing:
  assumes "web_ok W" and "plain_path p" and "remove_dots [] (path_segments p) = ss" and "fitting ss = []"
  shows "reached W m p = None"
proof -
  have "takes r (wb_url W p) = fits (path_segments (fst r)) ss" for r
    using web_okD(1)[OF assms(1,2)] assms(3) by (simp add: takes_def)
  then have "\<forall>r \<in> set all_routes. takes r (wb_url W p) = None" using assms(4) by (simp add: filter_empty_conv)
  then show ?thesis using web_okD(3)[OF assms(1)] by (simp add: reached_def)
qed

lemma dec_not_word: "dec n \<noteq> c # s" if "char_digit c = None"
  using that dec_nat_digits[of c "unat n"] by (auto simp: dec_def)

lemma dots_fit_nothing:
  "fitting [[], ''v1'', ''runs'', []] = []" "fitting [[], ''v1'', []] = []"
  "fitting [[], ''v1'', ''runs'', ''approvals'', dec seq] = []"
  "fitting [[], ''v1'', ''runs'', ''approvals'', dec seq, ''resolve''] = []"
  "fitting [[], ''v1'', ''approvals'', dec seq] = []" "fitting [[], ''v1'', ''approvals'', dec seq, ''resolve''] = []"
  "fitting [[], ''v1'', ''events''] = []" "fitting [[], ''v1'', ''complete''] = []" "fitting [[], ''v1'', ''checkpoint''] = []"
  "fitting [[], ''v1'', ''approvals''] = []" "fitting [[], ''v1'', ''redactions''] = []"
  unfolding fitting_templates templates by (simp_all add: dec_not_word dec_not_word[symmetric] char_digit_def)

lemma dots_resolved:
  assumes "ts \<noteq> []" and "\<forall>s \<in> set ts. s \<noteq> ''.'' \<and> s \<noteq> ''..''"
  shows "remove_dots [] (run_segments ''.'' @ ts) = [[], ''v1'', ''runs''] @ ts"
    and "remove_dots [] (run_segments ''..'' @ ts) = [[], ''v1''] @ ts"
  using assms remove_dots_none[OF assms(2)] by (simp_all add: Let_def)

lemma dot_chars: "valid_id ''.''" "valid_id ''..''"
  by (simp_all add: valid_id_def id_char_def)

lemma reached_dot:
  assumes "web_ok W" and "i = ''.'' \<or> i = ''..''" and "path_segments t = ts" and "plain_path t"
    and "\<forall>s \<in> set ts. s \<noteq> ''.'' \<and> s \<noteq> ''..''"
  defines "ss \<equiv> (if i = ''.'' then [[], ''v1'', ''runs''] @ ts else [[], ''v1''] @ ts)"
  shows "fitting ss = [] \<Longrightarrow> reached W m (run_path i (CHR ''/'' # t)) = None"
    and "fitting ss = [r] \<Longrightarrow> reached W m (run_path i (CHR ''/'' # t)) =
      (case map_of (snd r) m of None \<Rightarrow> None | Some e \<Rightarrow> Some (e, the (fits (path_segments (fst r)) ss)))"
proof -
  have ts: "ts \<noteq> []" using assms(3) by auto
  have "CHR ''/'' \<notin> set i" using assms(2) by auto
  then have res: "remove_dots [] (path_segments (run_path i (CHR ''/'' # t))) = ss"
    using dots_resolved[OF ts assms(5)] assms(2,3) unfolding run_path_segments(2)[OF \<open>CHR ''/'' \<notin> set i\<close>] ss_def by auto
  have plain: "plain_path (run_path i (CHR ''/'' # t))"
    using assms(2,4) by (auto simp: run_path_def id_char_def)
  show "fitting ss = [] \<Longrightarrow> reached W m (run_path i (CHR ''/'' # t)) = None"
    by (rule reached_nothing[OF assms(1) plain res])
  show "fitting ss = [r] \<Longrightarrow> reached W m (run_path i (CHR ''/'' # t)) =
      (case map_of (snd r) m of None \<Rightarrow> None | Some e \<Rightarrow> Some (e, the (fits (path_segments (fst r)) ss)))"
    by (rule reached_segments[OF assms(1) plain res])
qed

lemma reached_dot_word:
  assumes "web_ok W" and "w \<in> {''events'', ''complete'', ''checkpoint'', ''approvals'', ''redactions''}"
  shows "reached W m (run_path ''..'' (CHR ''/'' # w)) = None"
    and "reached W m (run_path ''.'' (CHR ''/'' # w)) = (if m = GetMethod then Some (AtGetRun, [w]) else None)"
proof -
  have w: "path_segments w = [w]" "plain_path w" "w \<noteq> ''.''" "w \<noteq> ''..''" "w \<noteq> []"
    using assms(2) by (auto simp: id_char_def)
  have "fitting ([[], ''v1''] @ [w]) = []" using assms(2) dots_fit_nothing by (elim insertE emptyE) simp_all
  then show "reached W m (run_path ''..'' (CHR ''/'' # w)) = None"
    using reached_dot(1)[OF assms(1), of "''..''" w "[w]"] w by simp
  have "fitting ([[], ''v1'', ''runs''] @ [w]) = [(''/v1/runs/:id'', [(GetMethod, AtGetRun)])]"
    using run_fits(1)[OF w(5,5)] by simp
  then show "reached W m (run_path ''.'' (CHR ''/'' # w)) = (if m = GetMethod then Some (AtGetRun, [w]) else None)"
    using reached_dot(2)[OF assms(1), of "''.''" w "[w]"] w by simp
qed

lemma reached_dot_gate:
  assumes "web_ok W" and "i = ''.'' \<or> i = ''..''"
  shows "reached W m (run_path i (''/approvals/'' @ dec seq)) = None"
    and "reached W m (run_path i (''/approvals/'' @ dec seq @ ''/resolve'')) = None"
    and "reached W m (run_path i '''') = None"
proof -
  note d = dec_plain_path[of seq]
  show "reached W m (run_path i (''/approvals/'' @ dec seq)) = None"
    using reached_dot(1)[OF assms approval_segments(1)] assms(2) d dots_fit_nothing by (auto simp: id_char_def)
  show "reached W m (run_path i (''/approvals/'' @ dec seq @ ''/resolve'')) = None"
    using reached_dot(1)[OF assms approval_segments(2)] assms(2) d dots_fit_nothing by (auto simp: id_char_def)
  have "plain_path (run_path i '''')" using assms(2) by (auto simp: run_path_def id_char_def)
  moreover have "remove_dots [] (path_segments (run_path i '''')) = (if i = ''.'' then [[], ''v1'', ''runs'', []] else [[], ''v1'', []])"
    using assms(2) by (auto simp: run_path_def)
  ultimately show "reached W m (run_path i '''') = None"
    using reached_nothing[OF assms(1)] dots_fit_nothing(1,2) assms(2) by (auto split: if_splits)
qed

text \<open>
  A run whose id is a dot segment can be created but not used. The server accepts the ids
  of one and of two dots; no request of the client about such a run arrives, and one about the
  run of one dot arrives as a request about another run, named after the operation.
\<close>

theorem dot_runs_are_unreachable:
  assumes "web_ok W" and "i = ''.'' \<or> i = ''..''"
  shows "valid_id i \<and> (run_of_request req = Some i \<longrightarrow> arrives W req \<noteq> Some req) \<and>
    arrives W (GetCheckpoint ''.'' h) = Some (GetRun ''checkpoint'' h)"
proof -
  note word = reached_dot_word[OF assms(1)]
  have words: "reached W m (run_path ''..'' ''/events'') = None" "reached W m (run_path ''..'' ''/complete'') = None"
    "reached W m (run_path ''..'' ''/checkpoint'') = None" "reached W m (run_path ''..'' ''/approvals'') = None"
    "reached W m (run_path ''..'' ''/redactions'') = None"
    "reached W m (run_path ''.'' ''/events'') = (if m = GetMethod then Some (AtGetRun, [''events'']) else None)"
    "reached W m (run_path ''.'' ''/complete'') = (if m = GetMethod then Some (AtGetRun, [''complete'']) else None)"
    "reached W m (run_path ''.'' ''/checkpoint'') = (if m = GetMethod then Some (AtGetRun, [''checkpoint'']) else None)"
    "reached W m (run_path ''.'' ''/approvals'') = (if m = GetMethod then Some (AtGetRun, [''approvals'']) else None)"
    "reached W m (run_path ''.'' ''/redactions'') = (if m = GetMethod then Some (AtGetRun, [''redactions'']) else None)" for m
    by (rule word; simp)+
  note gate = reached_dot_gate[OF assms(1)]
  have "arrives W req \<noteq> Some req" if "run_of_request req = Some ''.''"
    using that words(6-10) gate[of "''.''"] by (cases req) (simp_all add: arrives_def)
  moreover have "arrives W req \<noteq> Some req" if "run_of_request req = Some ''..''"
    using that words(1-5) gate[of "''..''"] by (cases req) (simp_all add: arrives_def)
  moreover have "arrives W (GetCheckpoint ''.'' h) = Some (GetRun ''checkpoint'' h)"
    using words(8) by (simp add: arrives_def)
  ultimately show ?thesis using assms(2) dot_chars by blast
qed

section \<open>A router\<close>

fun joined :: "string list \<Rightarrow> string" where
  "joined [] = []"
| "joined [s] = s"
| "joined (s # ss) = s @ CHR ''/'' # joined ss"

lemma path_segments_joined: "ss \<noteq> [] \<Longrightarrow> \<forall>s \<in> set ss. CHR ''/'' \<notin> set s \<Longrightarrow> path_segments (joined ss) = ss"
  by (induction ss rule: joined.induct) (simp_all add: path_segments_flat path_segments_slash)

lemma path_segments_slashless: "s \<in> set (path_segments p) \<Longrightarrow> CHR ''/'' \<notin> set s"
  by (induction p arbitrary: s) (auto split: if_splits list.splits)

lemma remove_dots_ne: "ss \<noteq> [] \<Longrightarrow> remove_dots out ss \<noteq> []"
proof (induction ss arbitrary: out)
  case (Cons s ss)
  then show ?case by (cases "ss = []") (simp_all add: Let_def)
qed simp

lemma remove_dots_from: "s \<in> set (remove_dots out ss) \<Longrightarrow> s \<in> set out \<or> s \<in> set ss \<or> s = []"
  by (induction ss arbitrary: out) (fastforce simp: Let_def dest: in_set_butlastD split: if_splits)+

definition demo_web :: web where
  "demo_web = \<lparr>wb_url = (\<lambda>p. joined (remove_dots [] (path_segments p))),
     wb_route = (\<lambda>table p. case filter (\<lambda>r. takes r p \<noteq> None) table of [] \<Rightarrow> None | r # _ \<Rightarrow> Some (r, the (takes r p)))\<rparr>"

lemma demo_web_ok: "web_ok demo_web"
proof -
  have "path_segments (wb_url demo_web p) = remove_dots [] (path_segments p)" for p
  proof -
    have "CHR ''/'' \<notin> set s" if "s \<in> set (remove_dots [] (path_segments p))" for s
      using remove_dots_from[OF that] path_segments_slashless by auto
    then show ?thesis using path_segments_joined[OF remove_dots_ne[OF path_segments_ne]] by (simp add: demo_web_def)
  qed
  moreover have "wb_route demo_web table p = Some (r, ps)"
    if r: "r \<in> set table" "takes r p = Some ps" and only: "\<forall>r' \<in> set table. takes r' p \<noteq> None \<longrightarrow> r' = r" for table r p ps
  proof -
    obtain r' rest where f: "filter (\<lambda>r. takes r p \<noteq> None) table = r' # rest"
      using r by (cases "filter (\<lambda>r. takes r p \<noteq> None) table") (auto simp: filter_empty_conv)
    then have "r' \<in> set table \<and> takes r' p \<noteq> None" by (metis (mono_tags, lifting) list.set_intros(1) mem_Collect_eq set_filter)
    then have "r' = r" using only by blast
    then show ?thesis using f r(2) by (simp add: demo_web_def)
  qed
  moreover have "wb_route demo_web table p = None" if "\<forall>r \<in> set table. takes r p = None" for table p
    using that by (simp add: demo_web_def filter_False)
  ultimately show ?thesis unfolding web_ok_def by blast
qed

theorem requests_reach_their_handlers_witness:
  "arrives demo_web (GetApproval ''loan'' 3 demo_headers) = Some (GetApproval ''loan'' 3 demo_headers)"
  using requests_reach_their_handlers[OF demo_web_ok, of "GetApproval ''loan'' 3 demo_headers"]
  by (simp add: addressable_def valid_id_def id_char_def)

theorem dot_runs_are_unreachable_witness:
  "arrives demo_web (CompleteRun ''.'' demo_headers) \<noteq> Some (CompleteRun ''.'' demo_headers) \<and>
   arrives demo_web (GetCheckpoint ''.'' demo_headers) = Some (GetRun ''checkpoint'' demo_headers)"
  using dot_runs_are_unreachable[OF demo_web_ok, of "''.''" "CompleteRun ''.'' demo_headers" demo_headers] by simp

end
