(* ===== verification/Cli.thy ===== *)
theory Cli
  imports Server_Props
begin

text \<open>
  The command line verifier, \<open>crates/tideline-cli/src/main.rs\<close>: reading a record and a
  checkpoint, the checks and their order, what is printed and the exit code. Files and standard
  input, the JSON readers, base64 errors and the reading of a public key are parameters.
\<close>

record cli_env =
  ce_stdin :: "string + string"
  ce_file :: "string \<Rightarrow> string + string"
  ce_record :: "string \<Rightarrow> string + run_event list"
  ce_checkpoint :: "string \<Rightarrow> string + checkpoint"
  ce_json :: json_lib
  ce_b64_error :: "string \<Rightarrow> string"
  ce_key :: "u8 list \<Rightarrow> string + verifying_key"
  ce_sha :: sha
  ce_sig :: sig_lib

datatype printed = StdOut string | StdErr string

definition EXIT_OK :: nat where "EXIT_OK = 0"
definition UNSOUND :: nat where "UNSOUND = 1"
definition UNREADABLE :: nat where "UNREADABLE = 2"

definition newline :: string where
  "newline = [CHR 0x0A]"

text \<open>The dash and the ellipsis of the messages, in UTF-8.\<close>

definition em_dash :: string where
  "em_dash = [CHR 0xE2, CHR 0x80, CHR 0x94]"

definition ellipsis :: string where
  "ellipsis = [CHR 0xE2, CHR 0x80, CHR 0xA6]"

definition read_input :: "cli_env \<Rightarrow> string \<Rightarrow> string + string" where
  "read_input E path =
     (if path = ''-''
      then (case ce_stdin E of Inl e \<Rightarrow> Inl (''cannot read standard input: '' @ e) | Inr t \<Rightarrow> Inr t)
      else (case ce_file E path of Inl e \<Rightarrow> Inl (''cannot read '' @ path @ '': '' @ e) | Inr t \<Rightarrow> Inr t))"

definition run_id_of :: "cli_env \<Rightarrow> run_event list \<Rightarrow> string option" where
  "run_id_of E events =
     (case events of
        [] \<Rightarrow> None
      | first # _ \<Rightarrow>
          (case metadata_raw first of
             None \<Rightarrow> None
           | Some m \<Rightarrow>
               (case json_parse (ce_json E) m of
                  None \<Rightarrow> None
                | Some v \<Rightarrow> (case json_get v ''run_id'' of None \<Rightarrow> None | Some r \<Rightarrow> as_str r))))"

fun describe :: "chain_error \<Rightarrow> string" where
  "describe Empty = ''the record is empty''"
| "describe NotRunStarted =
     ''this record does not begin with run_started, so its envelope is missing''"
| "describe (SeqGap expected found) =
     ''an event is missing: expected seq '' @ dec expected @ '', found seq '' @ dec found
     @ ''. The record was edited after it was written.''"
| "describe (PrevMismatch seq _ _) =
     ''the link into seq '' @ dec seq @ '' was rewritten. The record was edited after it was written.''"
| "describe (HashMismatch seq _ _) =
     ''event seq '' @ dec seq @ '' was altered. Its contents no longer match the hash recorded for it.''"

fun cp_error_text :: "checkpoint_error \<Rightarrow> string" where
  "cp_error_text MalformedSignature = ''MalformedSignature''"
| "cp_error_text BadSignature = ''BadSignature''"

text \<open>The signature of a checkpoint that matches the record.\<close>

definition check_signature ::
  "cli_env \<Rightarrow> checkpoint \<Rightarrow> string option \<Rightarrow> chain_ok \<Rightarrow> bool \<Rightarrow> printed list \<times> nat" where
  "check_signature E cp public_key ok brief =
     (case public_key of
        None \<Rightarrow>
          (if brief then [] else [StdOut (''checkpoint matches seq '' @ dec (cp_seq cp) @ '' '' @ em_dash
              @ '' pass --public-key to check its signature'')], EXIT_OK)
      | Some key_b64 \<Rightarrow>
          (case b64_decode (ce_sig E) key_b64 of
             None \<Rightarrow> ([StdErr (''--public-key is not base64: '' @ ce_b64_error E key_b64)], UNREADABLE)
           | Some raw \<Rightarrow>
               if length raw \<noteq> 32 then ([StdErr ''--public-key must be 32 bytes''], UNREADABLE)
               else (case ce_key E raw of
                  Inl e \<Rightarrow> ([StdErr (''--public-key is not a valid Ed25519 key: '' @ e)], UNREADABLE)
                | Inr key \<Rightarrow>
                    (case cp_verify (ce_sha E) (ce_sig E) cp key of
                       Inr _ \<Rightarrow>
                         (if brief then [] else
                            [StdOut (''checkpoint signature valid (key '' @ cp_key_id cp @ ''), covering seq ''
                               @ dec (cp_seq cp))]
                            @ (if cp_seq cp < ok_head_seq ok then
                                 [StdOut (''note: it covers seq '' @ dec (cp_seq cp) @ '' of '' @ dec (ok_head_seq ok)
                                    @ '', so the '' @ dec (ok_head_seq ok - cp_seq cp)
                                    @ '' events after it are protected by the chain but not by this checkpoint'')]
                               else []), EXIT_OK)
                     | Inl e \<Rightarrow> ([StdErr (''checkpoint signature does not verify: '' @ cp_error_text e)], UNSOUND)))))"

definition check_checkpoint ::
  "cli_env \<Rightarrow> string \<Rightarrow> string option \<Rightarrow> run_event list \<Rightarrow> chain_ok \<Rightarrow> bool \<Rightarrow> printed list \<times> nat" where
  "check_checkpoint E path public_key events ok brief =
     (case read_input E path of
        Inl e \<Rightarrow> ([StdErr e], UNREADABLE)
      | Inr text \<Rightarrow>
     (case ce_checkpoint E text of
        Inl e \<Rightarrow> ([StdErr (''not a checkpoint: '' @ e)], UNREADABLE)
      | Inr cp \<Rightarrow>
     (if run_id_of E events \<noteq> None \<and> run_id_of E events \<noteq> Some (cp_run_id cp) then
        ([StdErr (''the checkpoint covers run '' @ cp_run_id cp @ '', but this record is run ''
            @ the (run_id_of E events))], UNSOUND)
      else if ok_head_seq ok < cp_seq cp then
        ([StdErr (''TRUNCATED: the checkpoint covers seq '' @ dec (cp_seq cp) @ '' but the record ends at seq ''
            @ dec (ok_head_seq ok) @ ''. '' @ dec (cp_seq cp - ok_head_seq ok)
            @ '' events are missing from the end.'')], UNSOUND)
      else (case find (\<lambda>e. ev_seq e = cp_seq cp) events of
         None \<Rightarrow>
           ([StdErr (''the checkpoint covers seq '' @ dec (cp_seq cp) @ '', which is not in this record'')], UNSOUND)
       | Some covered \<Rightarrow>
           if ev_hash covered \<noteq> cp_head_hash cp then
             ([StdErr (''the checkpoint'' @ [CHR 0x27] @ ''s head for seq '' @ dec (cp_seq cp)
                 @ '' does not match this record: it attests '' @ take 16 (to_hex (cp_head_hash cp)) @ ellipsis
                 @ '', the record has '' @ take 16 (to_hex (ev_hash covered)) @ ellipsis
                 @ ''. These are different histories.'')], UNSOUND)
           else check_signature E cp public_key ok brief))))"

definition cli_verify ::
  "cli_env \<Rightarrow> string \<Rightarrow> string option \<Rightarrow> string option \<Rightarrow> bool \<Rightarrow> printed list \<times> nat" where
  "cli_verify E path checkpoint_path public_key brief =
     (case read_input E path of
        Inl e \<Rightarrow> ([StdErr e], UNREADABLE)
      | Inr text \<Rightarrow>
     (case ce_record E text of
        Inl e \<Rightarrow> ([StdErr (''not a TLR/1 record: '' @ e)], UNREADABLE)
      | Inr events \<Rightarrow>
     (case verify_chain (ce_sha E) events of
        Inl e \<Rightarrow> ([StdErr (describe e)], UNSOUND)
      | Inr ok \<Rightarrow>
          (let out = (if brief then [StdOut ''ok'']
                 else [StdOut (dec (of_nat (ok_len ok)) @ '' events verified''),
                       StdOut (''head      '' @ to_hex (ok_head_hash ok) @ '' (seq '' @ dec (ok_head_seq ok) @ '')'')])
           in case checkpoint_path of
                Some cp_path \<Rightarrow>
                  (case check_checkpoint E cp_path public_key events ok brief of
                     (out', code) \<Rightarrow> (out @ out', max EXIT_OK code))
              | None \<Rightarrow>
                  if \<not> ok_sealed ok \<and> \<not> brief then
                    (out @ [StdOut (newline
                       @ ''This record is not sealed and no checkpoint was supplied, so events'' @ newline
                       @ ''could have been removed from the end without leaving a trace. The'' @ newline
                       @ ''chain proves nothing was altered; it cannot prove nothing is missing.'')], EXIT_OK)
                  else if \<not> brief then (out @ [StdOut ''sealed    yes''], EXIT_OK)
                  else (out, EXIT_OK)))))"

section \<open>What an exit code means\<close>

lemma check_signature_code:
  "snd (check_signature E cp key ok brief) = 0 \<longleftrightarrow>
     (\<forall>k. key = Some k \<longrightarrow> (\<exists>raw vk. b64_decode (ce_sig E) k = Some raw \<and> length raw = 32 \<and>
        ce_key E raw = Inr vk \<and> cp_verify (ce_sha E) (ce_sig E) cp vk = Inr ()))"
  by (auto simp: check_signature_def EXIT_OK_def UNSOUND_def UNREADABLE_def split: option.split sum.split)

lemma check_checkpoint_code:
  "snd (check_checkpoint E path key evs ok brief) = 0 \<longleftrightarrow>
     (\<exists>text cp e. read_input E path = Inr text \<and> ce_checkpoint E text = Inr cp \<and>
        (run_id_of E evs = None \<or> run_id_of E evs = Some (cp_run_id cp)) \<and> cp_seq cp \<le> ok_head_seq ok \<and>
        find (\<lambda>e. ev_seq e = cp_seq cp) evs = Some e \<and> ev_hash e = cp_head_hash cp \<and>
        snd (check_signature E cp key ok brief) = 0)"
  by (auto simp: check_checkpoint_def UNSOUND_def UNREADABLE_def not_less split: option.split sum.split)

lemma cli_verify_code:
  "snd (cli_verify E path cp_path key brief) = 0 \<longleftrightarrow>
     (\<exists>text evs ok. read_input E path = Inr text \<and> ce_record E text = Inr evs \<and>
        verify_chain (ce_sha E) evs = Inr ok \<and>
        (\<forall>p. cp_path = Some p \<longrightarrow> snd (check_checkpoint E p key evs ok brief) = 0))"
  by (auto simp: cli_verify_def EXIT_OK_def UNSOUND_def UNREADABLE_def Let_def split: option.split sum.split prod.split)

text \<open>The event a sound record has at a sequence number is the one at that index.\<close>

lemma find_seq:
  assumes "linked sha evs" and "length evs \<le> 2 ^ 64" and "find (\<lambda>e. ev_seq e = q) evs = Some e"
  shows "unat q < length evs" and "e = evs ! unat q"
proof -
  from assms(3) obtain k where k: "k < length evs" "e = evs ! k" "ev_seq e = q"
    by (auto simp: find_Some_iff)
  then have "q = of_nat k" using linked_seq_nth[OF assms(1) k(1)] by simp
  with k(1) assms(2) have "unat q = k" by (simp add: unat_of_nat_u64)
  with k show "unat q < length evs" "e = evs ! unat q" by simp_all
qed

lemma linked_same_upto:
  assumes "linked sha xs" and "linked sha ys"
    and "collision_free sha (set (link_inputs sha xs) \<union> set (link_inputs sha ys))"
    and "n < length xs" and "n < length ys" and "ev_hash (xs ! n) = ev_hash (ys ! n)"
  shows "take (Suc n) (commitments sha xs) = take (Suc n) (commitments sha ys)"
proof (rule nth_equalityI)
  show "length (take (Suc n) (commitments sha xs)) = length (take (Suc n) (commitments sha ys))"
    using assms(4,5) by (simp add: commitments_def)
  fix k assume "k < length (take (Suc n) (commitments sha xs))"
  then have "k \<le> n" "k < length xs" "k < length ys" using assms(4,5) by (simp_all add: commitments_def)
  with linked_agree[OF assms, of k] show "take (Suc n) (commitments sha xs) ! k = take (Suc n) (commitments sha ys) ! k"
    by (simp add: commitments_def)
qed

text \<open>
  C2: exit 0 pins the server's history. Suppose every checkpoint the key's owner issued commits
  to an event of a sound record of the run it names, as the server's do, and no signature is
  forged. If \<open>tideline verify\<close> with a checkpoint and that key exits 0 on some file, then the
  record in the file has the event the checkpoint covers, and up to it commits, event by
  event, to what the record of that run on the server does: nothing up to there was altered,
  reordered, inserted or removed, whoever kept the file.
\<close>

theorem exit_0_pins_the_history:
  assumes "snd (cli_verify E path (Some cp_path) (Some key) brief) = 0"
    and "read_input E path = Inr text" and "ce_record E text = Inr evs"
    and "read_input E cp_path = Inr cp_text" and "ce_checkpoint E cp_text = Inr cp"
    and "b64_decode (ce_sig E) key = Some raw" and "ce_key E raw = Inr vk"
    and "unforged (ce_sha E) (ce_sig E) vk issued [cp]"
    and "collision_free (ce_sha E) (set (cp_inputs (cp # issued)))"
    and "\<forall>c \<in> set issued. \<exists>ns. commits_to (log ns (cp_run_id c)) (cp_seq c) (cp_head_hash c)"
    and "\<forall>ns i. linked (ce_sha E) (log ns i) \<and>
       collision_free (ce_sha E) (set (link_inputs (ce_sha E) evs) \<union> set (link_inputs (ce_sha E) (log ns i)))"
    and "length evs \<le> 2 ^ 64"
  shows "\<exists>ns. let n = unat (cp_seq cp); real = log ns (cp_run_id cp) in
    n < length evs \<and> n < length real \<and>
    take (Suc n) (commitments (ce_sha E) evs) = take (Suc n) (commitments (ce_sha E) real)"
proof -
  obtain ok e where ok: "verify_chain (ce_sha E) evs = Inr ok"
    and e: "find (\<lambda>e. ev_seq e = cp_seq cp) evs = Some e" "ev_hash e = cp_head_hash cp"
    and sig: "cp_verify (ce_sha E) (ce_sig E) cp vk = Inr ()"
    using assms(1-7) by (auto simp: cli_verify_code check_checkpoint_code check_signature_code)
  from verified_was_issued[OF sig assms(8,9)] obtain c where c: "c \<in> set issued" "same_claim cp c" by blast
  with assms(10) obtain ns where ns: "commits_to (log ns (cp_run_id cp)) (cp_seq cp) (cp_head_hash cp)"
    by (auto simp: same_claim_def)
  have lk: "linked (ce_sha E) evs" using ok by (simp add: verify_chain_Inr_iff)
  note at = find_seq[OF lk assms(12) e(1)]
  from ns have real: "unat (cp_seq cp) < length (log ns (cp_run_id cp))"
    "ev_hash (log ns (cp_run_id cp) ! unat (cp_seq cp)) = cp_head_hash cp"
    by (simp_all add: commits_to_def)
  have "take (Suc (unat (cp_seq cp))) (commitments (ce_sha E) evs)
    = take (Suc (unat (cp_seq cp))) (commitments (ce_sha E) (log ns (cp_run_id cp)))"
    using assms(11) at e(2) real by (intro linked_same_upto[OF lk]) simp_all
  with at(1) real(1) show ?thesis by (auto simp: Let_def)
qed

definition demo_cli :: cli_env where
  "demo_cli = \<lparr>ce_stdin = Inl ''closed'', ce_file = Inr,
     ce_record = (\<lambda>t. if t = ''record'' then Inr demo_chain else Inl ''EOF''),
     ce_checkpoint = (\<lambda>t. if t = ''cp'' then Inr (demo_cp\<lparr>cp_sig := replicate 64 (CHR 0x01)\<rparr>) else Inl ''EOF''),
     ce_json = demo_json\<lparr>json_parse := (\<lambda>_. None)\<rparr>, ce_b64_error = (\<lambda>_. ''''), ce_key = Inr,
     ce_sha = prefix_sha, ce_sig = demo_sig\<rparr>"

lemma demo_cli_key: "b64_decode demo_sig s = Some (as_bytes s)" "ce_key demo_cli raw = Inr raw"
  by (simp_all add: demo_sig_def demo_cli_def)

lemma demo_found:
  "find (\<lambda>e. ev_seq e = cp_seq demo_cp) demo_chain = Some demo_e1" "ev_hash demo_e1 = cp_head_hash demo_cp"
  "cp_seq demo_cp \<le> ok_head_seq (chain_summary demo_chain)"
  by (simp_all add: demo_chain_def demo_cp_def demo_e0_def demo_e1_def demo_e2_def with_hash_def default_event_def
      chain_summary_def)

theorem exit_0_pins_the_history_witness:
  "snd (cli_verify demo_cli ''record'' (Some ''cp'') (Some (replicate 32 (CHR ''k''))) True) = 0 \<and>
   take 2 (commitments prefix_sha demo_chain) = take 2 (commitments prefix_sha demo_erased)"
proof -
  let ?cp = "demo_cp\<lparr>cp_sig := replicate 64 (CHR 0x01)\<rparr>" and ?key = "replicate 32 (CHR ''k'')"
  have files: "read_input demo_cli ''record'' = Inr ''record''" "ce_record demo_cli ''record'' = Inr demo_chain"
    "read_input demo_cli ''cp'' = Inr ''cp''" "ce_checkpoint demo_cli ''cp'' = Inr ?cp"
    "b64_decode (ce_sig demo_cli) ?key = Some (as_bytes ?key)" "ce_key demo_cli (as_bytes ?key) = Inr (as_bytes ?key)"
    "run_id_of demo_cli demo_chain = None" "ce_sha demo_cli = prefix_sha" "ce_sig demo_cli = demo_sig"
    by (simp_all add: read_input_def demo_cli_def demo_sig_def run_id_of_def demo_chain_def split: option.split)
  have sig: "cp_verify prefix_sha demo_sig ?cp (as_bytes ?key) = Inr ()"
    by (simp add: cp_verify_def demo_sig_def as_bytes_def byte_of_def of_char_def)
  have exit: "snd (cli_verify demo_cli ''record'' (Some ''cp'') (Some ?key) True) = 0"
    using sig demo_chain_verifies demo_found
      demo_cli_key by (simp add: cli_verify_code check_checkpoint_code check_signature_code files as_bytes_def)
  have "unforged prefix_sha demo_sig (as_bytes ?key) [demo_cp] [?cp]"
    by (simp add: unforged_def)
  moreover have "collision_free prefix_sha (set (cp_inputs (?cp # [demo_cp])))"
    by (rule collision_free_mono[OF demo_cp_collision_free]) (auto simp: cp_inputs_def)
  moreover have "commits_to demo_erased (cp_seq demo_cp) (cp_head_hash demo_cp)"
    by (simp add: commits_to_def demo_cp_def demo_erased_def)
  moreover have "linked prefix_sha demo_erased"
    using demo_erased_verifies by (simp add: verify_chain_Inr_iff)
  moreover have "collision_free prefix_sha (set (link_inputs prefix_sha demo_chain) \<union> set (link_inputs prefix_sha demo_erased))"
    unfolding demo_erased_link_inputs
    by (rule collision_free_mono[OF demo_chain_collision_free]) (simp add: record_inputs_def)
  moreover have "length demo_chain \<le> 2 ^ 64" by (simp add: demo_chain_def)
  ultimately have "take (Suc (unat (cp_seq ?cp))) (commitments prefix_sha demo_chain)
    = take (Suc (unat (cp_seq ?cp))) (commitments prefix_sha demo_erased)"
    using exit_0_pins_the_history[OF exit files(1-6), of "[demo_cp]" "\<lambda>ns i. demo_erased"]
    by (simp add: files(8,9) Let_def)
  with exit show ?thesis by (simp add: demo_cp_def numeral_2_eq_2)
qed

end
