(* ===== verification/Sse.thy ===== *)
theory Sse
  imports Sdk Utf8
begin

text \<open>
  Following a record from the client, \<open>watch\<close>, \<open>sse_events\<close> and \<open>find_frame_end\<close> of
  \<open>crates/tideline-sdk/src/run.rs\<close>: frames are cut out of the bytes as they arrive, and each is
  read line by line. What reads an event from the text of a frame, and the text of an error, are
  parameters.
\<close>

section \<open>Frames\<close>

fun find_frame_end :: "string \<Rightarrow> nat option" where
  "find_frame_end (c # d # cs) =
     (if c = LF \<and> d = LF then Some 0 else map_option Suc (find_frame_end (d # cs)))"
| "find_frame_end _ = None"

record event_reader =
  er_event :: "string \<Rightarrow> string + run_event"
  er_utf8_error :: "string \<Rightarrow> string"

text \<open>One line of a frame: more data, or whether the event it names closes the stream.\<close>

definition frame_line :: "string \<Rightarrow> string \<times> bool \<Rightarrow> string \<times> bool" where
  "frame_line line acc =
     (case acc of (data, terminal) \<Rightarrow>
        if prefix ''data:'' line then (data @ trim_start (drop 5 line), terminal)
        else if prefix ''event:'' line
        then (data, trim (drop 6 line) = ''done'' \<or> trim (drop 6 line) = ''stream_error'')
        else (data, terminal))"

definition frame_events :: "event_reader \<Rightarrow> string \<Rightarrow> (sdk_error + run_event) list" where
  "frame_events R frame =
     (if \<not> valid_utf8 frame then [Inl (Protocol (''frame is not valid UTF-8: '' @ er_utf8_error R frame))]
      else case fold frame_line (str_lines frame) ([], False) of (data, terminal) \<Rightarrow>
        if terminal \<or> data = [] then []
        else (case er_event R data of
                Inr e \<Rightarrow> [Inr e]
              | Inl e \<Rightarrow> [Inl (Protocol (''bad event frame: '' @ e))]))"

function sse_drain :: "event_reader \<Rightarrow> string \<Rightarrow> (sdk_error + run_event) list \<times> string" where
  "sse_drain R buf =
     (case find_frame_end buf of
        None \<Rightarrow> ([], buf)
      | Some end \<Rightarrow>
          (case sse_drain R (drop (end + 2) buf) of
             (out, buf') \<Rightarrow> (frame_events R (take end buf) @ out, buf')))"
  by pat_completeness auto

lemma find_frame_end_bound: "find_frame_end s = Some n \<Longrightarrow> n + 2 \<le> length s"
  by (induction s arbitrary: n rule: find_frame_end.induct) (auto split: if_splits)

termination sse_drain
  by (relation "measure (\<lambda>(R, buf). length buf)") (auto dest!: find_frame_end_bound)

declare sse_drain.simps [simp del]

text \<open>One chunk of the response, or the failure to read one.\<close>

definition sse_chunk ::
  "event_reader \<Rightarrow> string + string \<Rightarrow> string \<Rightarrow> (sdk_error + run_event) list \<times> string" where
  "sse_chunk R chunk buf =
     (case chunk of
        Inl e \<Rightarrow> ([Inl (Transport e)], buf)
      | Inr b \<Rightarrow> sse_drain R (buf @ b))"

fun sse_from :: "event_reader \<Rightarrow> string \<Rightarrow> (string + string) list \<Rightarrow> (sdk_error + run_event) list" where
  "sse_from R buf [] = []"
| "sse_from R buf (chunk # chunks) =
     (case sse_chunk R chunk buf of (out, buf) \<Rightarrow> out @ sse_from R buf chunks)"

definition sse_events :: "event_reader \<Rightarrow> (string + string) list \<Rightarrow> (sdk_error + run_event) list" where
  "sse_events R chunks = sse_from R [] chunks"

section \<open>Cutting into chunks does not matter\<close>

lemma find_frame_end_append: "find_frame_end s = Some n \<Longrightarrow> find_frame_end (s @ t) = Some n"
proof (induction s arbitrary: n rule: find_frame_end.induct)
  case (1 c d cs)
  then show ?case by (auto split: if_splits)
qed simp_all

lemma sse_drain_append:
  "sse_drain R (s @ t) = (case sse_drain R s of (out, rest) \<Rightarrow>
     case sse_drain R (rest @ t) of (out', rest') \<Rightarrow> (out @ out', rest'))"
proof (induction R s rule: sse_drain.induct)
  case (1 R s)
  show ?case
  proof (cases "find_frame_end s")
    case None
    then show ?thesis by (simp add: sse_drain.simps[of R s])
  next
    case (Some n)
    with find_frame_end_bound[OF Some] find_frame_end_append[OF Some] 1[OF Some] show ?thesis
      by (simp add: sse_drain.simps[of R "s @ t"] sse_drain.simps[of R s] split: prod.split)
  qed
qed

lemma sse_from_drain:
  "snd (sse_drain R buf) = buf \<Longrightarrow> fst (sse_drain R buf) = [] \<Longrightarrow>
   sse_from R buf (map Inr chunks) = fst (sse_drain R (buf @ concat chunks))"
proof (induction chunks arbitrary: buf)
  case (Cons c chunks)
  obtain out rest where d: "sse_drain R (buf @ c) = (out, rest)" by force
  have "sse_drain R rest = ([], rest)"
    using sse_drain_append[of R "buf @ c" "[]"] d by (auto split: prod.splits)
  then have "sse_from R rest (map Inr chunks) = fst (sse_drain R (rest @ concat chunks))"
    by (intro Cons.IH) simp_all
  with d sse_drain_append[of R "buf @ c" "concat chunks"] show ?case
    by (simp add: sse_chunk_def case_prod_unfold)
qed simp

lemma sse_drain_Nil [simp]: "sse_drain R [] = ([], [])"
  by (simp add: sse_drain.simps)

text \<open>
  the client sees frames, not chunks. However the bytes of a stream are cut into chunks,
  in the middle of a frame or of a character, the events decoded are those of the bytes as a whole.
\<close>

theorem chunks_do_not_matter: "sse_events R (map Inr chunks) = fst (sse_drain R (concat chunks))"
  using sse_from_drain[of R "[]" chunks] by (simp add: sse_events_def)

section \<open>What the client reads of what the server sent\<close>

text \<open>The lines of a text, as the server puts them on the wire.\<close>

fun segments :: "string \<Rightarrow> string list" where
  "segments [] = [[]]"
| "segments (c # cs) =
     (if c = LF then [] # segments cs
      else (case segments cs of [] \<Rightarrow> [[c]] | s # ss \<Rightarrow> (c # s) # ss))"

fun lines_text :: "string list \<Rightarrow> string" where
  "lines_text [] = []"
| "lines_text (l # ls) = l @ LF # lines_text ls"

text \<open>The frames of the framework: a field per line, a blank line at the end, no carriage return.\<close>

definition data_lines :: "string \<Rightarrow> string list" where
  "data_lines s = map (\<lambda>l. ''data: '' @ l) (segments s)"

definition frame_lines :: "frame \<Rightarrow> string list" where
  "frame_lines f =
     (case f of
        EventFrame n json \<Rightarrow> (''id: '' @ dec n) # data_lines json
      | DoneFrame \<Rightarrow> [''event: done'', ''data: '']
      | StreamError m \<Rightarrow> ''event: stream_error'' # data_lines m)"

definition frame_text :: "frame \<Rightarrow> string" where
  "frame_text f = (case f of EventFrame n json \<Rightarrow> json | DoneFrame \<Rightarrow> [] | StreamError m \<Rightarrow> m)"

definition sse_wire :: "(frame \<Rightarrow> string) \<Rightarrow> bool" where
  "sse_wire wire \<longleftrightarrow> (\<forall>f. CR \<notin> set (frame_text f) \<longrightarrow> wire f = lines_text (frame_lines f) @ [LF])"

text \<open>What reaches the reader of an event: the lines of its text, each without its indentation.\<close>

definition as_read :: "string \<Rightarrow> string" where
  "as_read json = concat (map trim_start (segments json))"

definition read_frame :: "event_reader \<Rightarrow> frame \<Rightarrow> (sdk_error + run_event) list" where
  "read_frame R f =
     (case f of
        EventFrame n json \<Rightarrow>
          if as_read json = [] then []
          else (case er_event R (as_read json) of
                  Inr e \<Rightarrow> [Inr e]
                | Inl e \<Rightarrow> [Inl (Protocol (''bad event frame: '' @ e))])
      | _ \<Rightarrow> [])"

lemma find_frame_end_other: "c \<noteq> LF \<Longrightarrow> find_frame_end (c # s) = map_option Suc (find_frame_end s)"
  by (cases s) simp_all

lemma find_frame_end_within:
  "LF \<notin> set l \<Longrightarrow> find_frame_end (l @ s) = map_option ((+) (length l)) (find_frame_end s)"
proof (induction l)
  case Nil
  show ?case by (cases "find_frame_end s") simp_all
next
  case (Cons c l)
  then show ?case by (cases "find_frame_end s") (auto simp: find_frame_end_other)
qed

text \<open>A line that a frame can have.\<close>

definition plain_line :: "string \<Rightarrow> bool" where
  "plain_line l \<longleftrightarrow> l \<noteq> [] \<and> LF \<notin> set l \<and> CR \<notin> set l"

lemma lines_text_Nil_iff [simp]: "lines_text ls = [] \<longleftrightarrow> ls = []"
  by (cases ls) simp_all

lemma butlast_lines_text [simp]:
  "butlast (lines_text [l]) = l"
  "butlast (lines_text (l # l' # ls)) = l @ LF # butlast (lines_text (l' # ls))"
  by (simp_all add: butlast_append)

lemma find_frame_end_lines:
  "ls \<noteq> [] \<Longrightarrow> list_all plain_line ls \<Longrightarrow>
   find_frame_end (lines_text ls @ LF # rest) = Some (length (lines_text ls) - 1)"
proof (induction ls rule: induct_list012)
  case (2 l)
  then show ?case by (simp add: plain_line_def find_frame_end_within)
next
  case (3 l l' ls)
  let ?s = "lines_text (l' # ls) @ LF # rest"
  have "find_frame_end ?s = Some (length (lines_text (l' # ls)) - 1)" using 3(2,4) by simp
  moreover have "find_frame_end (LF # ?s) = map_option Suc (find_frame_end ?s)"
    using 3(4) by (cases l') (auto simp: plain_line_def)
  ultimately show ?case
    using 3(4) find_frame_end_within[of l "LF # ?s"] by (simp add: plain_line_def)
qed simp

lemma str_lines_frame: "list_all plain_line ls \<Longrightarrow> str_lines (butlast (lines_text ls)) = ls"
proof (induction ls rule: induct_list012)
  case (2 l)
  then show ?case by (simp add: plain_line_def str_lines_last del: lines_text.simps)
next
  case (3 l l' ls)
  then have "strip_cr l = l" by (auto simp: plain_line_def strip_cr_def dest: last_in_set)
  with 3 show ?case by (simp add: plain_line_def str_lines_first del: lines_text.simps)
qed (simp add: str_lines.simps)

lemma valid_utf8_lines: "valid_utf8 (butlast (lines_text ls)) \<longleftrightarrow> list_all valid_utf8 ls"
  by (induction ls rule: induct_list012)
    (simp_all add: valid_utf8_ascii[OF LF_ascii] del: lines_text.simps(2))

lemma segments_nonempty [simp]: "segments s \<noteq> []"
  by (induction s) (auto split: list.split)

lemma segments_last: "LF \<notin> set l \<Longrightarrow> segments l = [l]"
  by (induction l) auto

lemma segments_first: "LF \<notin> set l \<Longrightarrow> segments (l @ LF # s) = l # segments s"
  by (induction l) auto

lemma segments_all:
  "(\<And>x y. P (x @ LF # y) \<longleftrightarrow> P x \<and> P y) \<Longrightarrow> list_all P (segments s) \<longleftrightarrow> P s"
proof (induction s rule: length_induct)
  case (1 s)
  show ?case
  proof (cases "LF \<in> set s")
    case True
    then obtain x y where s: "s = x @ LF # y" "LF \<notin> set x" by (meson split_list_first)
    with 1 show ?thesis by (simp add: segments_first)
  qed (simp add: segments_last)
qed

lemma segments_no_LF: "l \<in> set (segments s) \<Longrightarrow> LF \<notin> set l"
  by (induction s arbitrary: l) (auto split: if_splits list.splits)

lemma segments_subset: "l \<in> set (segments s) \<Longrightarrow> c \<in> set l \<Longrightarrow> c \<in> set s"
  by (induction s arbitrary: l) (fastforce split: if_splits list.splits)+

lemma fold_data_lines:
  "fold frame_line (map (\<lambda>l. ''data: '' @ l) ls) (data, terminal)
     = (data @ concat (map trim_start ls), terminal)"
  by (induction ls arbitrary: data) (simp_all add: frame_line_def)

lemma trim_names [simp]: "trim '' done'' = ''done''" "trim '' stream_error'' = ''stream_error''"
  by (simp_all add: trim_def) (subst trim_start.simps trim_end.simps, simp add: WHITE_SPACE_def suffix_def)+

lemma fold_frame_lines:
  "fold frame_line (frame_lines f) ([], False) =
     (case f of EventFrame n json \<Rightarrow> (as_read json, False) | DoneFrame \<Rightarrow> ([], True) | StreamError m \<Rightarrow> (as_read m, True))"
proof (cases f)
  case (EventFrame n json)
  moreover have "frame_line (''id: '' @ dec n) ([], False) = ([], False)" by (simp add: frame_line_def)
  ultimately show ?thesis
    by (simp only: frame_lines_def data_lines_def frame.case fold_simps fold_data_lines as_read_def append_Nil)
next
  case (StreamError m)
  moreover have "frame_line ''event: stream_error'' ([], False) = ([], True)" by (simp add: frame_line_def)
  ultimately show ?thesis
    by (simp only: frame_lines_def data_lines_def frame.case fold_simps fold_data_lines as_read_def append_Nil)
qed (simp add: frame_lines_def frame_line_def)

text \<open>The texts a frame can carry: UTF-8, as every \<open>String\<close> is, without a carriage return.\<close>

definition clean :: "string \<Rightarrow> bool" where
  "clean s \<longleftrightarrow> valid_utf8 s \<and> CR \<notin> set s"

lemma plain_segments: "CR \<notin> set s \<Longrightarrow> list_all plain_line (data_lines s)"
  using segments_no_LF[of _ s] segments_subset[of _ s CR]
  by (auto simp: data_lines_def plain_line_def list_all_iff LF_def CR_def)

lemma digit_char_code: "n < 10 \<Longrightarrow> (of_char (digit_char n) :: nat) = 48 + n"
  by (simp add: digit_char_def)

lemma dec_nat_chars: "c \<in> set (dec_nat n) \<Longrightarrow> \<exists>k < 10. (of_char c :: nat) = 48 + k"
proof (induction n arbitrary: c rule: dec_nat.induct)
  case (1 n)
  show ?case
  proof (cases "n < 10")
    case True
    with 1(2) show ?thesis by (subst (asm) dec_nat.simps) (auto simp: digit_char_code)
  next
    case False
    then have "n mod 10 < 10" by simp
    with 1 False show ?thesis by (subst (asm) (2) dec_nat.simps) (auto simp: digit_char_code)
  qed
qed

lemma dec_plain: "ascii (dec n) \<and> LF \<notin> set (dec n) \<and> CR \<notin> set (dec n)"
proof -
  have "(of_char LF :: nat) = 10" "(of_char CR :: nat) = 13" by (simp_all add: LF_def CR_def)
  then show ?thesis
    using dec_nat_chars[of _ "unat n"] by (fastforce simp: dec_def ascii_def list_all_iff)
qed

lemma frame_lines_plain: "CR \<notin> set (frame_text f) \<Longrightarrow> list_all plain_line (frame_lines f)"
  using plain_segments dec_plain
  by (cases f) (auto simp: frame_lines_def frame_text_def plain_line_def LF_def CR_def)

lemma frame_lines_valid: "valid_utf8 (frame_text f) \<Longrightarrow> list_all valid_utf8 (frame_lines f)"
proof -
  have data: "list_all valid_utf8 (data_lines s)" if "valid_utf8 s" for s
    using segments_all[of valid_utf8 s, OF valid_utf8_ascii[OF LF_ascii]] that valid_utf8_prefix[of "''data: ''"]
    by (simp add: data_lines_def list_all_iff ascii_def)
  have id: "valid_utf8 (''id: '' @ dec n)" for n
    using valid_utf8_prefix[of "''id: '' @ dec n" "[]"] dec_plain[of n] by (simp add: ascii_def)
  have names: "valid_utf8 ''event: done''" "valid_utf8 ''event: stream_error''" "valid_utf8 ''data: ''"
    using valid_utf8_prefix[of "''event: done''" "[]"] valid_utf8_prefix[of "''event: stream_error''" "[]"]
      valid_utf8_prefix[of "''data: ''" "[]"] by (simp_all add: ascii_def)
  assume "valid_utf8 (frame_text f)"
  with data[of "frame_text f"] id names show ?thesis
    by (cases f) (simp_all add: frame_lines_def frame_text_def)
qed

lemma sse_drain_frame:
  assumes "sse_wire wire" and "clean (frame_text f)"
  shows "sse_drain R (wire f @ rest) = (case sse_drain R rest of (out, buf) \<Rightarrow> (read_frame R f @ out, buf))"
proof -
  let ?ls = "frame_lines f" and ?body = "lines_text (frame_lines f)"
  have lines: "?ls \<noteq> []" "list_all plain_line ?ls" "list_all valid_utf8 ?ls"
    using assms(2) frame_lines_plain[of f] frame_lines_valid[of f]
    by (auto simp: clean_def frame_lines_def split: frame.split)
  have wire: "wire f = ?body @ [LF]" using assms by (simp add: sse_wire_def clean_def)
  have "?body \<noteq> []" using lines(1) by simp
  then have cut: "take (length ?body - 1) (wire f @ rest) = butlast ?body" "drop (length ?body - 1 + 2) (wire f @ rest) = rest"
    unfolding wire by (simp_all add: butlast_conv_take Suc_diff_Suc)
  have "frame_events R (butlast ?body) = read_frame R f"
    using lines(2,3) fold_frame_lines[of f]
    by (cases f) (simp_all add: frame_events_def valid_utf8_lines str_lines_frame read_frame_def split: sum.split)
  moreover have "find_frame_end (wire f @ rest) = Some (length ?body - 1)"
    using find_frame_end_lines[OF lines(1,2)] by (simp add: wire)
  ultimately show ?thesis by (subst sse_drain.simps) (simp only: option.case cut)
qed

lemma client_reads:
  assumes "sse_wire wire" and "list_all (clean \<circ> frame_text) fs"
  shows "sse_drain R (concat (map wire fs)) = (concat (map (read_frame R) fs), [])"
  using assms(2) by (induction fs) (simp_all add: sse_drain_frame[OF assms(1)])

lemma segments_length: "length (concat (segments s)) + length (segments s) = Suc (length s)"
  by (induction s) (auto split: list.split)

lemma trimmed_length: "length (concat (map trim_start ls)) \<le> length (concat ls)"
proof (induction ls)
  case (Cons l ls)
  with suffix_length_le[OF trim_start_suffix, of l] show ?case by simp
qed simp

lemma segments_break: "LF \<in> set s \<Longrightarrow> 2 \<le> length (segments s)"
  by (induction s) (auto simp: Suc_le_eq split: list.split)

lemma as_read_shorter: "LF \<in> set s \<Longrightarrow> length (as_read s) < length s"
  using segments_length[of s] trimmed_length[of "segments s"] segments_break[of s] by (simp add: as_read_def)

lemma as_read_no_LF: "LF \<notin> set (as_read s)"
  using segments_no_LF[of _ s] set_mono_suffix[OF trim_start_suffix] by (fastforce simp: as_read_def)

section \<open>Following a run\<close>

text \<open>
  An event whose text is on one line and reads back. \<open>to_string\<close> writes no line break of its
  own, so the text of an event has one exactly when its metadata does.
\<close>

definition one_line :: "event_reader \<Rightarrow> decoders \<Rightarrow> run_event \<Rightarrow> bool" where
  "one_line R C e \<longleftrightarrow> (case en_event C e of None \<Rightarrow> False
     | Some json \<Rightarrow> clean json \<and> LF \<notin> set json \<and> json \<noteq> [] \<and> trim_start json = json \<and> er_event R json = Inr e)"





text \<open>
  a line break in the metadata is lost. Metadata may hold line breaks between its values,
  which are hashed with it, and the server sends each line of an event's text as a line of the
  frame. The client joins those lines without a line break and without their indentation, so
  what it reads the event from is never the text that was sent, and is shorter.
\<close>

theorem line_breaks_are_lost:
  assumes "sse_wire wire" and "clean json" and "LF \<in> set json" and "concat chunks = wire (EventFrame n json)"
  shows "sse_events R (map Inr chunks) = read_frame R (EventFrame n json) \<and>
    LF \<notin> set (as_read json) \<and> length (as_read json) < length json"
proof -
  have "sse_events R (map Inr chunks) = read_frame R (EventFrame n json)"
    using client_reads[OF assms(1), of "[EventFrame n json]" R] sse_from_drain[of R "[]" chunks] assms(2,4)
    by (simp add: sse_events_def frame_text_def)
  then show ?thesis using as_read_no_LF as_read_shorter[OF assms(3)] by blast
qed

section \<open>A small stream\<close>

definition demo_wire :: "frame \<Rightarrow> string" where
  "demo_wire f = lines_text (frame_lines f) @ [LF]"

lemma demo_wire_ok [simp]: "sse_wire demo_wire"
  by (simp add: sse_wire_def demo_wire_def)

definition echo :: event_reader where
  "echo = \<lparr>er_event = Inl, er_utf8_error = (\<lambda>_. '''')\<rparr>"

lemma trim_start_brace [simp]: "trim_start (CHR ''{'' # s) = CHR ''{'' # s" "trim_start (CHR ''}'' # s) = CHR ''}'' # s"
  by (subst trim_start.simps, simp add: WHITE_SPACE_def)+

theorem line_breaks_are_lost_witness:
  "sse_events echo (map Inr [demo_wire (EventFrame 1 (''{'' @ [LF] @ ''}''))]) = [Inl (Protocol ''bad event frame: {}'')]"
proof -
  have "clean (''{'' @ [LF] @ ''}'')" "LF \<noteq> CHR ''{''" "LF \<noteq> CHR ''}''"
    by (simp_all add: clean_def LF_def CR_def utf8_width_def)
  moreover from this(2,3) have "as_read (''{'' @ [LF] @ ''}'') = ''{}''"
    by (simp add: as_read_def)
  ultimately show ?thesis
    using line_breaks_are_lost[OF demo_wire_ok, of "''{'' @ [LF] @ ''}''" "[demo_wire (EventFrame 1 (''{'' @ [LF] @ ''}''))]" 1 echo]
    by (simp add: read_frame_def echo_def)
qed

definition line_state :: "db tlr_state" where
  "line_state = demo_state\<lparr>tl_codec := demo_codec
     \<lparr>en_event := \<lambda>e. Some (if ev_seq e = 0 then ''{0}'' else ''{1}'')\<rparr>\<rparr>"

definition line_reader :: event_reader where
  "line_reader = \<lparr>er_event = (\<lambda>t. Inr (record_of demo_json ''acme'' ''loan'' demo_db ! (if t = ''{0}'' then 0 else 1))),
     er_utf8_error = (\<lambda>_. '''')\<rparr>"



lemma demo_lines: "list_all (one_line line_reader (tl_codec line_state)) (record_of demo_json ''acme'' ''loan'' demo_db)"
  by (simp add: demo_record one_line_def line_state_def line_reader_def clean_def utf8_width_def LF_def CR_def
      next_event_def first_event_def)


end
