(* ===== verification/Export.thy ===== *)
theory Export
  imports Cli Sse
begin

text \<open>
  The commands of \<open>crates/tideline-cli/src/main.rs\<close> that use a server, \<open>export\<close> and \<open>tail\<close>, over
  the client of \<open>crates/tideline-sdk\<close>. Writing a file and printing a list of events as JSON are
  parameters; what is written is the first component of the outcome.
\<close>

text \<open>\<open>Display\<close> of a client error; the debug text of a chain error is derived.\<close>

fun sdk_error_text :: "(chain_error \<Rightarrow> string) \<Rightarrow> sdk_error \<Rightarrow> string" where
  "sdk_error_text D (Transport e) = ''transport: '' @ e"
| "sdk_error_text D (Status code body) = ''server returned '' @ dec_nat code @ '': '' @ body"
| "sdk_error_text D (Protocol m) = ''protocol: '' @ m"
| "sdk_error_text D (ChainFault e) = ''record does not verify: '' @ D e"

record export_env =
  xe_pretty :: "run_event list \<Rightarrow> string + string"
  xe_write :: "string \<Rightarrow> string \<Rightarrow> string option"
  xe_chain_debug :: "chain_error \<Rightarrow> string"
  xe_sha :: sha

record outcome =
  oc_files :: "(string \<times> string) list"
  oc_printed :: "printed list"
  oc_code :: nat

text \<open>What \<open>export\<close> does with the events it fetched.\<close>

definition export_events :: "export_env \<Rightarrow> string \<Rightarrow> string option \<Rightarrow> sdk_error + run_event list \<Rightarrow> outcome" where
  "export_events X run_id out fetched =
     (case fetched of
        Inl e \<Rightarrow> \<lparr>oc_files = [],
          oc_printed = [StdErr (''cannot fetch '' @ run_id @ '': '' @ sdk_error_text (xe_chain_debug X) e)],
          oc_code = UNREADABLE\<rparr>
      | Inr events \<Rightarrow>
     (let path = (case out of None \<Rightarrow> run_id @ ''.json'' | Some p \<Rightarrow> p)
      in case xe_pretty X events of
        Inl e \<Rightarrow> \<lparr>oc_files = [], oc_printed = [StdErr (''cannot serialise the record: '' @ e)], oc_code = UNREADABLE\<rparr>
      | Inr json \<Rightarrow>
     (let json = json @ newline
      in case xe_write X path json of
        Some e \<Rightarrow> \<lparr>oc_files = [], oc_printed = [StdErr (''cannot write '' @ path @ '': '' @ e)], oc_code = UNREADABLE\<rparr>
      | None \<Rightarrow>
     (case verify_chain (xe_sha X) events of
        Inr ok \<Rightarrow> \<lparr>oc_files = [(path, json)],
          oc_printed = StdOut (''wrote '' @ path @ '' '' @ em_dash @ '' '' @ dec_nat (ok_len ok) @ '' events, verified'')
            # (if ok_sealed ok then [] else [StdOut ''note: this run is not sealed; its tail could still grow.'']),
          oc_code = EXIT_OK\<rparr>
      | Inl e \<Rightarrow> \<lparr>oc_files = [(path, json)],
          oc_printed = [StdErr (''wrote '' @ path @ '', but it DOES NOT VERIFY: '' @ describe e)],
          oc_code = UNSOUND\<rparr>))))"

definition cli_export ::
  "nat \<Rightarrow> export_env \<Rightarrow> string \<Rightarrow> string option
   \<Rightarrow> (u64 \<Rightarrow> u32 \<Rightarrow> 's \<Rightarrow> (sdk_error + run_event list) \<times> 's) \<Rightarrow> 's \<Rightarrow> (outcome \<times> 's) option" where
  "cli_export fuel X run_id out fetch s =
     (case events_paged fuel fetch 1000 s of
        None \<Rightarrow> None
      | Some (fetched, s) \<Rightarrow> Some (export_events X run_id out fetched, s))"

section \<open>Following a run\<close>

definition pad_left :: "nat \<Rightarrow> string \<Rightarrow> string" where
  "pad_left n s = replicate (n - length s) (CHR '' '') @ s"

definition pad_right :: "nat \<Rightarrow> string \<Rightarrow> string" where
  "pad_right n s = s @ replicate (n - length s) (CHR '' '')"

definition tail_line :: "run_event \<Rightarrow> string" where
  "tail_line e =
     pad_left 4 (dec (ev_seq e)) @ ''  '' @ pad_right 13 (kind_str (ev_kind e)) @ '' ''
     @ (case ev_name e of Some n \<Rightarrow> n | None \<Rightarrow> (case ev_content e of Some c \<Rightarrow> c | None \<Rightarrow> ''''))"

fun tail_events :: "export_env \<Rightarrow> (sdk_error + run_event) list \<Rightarrow> printed list \<times> nat" where
  "tail_events X [] = ([], EXIT_OK)"
| "tail_events X (Inr e # items) =
     (case tail_events X items of (out, code) \<Rightarrow> (StdOut (tail_line e) # out, code))"
| "tail_events X (Inl e # items) =
     ([StdErr (''stream error: '' @ sdk_error_text (xe_chain_debug X) e)], UNREADABLE)"

text \<open>\<open>watch\<close>: the answer to the request, and then its body.\<close>

definition sdk_watch ::
  "event_reader \<Rightarrow> sdk_error + (nat \<times> string) \<Rightarrow> (string + string) list
   \<Rightarrow> sdk_error + (sdk_error + run_event) list" where
  "sdk_watch R answer body =
     (case answer of
        Inl e \<Rightarrow> Inl e
      | Inr (code, text) \<Rightarrow>
          if \<not> (200 \<le> code \<and> code < 300) then Inl (Status code text) else Inr (sse_events R body))"

definition cli_tail ::
  "export_env \<Rightarrow> string \<Rightarrow> sdk_error + (sdk_error + run_event) list \<Rightarrow> printed list \<times> nat" where
  "cli_tail X run_id stream =
     (case stream of
        Inl e \<Rightarrow> ([StdErr (''cannot follow '' @ run_id @ '': '' @ sdk_error_text (xe_chain_debug X) e)], UNREADABLE)
      | Inr items \<Rightarrow> tail_events X items)"

section \<open>An export verifies\<close>

text \<open>
  C20: what is exported verifies. Exporting a run of a server that answers ends after one request
  more than the record has pages, writes a file, reports it as verified and exits 0; and if the
  text of the record reads back as the record, \<open>verify\<close> of that file exits 0 too, and its
  checkpoint and sealing report are about that record.
\<close>

theorem export_verifies:
  assumes "fresh_server J st sv0" and "5000 * length reqs < 2 ^ 63 - 1"
    and "sv = serve_all st reqs sv0" and "calm_world (sv_world sv)"
    and "authorize st h False = Inr ns" and "valid_id i" and "run_of ns i (sdb sv) \<noteq> None"
    and "length (srecord st ns i sv) div 1000 < fuel"
    and "xe_sha X = tl_sha st" and "ce_sha E = tl_sha st" and "path \<noteq> ''-''"
    and "xe_pretty X (srecord st ns i sv) = Inr text" and "xe_write X path (text @ newline) = None"
    and "ce_file E path = Inr (text @ newline)" and "ce_record E (text @ newline) = Inr (srecord st ns i sv)"
  shows "\<exists>oc sv'. cli_export fuel X i (Some path) (events_from st i h) sv = Some (oc, sv') \<and>
    oc_files oc = [(path, text @ newline)] \<and> oc_code oc = 0 \<and>
    snd (cli_verify E path None key brief) = 0"
proof -
  have B: "sqlite_backed J st" using assms(1) by (simp add: fresh_server_def sqlite_serverD(1))
  have ok: "sv_ok st empty_db 0 sv"
    unfolding assms(3) by (rule fresh_reaches[OF assms(1)]) (use assms(2) in simp)
  note sound = srecord_verifies[OF ok assms(7)]
  have "snd (cli_verify E path None key brief) = 0"
    using assms(10,11,14,15) sound by (simp add: cli_verify_code read_input_def)
  moreover have "oc_files (export_events X i (Some path) (Inr (srecord st ns i sv))) = [(path, text @ newline)] \<and>
      oc_code (export_events X i (Some path) (Inr (srecord st ns i sv))) = 0"
    using assms(9,12,13) sound by (simp add: export_events_def Let_def EXIT_OK_def)
  ultimately show ?thesis
    using events_paged_calm[OF B ok assms(4-6), of 1000 fuel] assms(8) by (auto simp: cli_export_def)
qed

text \<open>
  a failed stream looks finished. A stream that the server ends with an error frame, whatever
  its message, is printed by \<open>tail\<close> and exits 0 exactly as one that ends with \<open>done\<close>.
\<close>

theorem failed_stream_looks_finished:
  assumes "sse_wire wire" and "list_all (clean \<circ> frame_text) fs" and "clean m"
  shows "cli_tail X run_id (sdk_watch R (Inr (200, text)) [Inr (concat (map wire (fs @ [StreamError m])))])
    = cli_tail X run_id (sdk_watch R (Inr (200, text)) [Inr (concat (map wire (fs @ [DoneFrame])))])"
proof -
  have "sse_events R [Inr (concat (map wire (fs @ [f])))] = concat (map (read_frame R) (fs @ [f]))"
    if "clean (frame_text f)" for f
    using client_reads[OF assms(1), of "fs @ [f]" R] sse_from_drain[of R "[]" "[concat (map wire (fs @ [f]))]"]
      assms(2) that by (simp add: sse_events_def)
  from this[of "StreamError m"] this[of DoneFrame] assms(3) show ?thesis
    by (simp add: sdk_watch_def frame_text_def clean_def read_frame_def)
qed

definition demo_export :: export_env where
  "demo_export = \<lparr>xe_pretty = (\<lambda>_. Inr ''record''), xe_write = (\<lambda>_ _. None), xe_chain_debug = (\<lambda>_. ''''),
     xe_sha = prefix_sha\<rparr>"

theorem export_verifies_witness:
  "\<exists>oc sv'. cli_export 1 demo_export ''loan'' (Some ''loan.json'') (events_from demo_state ''loan'' demo_headers) demo_open
      = Some (oc, sv') \<and> oc_files oc = [(''loan.json'', ''record'' @ newline)] \<and> oc_code oc = 0"
proof -
  let ?E = "demo_cli\<lparr>ce_file := \<lambda>_. Inr (''record'' @ newline),
    ce_record := \<lambda>_. Inr (srecord demo_state ''acme'' ''loan'' demo_open)\<rparr>"
  obtain r where "run_of ''acme'' ''loan'' (sdb demo_open) = Some r"
    using demo_open_facts(2) by (auto simp: run_open_def)
  then show ?thesis
    using export_verifies[OF demo_fresh, of "[CreateRun demo_headers ''run'']" demo_open demo_headers "''acme''" "''loan''"
        1 demo_export ?E "''loan.json''" "''record''" None False] demo_open_facts demo_open_length
    by (auto simp: demo_authorize demo_open_def[symmetric] demo_export_def demo_cli_def)
qed

theorem failed_stream_looks_finished_witness:
  "cli_tail demo_export ''loan'' (sdk_watch echo (Inr (200, '''')) [Inr (concat (map demo_wire [StreamError ''lost'']))])
    = cli_tail demo_export ''loan'' (sdk_watch echo (Inr (200, '''')) [Inr (concat (map demo_wire [DoneFrame]))])"
  using failed_stream_looks_finished[OF demo_wire_ok, of "[]" "''lost''"]
  by (simp add: clean_def CR_def utf8_width_def)

end
