(* ===== verification/Command.thy ===== *)
theory Command
  imports Export Client
begin

text \<open>
  The commands of \<open>crates/tideline-cli/src/main.rs\<close> and \<open>main\<close>, which turns each into its exit
  code. Parsing the arguments is the clap library; its defaults are part of the command.
\<close>

datatype command =
  VerifyCmd string "string option" "string option" bool
| ExportCmd string string "string option" "string option"
| TailCmd string string "string option" u64

definition run_events_from ::
  "'s network \<Rightarrow> run_handle \<Rightarrow> u64 \<Rightarrow> u32 \<Rightarrow> 's \<Rightarrow> (sdk_error + run_event list) \<times> 's" where
  "run_events_from net run from limit s =
     exchange net events_body (ListEvents (rn_id run) \<lparr>eq_from = Some from, eq_limit = Some limit\<rparr> (rn_headers run)) s"

text \<open>\<open>watch\<close> is what following a run from a sequence number yields, an error or a stream of items.\<close>

definition cli_main ::
  "cli_env \<Rightarrow> export_env \<Rightarrow> 's network \<Rightarrow> (run_handle \<Rightarrow> u64 \<Rightarrow> sdk_error + (sdk_error + run_event) list)
   \<Rightarrow> nat \<Rightarrow> command \<Rightarrow> 's \<Rightarrow> nat option" where
  "cli_main E X net watch fuel cmd s =
     (case cmd of
        VerifyCmd path checkpoint public_key brief \<Rightarrow> Some (snd (cli_verify E path checkpoint public_key brief))
      | ExportCmd run_id url key out \<Rightarrow>
          (let run = \<lparr>rn_client = tideline_new url key, rn_id = run_id\<rparr>
           in map_option (\<lambda>(oc, s). oc_code oc) (cli_export fuel X run_id out (run_events_from net run) s))
      | TailCmd run_id url key from \<Rightarrow>
          (let run = \<lparr>rn_client = tideline_new url key, rn_id = run_id\<rparr>
           in Some (snd (cli_tail X run_id (watch run from)))))"

lemma tail_events_code: "snd (tail_events X items) = (if list_all (\<lambda>i. case i of Inr _ \<Rightarrow> True | Inl _ \<Rightarrow> False) items then 0 else 2)"
  by (induction X items rule: tail_events.induct) (auto simp: EXIT_OK_def UNREADABLE_def split: prod.split)

lemma signature_codes: "snd (check_signature E cp key ok brief) \<le> 2"
  unfolding check_signature_def EXIT_OK_def UNSOUND_def UNREADABLE_def
  by (simp split: option.split sum.split)

lemma check_codes: "snd (check_checkpoint E path key evs ok brief) \<le> 2"
  unfolding check_checkpoint_def UNSOUND_def UNREADABLE_def
  by (simp add: signature_codes split: sum.split option.split)

lemma verify_codes: "snd (cli_verify E path cp key brief) \<le> 2"
  using check_codes
  by (simp add: cli_verify_def EXIT_OK_def UNSOUND_def UNREADABLE_def Let_def case_prod_unfold
      split: option.split sum.split)

lemma export_codes: "oc_code (export_events X run_id out fetched) \<le> 2"
  by (simp add: export_events_def EXIT_OK_def UNSOUND_def UNREADABLE_def Let_def split: option.split sum.split)

lemma verify_record_code:
  "snd (cli_verify E path None key brief) =
    (case read_input E path of
       Inl _ \<Rightarrow> 2
     | Inr text \<Rightarrow>
         (case ce_record E text of
            Inl _ \<Rightarrow> 2
          | Inr evs \<Rightarrow> if evs \<noteq> [] \<and> ev_kind (hd evs) = RunStarted \<and> linked (ce_sha E) evs then 0 else 1))"
proof (cases "read_input E path")
  case t: (Inr t)
  show ?thesis
  proof (cases "ce_record E t")
    case evs: (Inr evs)
    have "(\<exists>ok. verify_chain (ce_sha E) evs = Inr ok) \<longleftrightarrow> evs \<noteq> [] \<and> ev_kind (hd evs) = RunStarted \<and> linked (ce_sha E) evs"
      using verify_chain_Inr_iff[of "ce_sha E" evs] by auto
    then show ?thesis
      by (cases "verify_chain (ce_sha E) evs") (simp_all add: cli_verify_def EXIT_OK_def UNSOUND_def Let_def t evs)
  qed (simp add: cli_verify_def UNREADABLE_def t)
qed (simp add: cli_verify_def UNREADABLE_def)

text \<open>
  C30: The exit codes are the contract. Every command that ends exits with 0, 1 or 2. Verifying a
  record alone exits with 2 exactly when it cannot be read as a record, with 0 exactly when it is
  sound as the protocol defines it, and with 1 otherwise, whether or not it prints; following a
  run exits with 0 when the stream ended without an error, and with 2 otherwise.
\<close>

theorem exit_codes_are_the_contract:
  "set_option (cli_main E X net watch fuel cmd s) \<subseteq> {0, 1, 2} \<and>
    cli_main E X net watch fuel (VerifyCmd path None key brief) s =
      Some (case read_input E path of
              Inl _ \<Rightarrow> 2
            | Inr text \<Rightarrow>
                (case ce_record E text of
                   Inl _ \<Rightarrow> 2
                 | Inr evs \<Rightarrow> if evs \<noteq> [] \<and> ev_kind (hd evs) = RunStarted \<and> linked (ce_sha E) evs then 0 else 1)) \<and>
    cli_main E X net watch fuel (TailCmd run_id url tail_key from) s =
      Some (case watch \<lparr>rn_client = tideline_new url tail_key, rn_id = run_id\<rparr> from of
              Inl _ \<Rightarrow> 2
            | Inr items \<Rightarrow> if list_all (\<lambda>i. case i of Inr _ \<Rightarrow> True | Inl _ \<Rightarrow> False) items then 0 else 2)"
proof -
  have "code \<le> 2" if "cli_main E X net watch fuel cmd s = Some code" for code
  proof (cases cmd)
    case (ExportCmd run_id url key out)
    then show ?thesis
      using that export_codes[of X run_id out]
      by (auto simp: cli_main_def cli_export_def Let_def split: option.splits prod.splits)
  next
    case (TailCmd run_id url key start)
    then show ?thesis
      using that by (auto simp: cli_main_def cli_tail_def UNREADABLE_def tail_events_code Let_def split: sum.splits if_splits)
  next
    case (VerifyCmd path checkpoint public_key brief)
    then show ?thesis using that verify_codes[of E path checkpoint public_key brief] by (auto simp: cli_main_def)
  qed
  moreover have "(code :: nat) \<in> {0, 1, 2}" if "code \<le> 2" for code using that by auto
  ultimately have "set_option (cli_main E X net watch fuel cmd s) \<subseteq> {0, 1, 2}"
    by (cases "cli_main E X net watch fuel cmd s") simp_all
  then show ?thesis
    by (simp add: cli_main_def verify_record_code cli_tail_def UNREADABLE_def tail_events_code Let_def split: sum.split)
qed

end
