(* ===== verification/Corpus.thy ===== *)
theory Corpus
  imports Cli
begin

text \<open>
  The generator of the conformance corpus and of the fixtures,
  \<open>crates/tideline-proto/examples/gen_corpus.rs\<close>: the event vectors, a chain with each way of
  breaking it, and a sealed, a tampered and an open record with a signed checkpoint. The lemmas
  show that the verifier reaches the verdict the corpus states for each chain, and that the
  command line exits on the fixtures as its contract says. Derived serialisers and the
  pretty printer are parameters; the outcome is the files that are written, in order.
\<close>

record corpus_lib =
  kl_parse :: "string \<Rightarrow> run_event option"
  kl_events :: "run_event list \<Rightarrow> string"
  kl_pretty :: "json \<Rightarrow> string"
  kl_pretty_events :: "run_event list \<Rightarrow> string"
  kl_pretty_checkpoint :: "checkpoint \<Rightarrow> string"

section \<open>Event vectors\<close>

text \<open>A vector that does not parse stops the program: None.\<close>

definition vector :: "sha \<Rightarrow> corpus_lib \<Rightarrow> string \<Rightarrow> string \<Rightarrow> hash \<Rightarrow> json option" where
  "vector sha L name event_json prev =
     (case kl_parse L event_json of
        None \<Rightarrow> None
      | Some e \<Rightarrow>
          (let canon = canon sha (core e)
           in Some (json_norm (JObj
                [(''name'', JStr name), (''event_json'', JStr event_json), (''prev_hash'', JStr (to_hex prev)),
                 (''canon_sha256'', JStr (to_hex (sha canon))),
                 (''hash'', JStr (to_hex (event_hash sha (core e) prev)))]))))"

definition vector_texts :: "sha \<Rightarrow> (string \<times> string \<times> hash) list" where
  "vector_texts sha =
     (let prev = sha (as_bytes ''a previous event'');
          big = ''{\"seq\":7,\"ts\":1757635208000,\"kind\":\"message\",\"content\":\"'' @
            replicate 100000 (CHR ''x'') @ ''\"}'';
          redacted_vec = ''{\"seq\":6,\"ts\":1757635207000,\"kind\":\"tool_call\",\"name\":\"kyc_lookup\",\"redacted\":{\"content\":\"'' @
            to_hex (sha (as_bytes ''applicant dossier'')) @ ''\"}}''
      in [
       (''minimal-run-started'', ''{\"seq\":0,\"ts\":1757635200000,\"kind\":\"run_started\"}'', ZERO),
       (''all-fields'', ''{\"seq\":3,\"ts\":1757635204120,\"kind\":\"tool_call\",\"role\":\"tool\",\"name\":\"pull_credit_report\",\"content\":\"score=690\",\"metadata\":{\"bureau\":\"experian\",\"ms\":410}}'', prev),
       (''empty-string-differs-from-absent'', ''{\"seq\":1,\"ts\":1757635201000,\"kind\":\"message\",\"role\":\"\",\"content\":\"\"}'', prev),
       (''unicode-in-every-field'', ''{\"seq\":2,\"ts\":1757635202000,\"kind\":\"message\",\"role\":\"'' @
         [CHR 0xE7, CHR 0x94, CHR 0xA8, CHR 0xE6, CHR 0x88, CHR 0xB7] @ ''\",\"name\":\"na'' @
         [CHR 0xC3, CHR 0xAF] @ ''ve-caf'' @ [CHR 0xC3, CHR 0xA9] @ ''\",\"content\":\"'' @
         [CHR 0xE2, CHR 0x82, CHR 0xAC] @ ''40 000 '' @ [CHR 0xE2, CHR 0x80, CHR 0x94] @ '' '' @
         [CHR 0xE2, CHR 0x89, CHR 0x88] @ '' 38% DTI '' @ [CHR 0xF0, CHR 0x9F, CHR 0x8F, CHR 0xA6] @
         ''\",\"metadata\":{\"jurisdiction\":\"'' @ [CHR 0xC3, CHR 0x85] @ ''LAND\"}}'', prev),
       (''metadata-key-order-is-preserved'', ''{\"seq\":4,\"ts\":1757635205000,\"kind\":\"model_call\",\"metadata\":{\"z\":1,\"a\":2,\"nested\":{\"b\":[1,2.5,null,true]}}}'', prev),
       (''metadata-spacing-is-preserved'', ''{\"seq\":5,\"ts\":1757635206000,\"kind\":\"model_call\",\"metadata\":{ \"a\" : 1 }}'', prev),
       (''redacted-content-keeps-its-digest'', redacted_vec, prev),
       (''large-content'', big, prev)])"

fun collect :: "'a option list \<Rightarrow> 'a list option" where
  "collect [] = Some []"
| "collect (None # xs) = None"
| "collect (Some x # xs) = (case collect xs of None \<Rightarrow> None | Some ys \<Rightarrow> Some (x # ys))"

definition corpus_events :: "sha \<Rightarrow> corpus_lib \<Rightarrow> json option" where
  "corpus_events sha L =
     (case collect (map (\<lambda>(name, event_json, prev). vector sha L name event_json prev) (vector_texts sha)) of
        None \<Rightarrow> None
      | Some vectors \<Rightarrow> Some (json_norm (JObj
          [(''protocol'', JStr ''tlr/1''),
           (''note'', JStr (''Canon is 181 bytes. canon_sha256 is SHA-256 of those bytes; hash is SHA-256(canon || prev_hash). `event_json` is the exact source text an implementation must parse '' @
            [CHR 0xE2, CHR 0x80, CHR 0x94] @ '' do not reformat it.'')),
           (''vectors'', JArr vectors)])))"

section \<open>Chains\<close>

definition link_event :: "sha \<Rightarrow> hash \<Rightarrow> run_event \<Rightarrow> run_event" where
  "link_event sha prev e =
     (let e = e\<lparr>ev_prev_hash := prev\<rparr> in e\<lparr>ev_hash := event_hash sha (core e) prev\<rparr>)"

text \<open>\<open>prev\<close> is carried over and every event is pushed.\<close>

definition push_event :: "sha \<Rightarrow> run_event list \<times> hash \<Rightarrow> run_event \<Rightarrow> run_event list \<times> hash" where
  "push_event sha cp e = (let e = link_event sha (snd cp) e in (fst cp @ [e], ev_hash e))"

definition numbered :: "u64 \<Rightarrow> event_kind \<Rightarrow> run_event" where
  "numbered seq kind = default_event
     \<lparr>ev_seq := seq, ev_ts := 1757635200000 + seq, ev_kind := kind, ev_content := Some (''event '' @ dec seq)\<rparr>"

definition corpus_chain :: "sha \<Rightarrow> run_event list" where
  "corpus_chain sha =
     fst (foldl (push_event sha) ([], ZERO)
       (map (\<lambda>seq. numbered seq (if seq = 0 then RunStarted else Message)) [0, 1, 2, 3]))"

definition edited_chain :: "sha \<Rightarrow> run_event list" where
  "edited_chain sha = (let c = corpus_chain sha in c[2 := (c ! 2)\<lparr>ev_content := Some ''tampered''\<rparr>])"

definition deleted_chain :: "sha \<Rightarrow> run_event list" where
  "deleted_chain sha = (let c = corpus_chain sha in take 2 c @ drop 3 c)"

definition redacted_chain :: "sha \<Rightarrow> run_event list" where
  "redacted_chain sha =
     (let c = corpus_chain sha;
          kept = bt_of_list [(''content'', sha (as_bytes ''event 2''))]
      in c[2 := (c ! 2)\<lparr>ev_content := None, ev_redacted := Some kept\<rparr>])"

definition chain_cases :: "sha \<Rightarrow> (string \<times> run_event list \<times> string \<times> u64 option) list" where
  "chain_cases sha =
     [(''valid'', corpus_chain sha, ''ok'', None),
      (''valid-after-redaction'', redacted_chain sha, ''ok'', None),
      (''edited-content'', edited_chain sha, ''hash_mismatch'', Some 2),
      (''deleted-event'', deleted_chain sha, ''seq_gap'', Some 2),
      (''empty'', [], ''empty'', None)]"

definition case_json :: "corpus_lib \<Rightarrow> string \<times> run_event list \<times> string \<times> u64 option \<Rightarrow> json" where
  "case_json L c =
     (case c of (name, events, expect, at_seq) \<Rightarrow> json_norm (JObj
        ([(''name'', JStr name), (''events_json'', JStr (kl_events L events)), (''expect'', JStr expect)] @
         (case at_seq of None \<Rightarrow> [] | Some seq \<Rightarrow> [(''at_seq'', JNum seq)]))))"

definition corpus_chains :: "sha \<Rightarrow> corpus_lib \<Rightarrow> json" where
  "corpus_chains sha L = json_norm (JObj
     [(''protocol'', JStr ''tlr/1''),
      (''note'', JStr (''`events_json` is the exact source text an implementation must parse.'')),
      (''cases'', JArr (map (case_json L) (chain_cases sha)))])"

section \<open>Fixtures\<close>

definition finish_event :: "json_lib \<Rightarrow> run_event" where
  "finish_event J = default_event
     \<lparr>ev_seq := 7, ev_ts := 1757635200007, ev_kind := RunFinished,
      ev_metadata := raw_value J (json_text J (JObj [(''event_count'', JNum 8)]))\<rparr>"

definition sealed_run :: "json_lib \<Rightarrow> sha \<Rightarrow> run_event list" where
  "sealed_run J sha =
     fst (foldl (push_event sha) (corpus_chain sha, ev_hash (last (corpus_chain sha)))
       [numbered 4 Message, numbered 5 Decision, numbered 6 Message, finish_event J])"

definition tampered_run :: "json_lib \<Rightarrow> sha \<Rightarrow> run_event list" where
  "tampered_run J sha =
     (let r = sealed_run J sha in r[3 := (r ! 3)\<lparr>ev_content := Some ''altered after the fact''\<rparr>])"

definition fixture_key :: signing_key where
  "fixture_key = replicate 32 42"

definition fixture_checkpoint :: "json_lib \<Rightarrow> sha \<Rightarrow> sig_lib \<Rightarrow> checkpoint" where
  "fixture_checkpoint J sha S =
     (let head = last (sealed_run J sha)
      in cp_sign sha S ''fixture-run'' (ev_seq head) (ev_hash head) 1757635260000 ''fixture-key'' fixture_key)"

definition gen_corpus :: "json_lib \<Rightarrow> sha \<Rightarrow> sig_lib \<Rightarrow> corpus_lib \<Rightarrow> (string \<times> string) list option" where
  "gen_corpus J sha S L =
     (case corpus_events sha L of
        None \<Rightarrow> None
      | Some events \<Rightarrow> Some
          [(''conformance/fixtures/sealed-run-checkpoint.json'',
              kl_pretty_checkpoint L (fixture_checkpoint J sha S) @ newline),
           (''conformance/fixtures/sealed-run-pubkey.txt'', b64_encode S (ed_public S fixture_key) @ newline),
           (''conformance/fixtures/sealed-run.json'', kl_pretty_events L (sealed_run J sha) @ newline),
           (''conformance/fixtures/tampered-run.json'', kl_pretty_events L (tampered_run J sha) @ newline),
           (''conformance/fixtures/open-run.json'', kl_pretty_events L (corpus_chain sha) @ newline),
           (''conformance/corpus/events.json'', kl_pretty L events @ newline),
           (''conformance/corpus/chains.json'', kl_pretty L (corpus_chains sha L) @ newline)])"

section \<open>The chains link\<close>

lemma link_event_simps [simp]:
  "core (link_event sha prev e) = core e" "ev_seq (link_event sha prev e) = ev_seq e"
  "ev_kind (link_event sha prev e) = ev_kind e" "ev_prev_hash (link_event sha prev e) = prev"
  "ev_hash (link_event sha prev e) = event_hash sha (core e) prev"
  by (simp_all add: link_event_def Let_def core_def metadata_raw_def)

lemma push_events_cores:
  "map core (fst (foldl (push_event sha) cp es)) = map core (fst cp) @ map core es"
  by (induction es arbitrary: cp) (simp_all add: push_event_def Let_def)

lemma push_events_linked:
  "linked sha evs \<Longrightarrow> h = head_of_list evs \<Longrightarrow> map ev_seq es = map of_nat [length evs..<length evs + length es] \<Longrightarrow>
   linked sha (fst (foldl (push_event sha) (evs, h) es))"
proof (induction es arbitrary: evs h)
  case (Cons e es)
  have "[length evs..<length evs + length (e # es)] = length evs # [Suc (length evs)..<Suc (length evs) + length es]"
    by (subst upt_conv_Cons) simp_all
  then have seqs: "ev_seq e = of_nat (length evs)" "map ev_seq es = map of_nat [Suc (length evs)..<Suc (length evs) + length es]"
    using Cons.prems(3) by simp_all
  let ?e = "link_event sha h e"
  have "linked sha (evs @ [?e])" using Cons.prems(1,2) seqs(1) by (simp add: event_sound_def)
  then show ?case using Cons.IH[of "evs @ [?e]" "ev_hash ?e"] seqs(2) by (simp add: push_event_def Let_def)
qed simp

lemma map_core_nth: "map core evs = map core es \<Longrightarrow> i < length es \<Longrightarrow> core (evs ! i) = core (es ! i)"
  by (metis length_map nth_map)

lemma core_fields_eq:
  "core e = core e' \<Longrightarrow> ev_seq e = ev_seq e' \<and> ev_kind e = ev_kind e' \<and> ev_content e = ev_content e' \<and>
     ev_redacted e = ev_redacted e' \<and> ev_metadata e = ev_metadata e'"
  by (simp add: core_def metadata_raw_def)

lemma corpus_chain_cores:
  "map core (corpus_chain sha) =
     map core [numbered 0 RunStarted, numbered 1 Message, numbered 2 Message, numbered 3 Message]"
  unfolding corpus_chain_def push_events_cores by simp

lemma corpus_chain_length [simp]: "length (corpus_chain sha) = 4"
  using arg_cong[OF corpus_chain_cores, of length] by simp

lemma corpus_chain_linked: "linked sha (corpus_chain sha)"
  unfolding corpus_chain_def by (rule push_events_linked) (simp_all add: numbered_def upt_conv_Cons)

lemma sealed_run_cores:
  "map core (sealed_run J sha) = map core ([numbered 0 RunStarted, numbered 1 Message, numbered 2 Message,
     numbered 3 Message, numbered 4 Message, numbered 5 Decision, numbered 6 Message, finish_event J])"
  unfolding sealed_run_def push_events_cores fst_conv corpus_chain_cores by simp

lemma sealed_run_length [simp]: "length (sealed_run J sha) = 8"
  using arg_cong[OF sealed_run_cores, of length] by simp

lemma sealed_run_linked: "linked sha (sealed_run J sha)"
  unfolding sealed_run_def
  by (rule push_events_linked[OF corpus_chain_linked])
    (simp_all add: head_of_list_def numbered_def finish_event_def upt_conv_Cons flip: length_0_conv)

section \<open>Every case reaches its verdict\<close>

text \<open>The check of \<open>every_chain_case_reaches_its_verdict\<close> on one case.\<close>

definition reaches :: "chain_error + chain_ok \<Rightarrow> string \<Rightarrow> u64 option \<Rightarrow> bool" where
  "reaches got expect at_seq =
     (if expect = ''ok'' then (case got of Inr _ \<Rightarrow> True | Inl _ \<Rightarrow> False)
      else if expect = ''empty'' then (case got of Inl e \<Rightarrow> e = Empty | Inr _ \<Rightarrow> False)
      else if expect = ''hash_mismatch'' then (case got of Inl (HashMismatch seq _ _) \<Rightarrow> at_seq = Some seq | _ \<Rightarrow> False)
      else if expect = ''seq_gap'' then (case got of Inl (SeqGap expected _) \<Rightarrow> at_seq = Some expected | _ \<Rightarrow> False)
      else False)"

lemma corpus_chain_nth:
  "i < 4 \<Longrightarrow> core (corpus_chain sha ! i) =
     core ([numbered 0 RunStarted, numbered 1 Message, numbered 2 Message, numbered 3 Message] ! i)"
  by (rule map_core_nth[OF corpus_chain_cores]) simp

lemma sealed_run_nth:
  "i < 8 \<Longrightarrow> core (sealed_run J sha ! i) = core ([numbered 0 RunStarted, numbered 1 Message, numbered 2 Message,
     numbered 3 Message, numbered 4 Message, numbered 5 Decision, numbered 6 Message, finish_event J] ! i)"
  by (rule map_core_nth[OF sealed_run_cores]) simp

lemma chains_nonempty [simp]: "corpus_chain sha \<noteq> []" "sealed_run J sha \<noteq> []"
  using corpus_chain_length[of sha] sealed_run_length[of J sha] by (metis list.size(3) zero_neq_numeral)+

lemma dec_digits: "dec 2 = ''2''" "dec 3 = ''3''" "dec 4 = ''4''" "dec 7 = ''7''" "dec 8 = ''8''"
  by code_simp+

lemma corpus_chain_facts:
  "ev_kind (hd (corpus_chain sha)) = RunStarted" "ev_content (corpus_chain sha ! 2) = Some ''event 2''"
  "ev_redacted (corpus_chain sha ! 2) = None" "ev_kind (last (corpus_chain sha)) = Message"
proof -
  show "ev_kind (hd (corpus_chain sha)) = RunStarted"
    using core_fields_eq[OF corpus_chain_nth[of 0]] by (simp add: hd_conv_nth numbered_def)
  show "ev_kind (last (corpus_chain sha)) = Message"
    using core_fields_eq[OF corpus_chain_nth[of 3]] by (simp add: last_conv_nth numbered_def)
  show "ev_content (corpus_chain sha ! 2) = Some ''event 2''" "ev_redacted (corpus_chain sha ! 2) = None"
    using core_fields_eq[OF corpus_chain_nth[of 2]] by (simp_all add: numbered_def default_event_def dec_digits)
qed

lemma sealed_run_facts:
  "ev_kind (hd (sealed_run J sha)) = RunStarted" "ev_metadata (hd (sealed_run J sha)) = None"
  "ev_content (sealed_run J sha ! 3) = Some ''event 3''" "ev_redacted (sealed_run J sha ! 3) = None"
  "ev_kind (last (sealed_run J sha)) = RunFinished" "ev_seq (last (sealed_run J sha)) = 7"
proof -
  show "ev_kind (hd (sealed_run J sha)) = RunStarted" "ev_metadata (hd (sealed_run J sha)) = None"
    using core_fields_eq[OF sealed_run_nth[of 0]] by (simp_all add: hd_conv_nth numbered_def default_event_def)
  show "ev_kind (last (sealed_run J sha)) = RunFinished" "ev_seq (last (sealed_run J sha)) = 7"
    using core_fields_eq[OF sealed_run_nth[of 7]] by (simp_all add: last_conv_nth finish_event_def)
  show "ev_content (sealed_run J sha ! 3) = Some ''event 3''" "ev_redacted (sealed_run J sha ! 3) = None"
    using core_fields_eq[OF sealed_run_nth[of 3]] by (simp_all add: numbered_def default_event_def dec_digits)
qed

lemma corpus_chain_verifies: "verify_chain sha (corpus_chain sha) = Inr (chain_summary (corpus_chain sha))"
  by (simp add: verify_chain_Inr_iff corpus_chain_linked corpus_chain_facts(1))

lemma sealed_run_verifies: "verify_chain sha (sealed_run J sha) = Inr (chain_summary (sealed_run J sha))"
  by (simp add: verify_chain_Inr_iff sealed_run_linked sealed_run_facts(1))

lemma redacted_is_erased:
  "redacted_chain sha = (corpus_chain sha)[2 := erase_event sha [''content''] (corpus_chain sha ! 2)]"
  using corpus_chain_facts(2,3)[of sha]
  by (simp add: redacted_chain_def Let_def erase_event_def kept_digests_def bt_of_list_def)

text \<open>The messages hashed for an event and for what replaced it.\<close>

definition edit_messages :: "sha \<Rightarrow> run_event \<Rightarrow> run_event \<Rightarrow> u8 list set" where
  "edit_messages sha e e' = set (core_inputs (core e')) \<union> set (core_inputs (core e)) \<union>
     {canon sha (core e') @ hash_bytes (ev_prev_hash e'), canon sha (core e) @ hash_bytes (ev_prev_hash e')}"

lemma content_edit_detected:
  assumes "verify_chain sha evs = Inr ok" and "i < length evs" and "0 < i"
    and "ev_redacted (evs ! i) = None" and "ev_content (evs ! i) \<noteq> Some t"
    and "collision_free sha (edit_messages sha (evs ! i) ((evs ! i)\<lparr>ev_content := Some t\<rparr>))"
  shows "\<exists>h. verify_chain sha (evs[i := (evs ! i)\<lparr>ev_content := Some t\<rparr>]) = Inl (HashMismatch (of_nat i) (ev_hash (evs ! i)) h)"
proof -
  let ?e = "(evs ! i)\<lparr>ev_content := Some t\<rparr>"
  have "evs \<noteq> []" using assms(2) by auto
  then have "ev_kind (hd (evs[i := ?e])) = RunStarted"
    using assms(1,3) by (simp add: hd_list_update verify_chain_Inr_iff)
  moreover have "core ?e \<noteq> core (evs ! i)" using assms(5) by (auto simp: core_def)
  ultimately show ?thesis
    using edit_detected[OF assms(1,2), of ?e] assms(4,6) by (simp add: edit_messages_def)
qed

text \<open>
  The corpus states what the verifier does. For each chain of the generated corpus, the
  valid one, the redacted one, the edited one, the one with an event deleted and the empty one,
  \<open>verify_chain\<close> reaches the verdict the case expects, at the sequence number it names.
\<close>

theorem corpus_cases_reach_their_verdicts:
  assumes "collision_free sha (edit_messages sha (corpus_chain sha ! 2) (edited_chain sha ! 2))"
  shows "list_all (\<lambda>(name, events, expect, at_seq). reaches (verify_chain sha events) expect at_seq) (chain_cases sha)"
proof -
  let ?c = "corpus_chain sha"
  have edit: "edited_chain sha = ?c[2 := (?c ! 2)\<lparr>ev_content := Some ''tampered''\<rparr>]"
    by (simp add: edited_chain_def Let_def)
  obtain h where "verify_chain sha (edited_chain sha) = Inl (HashMismatch 2 (ev_hash (?c ! 2)) h)"
    using content_edit_detected[OF corpus_chain_verifies, of 2 sha "''tampered''"] corpus_chain_facts(2,3)[of sha] assms
    by (auto simp: edit)
  moreover have "verify_chain sha (deleted_chain sha) = Inl (SeqGap 2 3)"
    using deletion_detected[OF corpus_chain_verifies, of sha 2] by (simp add: deleted_chain_def Let_def numeral_3_eq_3)
  moreover have "verify_chain sha (redacted_chain sha) = Inr (chain_summary ?c)"
    unfolding redacted_is_erased verify_chain_erase by (rule corpus_chain_verifies)
  moreover have "verify_chain sha [] = Inl Empty" by (simp add: verify_chain_def)
  ultimately show ?thesis by (simp add: chain_cases_def reaches_def corpus_chain_verifies)
qed

section \<open>The command line on the fixtures\<close>

text \<open>
  A machine with the generated files, whose readers read back what the printers of the
  generator wrote for these records and this checkpoint.
\<close>

definition fixtures_installed ::
  "cli_env \<Rightarrow> json_lib \<Rightarrow> sha \<Rightarrow> sig_lib \<Rightarrow> corpus_lib \<Rightarrow> (string \<times> string) list \<Rightarrow> bool" where
  "fixtures_installed E J sha S L files \<longleftrightarrow>
     ce_sha E = sha \<and> ce_sig E = S \<and> list_all (\<lambda>(path, text). ce_file E path = Inr text) files \<and>
     list_all (\<lambda>evs. ce_record E (kl_pretty_events L evs @ newline) = Inr evs)
       [sealed_run J sha, tampered_run J sha, corpus_chain sha, take 5 (sealed_run J sha)] \<and>
     ce_checkpoint E (kl_pretty_checkpoint L (fixture_checkpoint J sha S) @ newline) = Inr (fixture_checkpoint J sha S) \<and>
     length (ed_public S fixture_key) = 32 \<and> ce_key E (ed_public S fixture_key) = Inr (ed_public S fixture_key)"

lemma check_fixture:
  assumes "fixtures_installed E J sha S L files" and "sig_ok S" and "run_id_of E evs = None"
    and "ce_file E cp_path = Inr (kl_pretty_checkpoint L (fixture_checkpoint J sha S) @ newline)" and "cp_path \<noteq> ''-''"
  shows "ok_head_seq ok < 7 \<Longrightarrow>
      check_checkpoint E cp_path (Some (b64_encode S (ed_public S fixture_key))) evs ok False =
      ([StdErr (''TRUNCATED: the checkpoint covers seq '' @ dec 7 @ '' but the record ends at seq ''
          @ dec (ok_head_seq ok) @ ''. '' @ dec (7 - ok_head_seq ok) @ '' events are missing from the end.'')], 1)"
    and "ok_head_seq ok = 7 \<Longrightarrow> find (\<lambda>e. ev_seq e = 7) evs = Some (last (sealed_run J sha)) \<Longrightarrow>
      check_checkpoint E cp_path (Some (b64_encode S (ed_public S fixture_key))) evs ok False =
      ([StdOut (''checkpoint signature valid (key fixture-key), covering seq '' @ dec 7)], 0)"
proof -
  let ?cp = "fixture_checkpoint J sha S"
  have cp: "cp_seq ?cp = 7" "cp_head_hash ?cp = ev_hash (last (sealed_run J sha))" "cp_key_id ?cp = ''fixture-key''"
    by (simp_all add: fixture_checkpoint_def Let_def sealed_run_facts)
  have ver: "cp_verify sha S ?cp (ed_public S fixture_key) = Inr ()"
    using cp_sign_verifies[OF assms(2)] by (simp add: fixture_checkpoint_def Let_def)
  have env: "ce_sha E = sha" "ce_sig E = S" "b64_decode S (b64_encode S (ed_public S fixture_key)) = Some (ed_public S fixture_key)"
    "length (ed_public S fixture_key) = 32" "ce_key E (ed_public S fixture_key) = Inr (ed_public S fixture_key)"
    "ce_checkpoint E (kl_pretty_checkpoint L ?cp @ newline) = Inr ?cp"
    using assms(1,2) by (simp_all add: fixtures_installed_def sig_ok_def)
  note sims = check_checkpoint_def check_signature_def read_input_def UNSOUND_def EXIT_OK_def assms(3-5) env cp ver
  show "ok_head_seq ok < 7 \<Longrightarrow>
      check_checkpoint E cp_path (Some (b64_encode S (ed_public S fixture_key))) evs ok False =
      ([StdErr (''TRUNCATED: the checkpoint covers seq '' @ dec 7 @ '' but the record ends at seq ''
          @ dec (ok_head_seq ok) @ ''. '' @ dec (7 - ok_head_seq ok) @ '' events are missing from the end.'')], 1)"
    by (simp add: sims)
  show "ok_head_seq ok = 7 \<Longrightarrow> find (\<lambda>e. ev_seq e = 7) evs = Some (last (sealed_run J sha)) \<Longrightarrow>
      check_checkpoint E cp_path (Some (b64_encode S (ed_public S fixture_key))) evs ok False =
      ([StdOut (''checkpoint signature valid (key fixture-key), covering seq '' @ dec 7)], 0)"
    by (simp add: sims)
qed

lemma fixtures_files:
  assumes "gen_corpus J sha S L = Some files" and "fixtures_installed E J sha S L files"
  shows "ce_file E ''conformance/fixtures/sealed-run-checkpoint.json'' =
      Inr (kl_pretty_checkpoint L (fixture_checkpoint J sha S) @ newline)"
    and "ce_file E ''conformance/fixtures/sealed-run.json'' = Inr (kl_pretty_events L (sealed_run J sha) @ newline)"
    and "ce_file E ''conformance/fixtures/tampered-run.json'' = Inr (kl_pretty_events L (tampered_run J sha) @ newline)"
    and "ce_file E ''conformance/fixtures/open-run.json'' = Inr (kl_pretty_events L (corpus_chain sha) @ newline)"
  using assms by (auto simp: gen_corpus_def fixtures_installed_def split: option.splits)

lemma sealed_run_head: "ok_head_seq (chain_summary (sealed_run J sha)) = 7"
  "ok_head_seq (chain_summary (take 5 (sealed_run J sha))) = 4"
proof -
  show "ok_head_seq (chain_summary (sealed_run J sha)) = 7" by (simp add: chain_summary_def sealed_run_facts)
  have ne: "take 5 (sealed_run J sha) \<noteq> []" by simp
  have "ev_seq (last (take 5 (sealed_run J sha))) = ev_seq (sealed_run J sha ! 4)"
    unfolding last_conv_nth[OF ne] by simp
  also have "\<dots> = 4" using core_fields_eq[OF sealed_run_nth[of 4]] by (simp add: numbered_def)
  finally show "ok_head_seq (chain_summary (take 5 (sealed_run J sha))) = 4" by (simp add: chain_summary_def)
qed

text \<open>
  C29: The command line exits on the fixtures as its contract says. \<open>tideline verify\<close> accepts the
  sealed record and says so, names event 3 of the tampered one and exits 1, accepts the open one,
  accepts the sealed one under its checkpoint and the public key, and under the same checkpoint
  rejects a copy cut to five events, of which it says three are missing.
\<close>

theorem fixtures_meet_the_contract:
  assumes "sig_ok S" and "gen_corpus J sha S L = Some files" and "fixtures_installed E J sha S L files"
    and "collision_free sha (edit_messages sha (sealed_run J sha ! 3) (tampered_run J sha ! 3))"
    and "ce_file E short = Inr (kl_pretty_events L (take 5 (sealed_run J sha)) @ newline)" and "short \<noteq> ''-''"
  shows "let sealed = ''conformance/fixtures/sealed-run.json'';
      cp = Some ''conformance/fixtures/sealed-run-checkpoint.json'';
      key = Some (b64_encode S (ed_public S fixture_key))
    in snd (cli_verify E sealed None None False) = 0 \<and>
       StdOut ''8 events verified'' \<in> set (fst (cli_verify E sealed None None False)) \<and>
       StdOut ''sealed    yes'' \<in> set (fst (cli_verify E sealed None None False)) \<and>
       cli_verify E ''conformance/fixtures/tampered-run.json'' None None False =
         ([StdErr ''event seq 3 was altered. Its contents no longer match the hash recorded for it.''], 1) \<and>
       snd (cli_verify E ''conformance/fixtures/open-run.json'' None None False) = 0 \<and>
       snd (cli_verify E sealed cp key False) = 0 \<and>
       StdOut ''checkpoint signature valid (key fixture-key), covering seq 7'' \<in> set (fst (cli_verify E sealed cp key False)) \<and>
       snd (cli_verify E short cp key False) = 1 \<and>
       StdErr ''TRUNCATED: the checkpoint covers seq 7 but the record ends at seq 4. 3 events are missing from the end.''
         \<in> set (fst (cli_verify E short cp key False))"
proof -
  let ?s = "sealed_run J sha" and ?key = "Some (b64_encode S (ed_public S fixture_key))"
  note files = fixtures_files[OF assms(2,3)]
  have env: "ce_sha E = sha" and reads:
    "ce_record E (kl_pretty_events L ?s @ newline) = Inr ?s"
    "ce_record E (kl_pretty_events L (tampered_run J sha) @ newline) = Inr (tampered_run J sha)"
    "ce_record E (kl_pretty_events L (corpus_chain sha) @ newline) = Inr (corpus_chain sha)"
    "ce_record E (kl_pretty_events L (take 5 ?s) @ newline) = Inr (take 5 ?s)"
    using assms(3) by (simp_all add: fixtures_installed_def)
  have id: "run_id_of E ?s = None" "run_id_of E (take 5 ?s) = None"
    using sealed_run_facts(2)[of J sha] chains_nonempty(2)[of J sha]
    by (cases ?s; simp add: run_id_of_def metadata_raw_def)+
  obtain h where tampered: "verify_chain sha (tampered_run J sha) = Inl (HashMismatch 3 (ev_hash (?s ! 3)) h)"
    using content_edit_detected[OF sealed_run_verifies, of 3 J sha "''altered after the fact''"]
      sealed_run_facts(3,4)[of J sha] assms(4)
    by (auto simp: tampered_run_def Let_def)
  have short: "verify_chain sha (take 5 ?s) = Inr (chain_summary (take 5 ?s))"
    using truncation_verifies[OF sealed_run_verifies, of 5 J sha] by simp
  have found: "find (\<lambda>e. ev_seq e = 7) ?s = Some (last ?s)"
  proof -
    have "ev_seq (?s ! j) \<noteq> 7" if "j < 7" for j
      using linked_seq_nth[OF sealed_run_linked, of j J sha] of_nat_u64_inject[of j 7] that by simp
    moreover have "last ?s = ?s ! 7" by (simp add: last_conv_nth)
    moreover have "ev_seq (?s ! 7) = 7" using linked_seq_nth[OF sealed_run_linked, of 7 J sha] by simp
    ultimately show ?thesis unfolding find_Some_iff by (intro exI[of _ 7]) simp
  qed
  note complete = check_fixture(2)[OF assms(3,1) id(1) files(1) _ sealed_run_head(1) found]
  note cut = check_fixture(1)[OF assms(3,1) id(2) files(1), of "chain_summary (take 5 ?s)"]
  have len: "ok_len (chain_summary ?s) = 8" "ok_sealed (chain_summary ?s)" "\<not> ok_sealed (chain_summary (corpus_chain sha))"
    by (simp_all add: chain_summary_def sealed_run_facts corpus_chain_facts)
  show ?thesis
    unfolding Let_def
    using complete cut assms(5,6)
    by (simp add: cli_verify_def read_input_def files reads env sealed_run_verifies corpus_chain_verifies tampered short
        len sealed_run_head dec_digits EXIT_OK_def UNSOUND_def Let_def)
qed

section \<open>A machine with the fixtures\<close>

text \<open>A digest that tells long messages apart by their content digest.\<close>

definition probe_sha :: sha where
  "probe_sha bs = (if 100 < length bs then Hash (1 # take 31 (drop 117 bs)) else prefix_sha bs)"

lemma hash_bytes_probe_sha:
  "hash_bytes (probe_sha bs) = (if 148 \<le> length bs then 1 # take 31 (drop 117 bs)
     else if 100 < length bs then hash_bytes (probe_sha bs) else take 32 (bs @ replicate 32 0))"
  by (simp add: probe_sha_def)

lemma probe_long: "hash_bytes (probe_sha (canon probe_sha c @ hash_bytes h))
   = 1 # take 31 (hash_bytes (digest probe_sha c ''content'' (ec_content c)) @
       take 31 (hash_bytes (digest probe_sha c ''metadata'' (ec_metadata_raw c))))"
  by (simp add: hash_bytes_probe_sha) (simp add: canon_layout)

lemma probe_edit:
  assumes "ev_content e = Some a" and "ev_content e' = Some b" and "core_inputs (core e) = [as_bytes ''message'', as_bytes a]"
    and "core_inputs (core e') = [as_bytes ''message'', as_bytes b]"
    and "a = ''event 2'' \<and> b = ''tampered'' \<or> a = ''event 3'' \<and> b = ''altered after the fact''"
  shows "collision_free probe_sha (edit_messages probe_sha e e')"
proof -
  let ?two = "\<lambda>h. take 2 (hash_bytes h)"
  let ?m = "canon probe_sha (core e) @ hash_bytes (ev_prev_hash e')"
    and ?m' = "canon probe_sha (core e') @ hash_bytes (ev_prev_hash e')"
  have msgs: "edit_messages probe_sha e e' = {as_bytes ''message'', as_bytes a, as_bytes b, ?m, ?m'}"
    by (auto simp: edit_messages_def assms(3,4))
  have short: "?two (probe_sha (as_bytes ''message'')) = [0x6d, 0x65]"
    "?two (probe_sha (as_bytes ''event 2'')) = [0x65, 0x76]" "?two (probe_sha (as_bytes ''event 3'')) = [0x65, 0x76]"
    "?two (probe_sha (as_bytes ''tampered'')) = [0x74, 0x61]"
    "?two (probe_sha (as_bytes ''altered after the fact'')) = [0x61, 0x6c]"
    by (simp_all add: probe_sha_def as_bytes_def byte_of_def)
  have long: "?two (probe_sha (canon probe_sha c @ hash_bytes h)) = 1 # take 1 (hash_bytes (probe_sha (as_bytes t)))"
    if "ec_content c = Some t" for c h t
    using that by (simp add: probe_long numeral_2_eq_2)
  have one: "take 1 (hash_bytes h) = take 1 (?two h)" for h by simp
  have "?two (probe_sha ?m) = 1 # take 1 (?two (probe_sha (as_bytes a)))"
    "?two (probe_sha ?m') = 1 # take 1 (?two (probe_sha (as_bytes b)))"
    using long[of "core e" a] long[of "core e'" b] assms(1,2) one by simp_all
  note two = this short
  have "inj_on (?two \<circ> probe_sha) (edit_messages probe_sha e e')"
    using assms(5) two unfolding msgs by (elim disjE conjE) (simp_all add: inj_on_def)
  then have "inj_on probe_sha (edit_messages probe_sha e e')" by (rule inj_on_imageI2)
  moreover have "?two ZERO = [0, 0]" by (simp add: numeral_2_eq_2)
  then have "ZERO \<notin> probe_sha ` edit_messages probe_sha e e'"
    using assms(5) two unfolding msgs by (elim disjE conjE) auto
  ultimately show ?thesis by (simp add: collision_free_def)
qed

lemma core_inputs_content:
  "core_inputs (core (e\<lparr>ev_content := Some t\<rparr>)) = [as_bytes ''message'', as_bytes t]"
  if "core e = core (numbered seq Message)"
proof -
  have "ev_kind e = Message" "ev_role e = None" "ev_name e = None" "ev_metadata e = None"
    using that by (simp_all add: core_def metadata_raw_def numbered_def default_event_def)
  then show ?thesis by (simp add: core_inputs_def core_fields_def)
qed

lemma probe_edited: "collision_free probe_sha (edit_messages probe_sha (corpus_chain probe_sha ! 2) (edited_chain probe_sha ! 2))"
proof -
  have c: "core (corpus_chain probe_sha ! 2) = core (numbered 2 Message)" using corpus_chain_nth[of 2] by simp
  have t: "ev_content (corpus_chain probe_sha ! 2) = Some ''event 2''" by (rule corpus_chain_facts(2))
  then have same: "(corpus_chain probe_sha ! 2)\<lparr>ev_content := Some ''event 2''\<rparr> = corpus_chain probe_sha ! 2" by simp
  show ?thesis
    using core_inputs_content[OF c, of "''event 2''"] core_inputs_content[OF c, of "''tampered''"] t
    unfolding same edited_chain_def Let_def by (intro probe_edit[of _ "''event 2''" _ "''tampered''"]) simp_all
qed

lemma probe_tampered:
  "collision_free probe_sha (edit_messages probe_sha (sealed_run J probe_sha ! 3) (tampered_run J probe_sha ! 3))"
proof -
  have c: "core (sealed_run J probe_sha ! 3) = core (numbered 3 Message)" using sealed_run_nth[of 3] by simp
  have t: "ev_content (sealed_run J probe_sha ! 3) = Some ''event 3''" by (rule sealed_run_facts(3))
  then have same: "(sealed_run J probe_sha ! 3)\<lparr>ev_content := Some ''event 3''\<rparr> = sealed_run J probe_sha ! 3" by simp
  show ?thesis
    using core_inputs_content[OF c, of "''event 3''"] core_inputs_content[OF c, of "''altered after the fact''"] t
    unfolding same tampered_run_def Let_def
    by (intro probe_edit[of _ "''event 3''" _ "''altered after the fact''"]) simp_all
qed

theorem corpus_cases_reach_their_verdicts_witness:
  "list_all (\<lambda>(name, events, expect, at_seq). reaches (verify_chain probe_sha events) expect at_seq) (chain_cases probe_sha)"
  by (rule corpus_cases_reach_their_verdicts[OF probe_edited])

text \<open>Printers that name the records, and readers that know the names.\<close>

definition demo_sealed_run :: "run_event list" where
  "demo_sealed_run = sealed_run demo_json probe_sha"

definition demo_corpus_lib :: corpus_lib where
  "demo_corpus_lib = \<lparr>kl_parse = (\<lambda>_. Some default_event), kl_events = (\<lambda>_. ''events''), kl_pretty = (\<lambda>_. ''value''),
     kl_pretty_events = (\<lambda>evs. if evs = demo_sealed_run then ''sealed'' else if length evs = 8 then ''tampered''
       else if length evs = 4 then ''open'' else ''cut''),
     kl_pretty_checkpoint = (\<lambda>_. ''checkpoint'')\<rparr>"

definition demo_machine :: "(string \<times> string) list \<Rightarrow> cli_env" where
  "demo_machine files =
     \<lparr>ce_stdin = Inl ''closed'',
      ce_file = (\<lambda>p. if p = ''cut.json'' then Inr (''cut'' @ newline)
        else case map_of files p of None \<Rightarrow> Inl ''No such file'' | Some t \<Rightarrow> Inr t),
      ce_record = (\<lambda>t. if t = ''sealed'' @ newline then Inr demo_sealed_run
        else if t = ''tampered'' @ newline then Inr (tampered_run demo_json probe_sha)
        else if t = ''open'' @ newline then Inr (corpus_chain probe_sha) else Inr (take 5 demo_sealed_run)),
      ce_checkpoint = (\<lambda>_. Inr (fixture_checkpoint demo_json probe_sha demo_sig)),
      ce_json = demo_json, ce_b64_error = (\<lambda>_. ''invalid byte''), ce_key = Inr, ce_sha = probe_sha, ce_sig = demo_sig\<rparr>"

lemma demo_names:
  "kl_pretty_events demo_corpus_lib (sealed_run demo_json probe_sha) = ''sealed''"
  "kl_pretty_events demo_corpus_lib (tampered_run demo_json probe_sha) = ''tampered''"
  "kl_pretty_events demo_corpus_lib (corpus_chain probe_sha) = ''open''"
  "kl_pretty_events demo_corpus_lib (take 5 (sealed_run demo_json probe_sha)) = ''cut''"
proof -
  let ?s = "sealed_run demo_json probe_sha" and ?t = "tampered_run demo_json probe_sha"
  have "ev_content (?t ! 3) \<noteq> ev_content (?s ! 3)"
    using sealed_run_facts(3)[of demo_json probe_sha] by (simp add: tampered_run_def Let_def)
  then have "?t \<noteq> ?s" by metis
  moreover have "length ?t = 8" by (simp add: tampered_run_def Let_def)
  moreover have "corpus_chain probe_sha \<noteq> ?s" "take 5 ?s \<noteq> ?s"
    using corpus_chain_length[of probe_sha] sealed_run_length[of demo_json probe_sha]
      arg_cong[of "take 5 ?s" ?s length] by (metis numeral_eq_iff semiring_norm(85) semiring_norm(87), auto)
  ultimately show
    "kl_pretty_events demo_corpus_lib ?s = ''sealed''" "kl_pretty_events demo_corpus_lib ?t = ''tampered''"
    "kl_pretty_events demo_corpus_lib (corpus_chain probe_sha) = ''open''" "kl_pretty_events demo_corpus_lib (take 5 ?s) = ''cut''"
    by (simp_all add: demo_corpus_lib_def demo_sealed_run_def)
qed

lemma demo_generated: "\<exists>files. gen_corpus demo_json probe_sha demo_sig demo_corpus_lib = Some files"
  by (simp add: gen_corpus_def corpus_events_def vector_def vector_texts_def Let_def demo_corpus_lib_def)

lemma demo_installed:
  assumes "gen_corpus demo_json probe_sha demo_sig demo_corpus_lib = Some files"
  shows "fixtures_installed (demo_machine files) demo_json probe_sha demo_sig demo_corpus_lib files"
proof -
  have "distinct (map fst files)" "''cut.json'' \<notin> fst ` set files"
    using assms by (auto simp: gen_corpus_def split: option.splits)
  then have "list_all (\<lambda>(path, text). ce_file (demo_machine files) path = Inr text) files"
    by (force simp: list_all_iff demo_machine_def)
  then show ?thesis
    by (simp add: fixtures_installed_def demo_names)
      (simp add: demo_machine_def demo_sealed_run_def newline_def demo_sig_def fixture_key_def)
qed

theorem fixtures_meet_the_contract_witness:
  "\<exists>files. gen_corpus demo_json probe_sha demo_sig demo_corpus_lib = Some files \<and>
     cli_verify (demo_machine files) ''conformance/fixtures/tampered-run.json'' None None False =
       ([StdErr ''event seq 3 was altered. Its contents no longer match the hash recorded for it.''], 1) \<and>
     snd (cli_verify (demo_machine files) ''conformance/fixtures/sealed-run.json'' None None False) = 0"
proof -
  obtain files where files: "gen_corpus demo_json probe_sha demo_sig demo_corpus_lib = Some files"
    using demo_generated by blast
  have "ce_file (demo_machine files) ''cut.json''
      = Inr (kl_pretty_events demo_corpus_lib (take 5 (sealed_run demo_json probe_sha)) @ newline)"
    by (simp add: demo_names) (simp add: demo_machine_def)
  note F = fixtures_meet_the_contract[OF demo_sig_ok files demo_installed[OF files] probe_tampered this, unfolded Let_def]
  have "cli_verify (demo_machine files) ''conformance/fixtures/tampered-run.json'' None None False =
       ([StdErr ''event seq 3 was altered. Its contents no longer match the hash recorded for it.''], 1)"
    "snd (cli_verify (demo_machine files) ''conformance/fixtures/sealed-run.json'' None None False) = 0"
    using F by simp_all
  then show ?thesis using files by blast
qed

end
