(* ===== verification/Spec2Isabelle.thy ===== *)
theory Spec2Isabelle
  imports Store_Views Server_Props Tenants Spine Manager_Props Startup Redis_Props Metrics_Text
    Paging Router Command Corpus
begin

text \<open>
  Tideline keeps tamper-evident records of agent runs (the protocol TLR/1) and serves live
  token streams. Its parts, and the theories that model them:

  \<^item> The protocol, \<open>crates/tideline-proto\<close>: digests and hexadecimal (Tlr_Hash), event kinds (Kind),
    the 181 canonical bytes and the digests of erasable fields (Canon), events and envelopes
    (Event), the verification of a chain (Chain) and signed checkpoints (Checkpoint).
  \<^item> The record store, \<open>crates/tideline-server/src/tlr\<close>: the interface of \<open>store.rs\<close> (Store), its
    implementation \<open>sqlite.rs\<close> with its four tables, transactions and faults (Sqlite), the gates of
    \<open>approvals.rs\<close> (Approvals), keys, credentials and the handlers of \<open>routes.rs\<close> (Auth, Routes,
    Handlers) and the live tail of a record (Watch).
  \<^item> The streams, \<open>crates/tideline-server/src\<close>: one stream and its reader (Stream_Core), the registry
    with eviction and reaping (Manager), the trait of a backend (Backend) and its other
    implementation \<open>redis_backend.rs\<close>, run by a fleet of servers (Redis), the lifecycle
    reporter (Events) and the handlers of \<open>/streams\<close> with SSE and WebSocket (Api).
  \<^item> The server around them: its start, settings and signing key, \<open>main.rs\<close> and
    \<open>tlr/keys.rs\<close> (Startup), the text of its metrics (Metrics_Text).
  \<^item> The clients: \<open>crates/tideline-sdk\<close> (Sdk, Gate_Wait, Sse, Client; Utf8 cuts bytes into
    characters; Router takes its paths to the handlers) and \<open>crates/tideline-cli\<close> (Cli, Export,
    Command).
  \<^item> The conformance corpus and the fixtures, \<open>crates/tideline-proto/examples/gen_corpus.rs\<close>
    (Corpus).

  How they interact. A handler of the record API authenticates, calls the store, and publishes the
  new head on the stream \<open>tlr.<namespace>.<run>\<close>; a watcher of the record treats that stream as a
  wake-up only and reads the record itself. The stream API serves the same backend under its own
  credentials. Clients fetch, follow and verify records over HTTP.

  Definitions. A struct is a record and an enum a datatype with the fields and constructors of the
  source; \<open>u64\<close> and \<open>u32\<close> are words of their width; strings are their UTF-8 bytes; a failing
  function returns a sum or an option. A store operation is a function of the database and of
  \<open>sys\<close>, the clock reading and the fault of that call; a world is a state with the
  \<open>sys\<close> of every call to come, and a server is a world with its counters and the calls made on
  the streams. \<open>serve_all\<close> runs any sequence of requests of any tenants. Generators (the stream
  reader, the watcher) are state machines whose interleavings with other steps are inductive
  relations (\<open>reading\<close>, \<open>watching\<close>). The processes of a fleet share the state of Redis, each with
  its own counters; \<open>run_fleet\<close> interleaves the writes of one with the reads of another. The
  operations of a client are functions of a network, any function from a request to a
  reply (\<open>Client\<close>). Loops that may not end take fuel and return None when it
  runs out; the theorems about them say which fuel is enough (a request more than the record has
  pages) or that none is.

  Lemmas. Chain and Checkpoint show what a sound record and a valid signature commit to.
  Store_Inv holds the invariant of the tables and what each transaction does to a
  record; Store_Ops lifts it to calls with faults and to sequences of operations; Store_Props and
  Store_Views show the refinement of an append-only log, retries, sealing, erasure, paging and
  the separation of tenants. Record_Log is the contract of a store as a locale, in which Gates
  proves the operations on approval gates; Sqlite_Store interprets it. Server_Inv, Server and
  Handlers carry the invariant of the tables, record shapes and checkpoints through every
  handler; Tenants shows that a handler touches one namespace; Server_Props states what holds
  after any requests. Stream_Seam proves that a reader joins replay and live values exactly;
  Backend states the contract of a backend as a locale and interprets it on the registry;
  Manager_Props bounds the registry. Redis_Fleet keeps the invariant of a stream in Redis and of
  its reader and interprets the same contract; Redis_Props states the seam of replay and live
  values for a fleet. Growth has a locale for an order on databases that every transaction
  respects, lifts it once to calls, handlers and sequences of requests, and interprets it on the
  rows that stay recorded. Api_Props and Spine cover keys, tickets and the crossing of
  the two APIs. Watch, Sse, Sdk, Gate_Wait, Client, Cli and Export show what reaches a client:
  among them that a retried operation records once and that replies decode. Paging shows that
  following the cursors of a listing gives every run once while other requests are served. Router
  shows that each path of the client is routed to the handler of its operation, and what becomes
  of ids that are dot segments. Command states the exit codes; Corpus that the verifier reaches
  the verdicts of the corpus and the command line those of its contract on the fixtures. Startup
  shows when a server may start and that its key outlives a restart.

  Parameters. SHA-256, Ed25519, base64 and the JSON library are records of functions (\<open>sha\<close>,
  \<open>sig_lib\<close>, \<open>json_lib\<close>, \<open>decoders\<close>, \<open>event_reader\<close>) whose laws are named hypotheses (\<open>json_ok\<close>: a
  value is read back from its text; \<open>sig_ok\<close>: a signature verifies under its public key).
  Collision freedom and unforgeability are stated for the finitely many inputs a claim is about.
  The control plane, the iteration order of hash maps, files and standard input, and the
  framing of the web framework (\<open>sse_wire\<close>) are parameters as well. So is the Redis server
  (\<open>redis\<close>), a record of its commands with the laws \<open>redis_laws\<close>: it answers, a stream below its
  limit grows by an entry with a new identifier and is read in order, and nothing expires. The URL
  library and the router of the web framework (\<open>web\<close>) are parameters with the laws \<open>web_ok\<close>: dot
  segments are removed as RFC 3986 says, and a path that fits one template goes to it.

  Bounds. SQLite's integers are signed, so the invariant keeps a database below 2^63 events; a
  request writes at most 5000 events, and theorems about sequences of requests ask for that much
  room. Gates are read from the first 5000 events of a run, as the code does.

  Listings ask for starts below 2^63, which the clock of a real machine does not reach.

  Not modelled: the load test, an example that measures a running server. Header parsing, the
  matching of paths and the encoding of bodies belong to the web framework and to serde, parsing
  arguments to clap; logging, signals and the modes of files have no effect on what is claimed;
  ages in the metrics are exact decimals.
\<close>

end
